(* ===== verification/Go_Base.thy ===== *)
theory Go_Base
  imports Main "HOL-Library.Word" "HOL-Library.Multiset"
begin

text \<open>
  Prelude: the Go notions every component of the gateway uses.

  \<^item> Byte slices are lists of 8-bit words; Go strings (and byte slices that the program only
    treats as text) are HOL strings, one \<open>char\<close> per byte.
  \<^item> A Go \<open>error\<close> value is a \<open>go_error\<close>; a function returning \<open>(T, error)\<close> returns a sum with the
    error on the left.
  \<^item> A \<open>go_stop\<close> says why a goroutine does not get past a statement: a run-time panic, or
    \<open>Blocked\<close> when it waits for ever (a locked mutex nobody unlocks, a nil channel). Code that
    may stop returns a sum with the \<open>go_stop\<close> on the left. But for the client WebSocket loop no
    goroutine of the gateway recovers, so a panic ends the process.
  \<^item> \<open>encoding/binary\<close>'s big-endian encoding of machine words, the allocation limit of
    \<open>make([]byte, n)\<close>, the iteration orders of a \<open>range\<close> over a map, and the collection
    \<open>go_simps\<close> of the equations the component proofs unfold.
\<close>

unbundle bit_operations_syntax

named_theorems go_simps

type_synonym byte = "8 word"
type_synonym bytes = "byte list"
type_synonym uint64 = "64 word"
type_synonym uint16 = "16 word"

datatype go_error = EOF | ErrUnexpectedEOF | ErrMsg string

datatype go_stop =
    PanicErr go_error
  | PanicIndex
  | PanicNil
  | PanicMakeSlice
  | PanicLog string
  | Blocked

section \<open>Sequencing fallible steps\<close>

definition bindP :: "'e + 'a \<Rightarrow> ('a \<Rightarrow> 'e + 'b) \<Rightarrow> 'e + 'b" where
  "bindP r f = (case r of Inl e \<Rightarrow> Inl e | Inr x \<Rightarrow> f x)"

lemma bindP_simps [simp]: "bindP (Inl e) f = Inl e" "bindP (Inr x) f = f x"
  by (simp_all add: bindP_def)

lemma bindP_Inr_iff [go_simps]: "bindP r f = Inr y \<longleftrightarrow> (\<exists>x. r = Inr x \<and> f x = Inr y)"
  by (cases r) auto

lemma bindP_Inl_iff [go_simps]:
  "bindP r f = Inl e \<longleftrightarrow> r = Inl e \<or> (\<exists>x. r = Inr x \<and> f x = Inl e)"
  by (cases r) auto

text \<open>\<open>internal.CheckError\<close>: a non-nil error becomes a panic.\<close>

definition CheckError :: "go_error option \<Rightarrow> go_stop + unit" where
  "CheckError e = (case e of None \<Rightarrow> Inr () | Some err \<Rightarrow> Inl (PanicErr err))"

lemma CheckError_simps [simp]:
  "CheckError None = Inr ()" "CheckError (Some e) = Inl (PanicErr e)"
  by (simp_all add: CheckError_def)

text \<open>\<open>CheckError\<close> after a call that returns \<open>(T, error)\<close>.\<close>

definition must :: "go_error + 'a \<Rightarrow> go_stop + 'a" where
  "must r = (case r of Inl e \<Rightarrow> Inl (PanicErr e) | Inr x \<Rightarrow> Inr x)"

lemma must_simps [simp]: "must (Inl e) = Inl (PanicErr e)" "must (Inr x) = Inr x"
  by (simp_all add: must_def)

lemma must_Inr_iff [go_simps]: "must r = Inr x \<longleftrightarrow> r = Inr x"
  by (cases r) auto

section \<open>Strings and bytes\<close>

text \<open>The conversions \<open>[]byte(s)\<close> and \<open>string(b)\<close>.\<close>

definition bytes_of_string :: "string \<Rightarrow> bytes" where
  "bytes_of_string s = map (\<lambda>c. word_of_nat (of_char c)) s"

definition string_of_bytes :: "bytes \<Rightarrow> string" where
  "string_of_bytes bs = map (\<lambda>b. char_of (unat b)) bs"

lemma of_char_lt_256: "(of_char c :: nat) < 256"
  using of_char_of [of "of_char c :: nat"] by (metis char_of_char mod_less_divisor zero_less_numeral)

lemma string_of_bytes_of_string [simp]: "string_of_bytes (bytes_of_string s) = s"
proof -
  have "char_of (unat (word_of_nat (of_char c) :: byte)) = c" for c
    using of_char_lt_256 [of c] by (simp add: unat_of_nat take_bit_nat_eq_self)
  then show ?thesis
    by (simp add: string_of_bytes_def bytes_of_string_def comp_def)
qed

lemma bytes_of_string_of_bytes [simp]: "bytes_of_string (string_of_bytes b) = b"
proof -
  have "(word_of_nat (of_char (char_of (unat x))) :: byte) = x" for x :: byte
  proof -
    have "unat x < 256"
      using unsigned_less [of x] by simp
    then show ?thesis
      by (simp add: of_char_of)
  qed
  then show ?thesis
    by (simp add: string_of_bytes_def bytes_of_string_def comp_def)
qed

lemma length_bytes_of_string [simp]: "length (bytes_of_string s) = length s"
  by (simp add: bytes_of_string_def)

lemma length_string_of_bytes [simp]: "length (string_of_bytes b) = length b"
  by (simp add: string_of_bytes_def)

section \<open>Big-endian encoding (encoding/binary)\<close>

text \<open>
  \<open>be_put k v\<close> is the \<open>k\<close> bytes \<open>byte(v >> 8*(k-1)), ..., byte(v)\<close> that \<open>PutUint64\<close> and
  \<open>PutUint16\<close> store; \<open>be_get\<close> is the shift-and-or of \<open>Uint64\<close> and \<open>Uint16\<close>.
\<close>

definition be_put :: "nat \<Rightarrow> 'a::len word \<Rightarrow> bytes" where
  "be_put k v = map (\<lambda>i. ucast (drop_bit (8 * i) v)) (rev [0..<k])"

definition be_get :: "bytes \<Rightarrow> 'a::len word" where
  "be_get bs = foldl (\<lambda>acc b. push_bit 8 acc OR ucast b) 0 bs"

lemma length_be_put [simp]: "length (be_put k v) = k"
  by (simp add: be_put_def)

lemma be_put_Nil_iff [simp]: "be_put k v = [] \<longleftrightarrow> k = 0"
  by (metis length_0_conv length_be_put)

lemma be_put_Suc: "be_put (Suc k) v = be_put k (drop_bit 8 v) @ [ucast v]"
  unfolding be_put_def
  by (subst upt_conv_Cons, simp, subst map_Suc_upt [symmetric])
    (simp add: rev_map comp_def add.commute)

lemma be_get_snoc: "be_get (xs @ [b]) = push_bit 8 (be_get xs) OR ucast b"
  by (simp add: be_get_def)

lemma be_get_put: "be_get (be_put k v) = take_bit (8 * k) v"
proof (induction k arbitrary: v)
  case 0
  then show ?case by (simp add: be_put_def be_get_def)
next
  case (Suc k)
  have "push_bit 8 (take_bit (8 * k) (drop_bit 8 v)) OR ucast (ucast v :: byte)
      = take_bit (8 * Suc k) v"
    by (rule bit_word_eqI) (auto simp: bit_simps)
  then show ?case
    by (simp only: be_put_Suc be_get_snoc Suc.IH)
qed

lemma be_put_get:
  "8 * length bs \<le> LENGTH('a) \<Longrightarrow> be_put (length bs) (be_get bs :: 'a::len word) = bs"
proof (induction bs rule: rev_induct)
  case Nil
  then show ?case by (simp add: be_put_def)
next
  case (snoc b bs)
  have le: "8 * length bs + 8 \<le> LENGTH('a)"
    using snoc.prems by simp
  have hi: "be_put k (drop_bit 8 (push_bit 8 w OR ucast b)) = be_put k w"
    if "8 * k + 8 \<le> LENGTH('a)" for k and w :: "'a word"
    using that unfolding be_put_def
    by (auto intro!: bit_word_eqI simp: bit_simps) (drule bit_imp_le_length, simp)
  have lo: "ucast (push_bit 8 w OR ucast b :: 'a word) = b" for w :: "'a word"
    using le by (auto intro!: bit_word_eqI simp: bit_simps)
  have "be_put (length bs) (be_get bs :: 'a word) = bs"
    using snoc by simp
  then show ?case
    by (simp only: be_get_snoc length_append_singleton be_put_Suc hi [OF le] lo)
qed

lemma be_get_put_uint64 [simp]: "be_get (be_put 8 v) = (v :: uint64)"
  by (simp add: be_get_put take_bit_word_eq_self)

lemma be_get_put_uint16 [simp]: "be_get (be_put 2 v) = (v :: uint16)"
  by (simp add: be_get_put take_bit_word_eq_self)

section \<open>Allocation\<close>

text \<open>
  \<open>make([]byte, n)\<close> panics when \<open>n\<close> exceeds the address space the runtime can allocate: 48 bits
  on the 64-bit Linux targets the gateway is built for.
\<close>

definition max_alloc :: nat where
  "max_alloc = 2 ^ 48"

definition make_bytes :: "nat \<Rightarrow> go_stop + bytes" where
  "make_bytes n = (if n \<le> max_alloc then Inr (replicate n 0) else Inl PanicMakeSlice)"

section \<open>Ranging over a map\<close>

text \<open>
  \<open>for k, v := range m\<close> visits the keys of a Go map in an order the language leaves open. An
  operation that ranges over a map takes that order as an argument; \<open>range_order\<close> says that it
  is one of the possible ones.
\<close>

definition range_order :: "('k \<rightharpoonup> 'v) \<Rightarrow> 'k list \<Rightarrow> bool" where
  "range_order m ks \<longleftrightarrow> distinct ks \<and> set ks = dom m"

lemma range_order_ex: "finite (dom m) \<Longrightarrow> \<exists>ks. range_order m ks"
  by (metis finite_distinct_list range_order_def)

lemma range_order_mset:
  assumes "range_order m ks" and "range_order m ks'"
  shows "mset ks = mset ks'"
  using assms unfolding range_order_def by (metis set_eq_iff_mset_eq_distinct)

text \<open>Deleting a set of keys one by one, in any order, is one restriction.\<close>

lemma fold_delete: "fold (\<lambda>k m. m(k := None)) ks m = m |` (- set ks)"
proof (induction ks arbitrary: m)
  case Nil
  then show ?case by (simp add: restrict_map_def)
next
  case (Cons k ks)
  then show ?case by (auto simp: restrict_map_def fun_eq_iff)
qed

section \<open>The last element with a property of its rest\<close>

lemma snoc_split_iff:
  "(\<exists>us vs. xs @ [x] = us @ y # vs \<and> Q vs) \<longleftrightarrow>
     (x = y \<and> Q []) \<or> (\<exists>us vs. xs = us @ y # vs \<and> Q (vs @ [x]))" (is "?L \<longleftrightarrow> ?R")
proof
  assume ?L
  then obtain us vs where e: "xs @ [x] = us @ y # vs" "Q vs" by blast
  show ?R
  proof (cases vs rule: rev_cases)
    case Nil
    then show ?thesis using e by simp
  next
    case (snoc ws w)
    then have "xs = us @ y # ws" "x = w"
      using e(1) by (metis append_Cons append_assoc append1_eq_conv)+
    then show ?thesis using e(2) snoc by blast
  qed
next
  assume ?R
  then show ?L
    by (metis append_Cons append_assoc)
qed

end
