(* ===== verification/Models.thy ===== *)
theory Models
  imports Go_Base
begin

text \<open>
  The messages of \<open>internal/models\<close> (generated from \<open>proto/models.proto\<close> and
  \<open>proto/ext_service.proto\<close>) as records, field by field; the runtime's bookkeeping fields
  (\<open>state\<close>, \<open>sizeCache\<close>, \<open>unknownFields\<close>) are left out. A pointer to a message is an
  \<open>option\<close>, and a generated getter of a nil pointer is the field's zero value. \<open>int64\<close> and
  \<open>int32\<close> fields are words read as two's complement.

  The protobuf runtime is not part of the repository. Where the code marshals or unmarshals, the
  model takes the function as an argument; \<open>codec_ok\<close> is the one law the properties use: what
  was marshalled unmarshals to the same message.
\<close>

type_synonym int64 = "64 word"
type_synonym NetworkType = "32 word"

record ApronServiceProvider =
  prov_Id :: string
  prov_Name :: string
  prov_Desc :: string
  prov_CreatedAt :: int64
  prov_UpdatedAt :: int64
  prov_ExtraDetail :: string
  prov_BaseUrl :: string
  prov_Schema :: string
  prov_NetworkType :: NetworkType

record ApronService =
  svc_Id :: string
  svc_Name :: string
  svc_Desc :: string
  svc_Logo :: string
  svc_Usage :: string
  svc_UserId :: string
  svc_Providers :: "ApronServiceProvider option list"
  svc_IsDeleted :: bool

record ApronServiceRequest =
  req_ServiceId :: string
  req_RequestId :: string
  req_PeerId :: string
  req_IsWsRequest :: bool
  req_RawRequest :: bytes

record ApronServiceData =
  dat_RequestId :: string
  dat_RawData :: bytes

record ApronUsageRecord =
  rec_UserKey :: string
  rec_ServiceId :: string
  rec_StartTs :: int64
  rec_EndTs :: int64
  rec_AccessCount :: uint64
  rec_UploadTraffic :: uint64
  rec_DownloadTraffic :: uint64

record NodeReport =
  rep_NodeId :: string
  rep_Records :: "ApronUsageRecord list"

record ApronSocketInitRequest =
  init_ServiceId :: string
  init_RequestId :: string
  init_PeerId :: string
  init_UserId :: string

record ApronSocketServiceRequest =
  sreq_ServiceId :: string
  sreq_RequestId :: string
  sreq_PeerId :: string

record ExtServiceData =
  ext_ServiceName :: string
  ext_RequestId :: string
  ext_MsgId :: string
  ext_ContentType :: "32 word"
  ext_Content :: bytes

text \<open>The zero values \<open>ApronService{}\<close> and so on.\<close>

definition empty_service :: ApronService where
  "empty_service = \<lparr>svc_Id = '''', svc_Name = '''', svc_Desc = '''', svc_Logo = '''',
     svc_Usage = '''', svc_UserId = '''', svc_Providers = [], svc_IsDeleted = False\<rparr>"

definition empty_provider :: ApronServiceProvider where
  "empty_provider = \<lparr>prov_Id = '''', prov_Name = '''', prov_Desc = '''', prov_CreatedAt = 0,
     prov_UpdatedAt = 0, prov_ExtraDetail = '''', prov_BaseUrl = '''', prov_Schema = '''',
     prov_NetworkType = 0\<rparr>"

text \<open>The generated getters the gateway calls. Each returns the zero value for a nil receiver.\<close>

definition GetId :: "ApronService option \<Rightarrow> string" where
  "GetId x = (case x of Some s \<Rightarrow> svc_Id s | None \<Rightarrow> '''')"

definition GetSchema :: "ApronServiceProvider option \<Rightarrow> string" where
  "GetSchema x = (case x of Some p \<Rightarrow> prov_Schema p | None \<Rightarrow> '''')"

definition GetBaseUrl :: "ApronServiceProvider option \<Rightarrow> string" where
  "GetBaseUrl x = (case x of Some p \<Rightarrow> prov_BaseUrl p | None \<Rightarrow> '''')"

lemma getter_simps [simp]:
  "GetId (Some s) = svc_Id s" "GetId None = ''''"
  "GetSchema (Some p) = prov_Schema p" "GetSchema None = ''''"
  "GetBaseUrl (Some p) = prov_BaseUrl p" "GetBaseUrl None = ''''"
  by (simp_all add: GetId_def GetSchema_def GetBaseUrl_def)

section \<open>Codecs\<close>

type_synonym 'm marshaller = "'m \<Rightarrow> go_error + bytes"
type_synonym 'm unmarshaller = "bytes \<Rightarrow> go_error + 'm"

definition codec_ok :: "'m marshaller \<Rightarrow> 'm unmarshaller \<Rightarrow> bool" where
  "codec_ok mar unm \<longleftrightarrow> (\<forall>m b. mar m = Inr b \<longrightarrow> unm b = Inr m)"

lemma codec_okD: "codec_ok mar unm \<Longrightarrow> mar m = Inr b \<Longrightarrow> unm b = Inr m"
  by (simp add: codec_ok_def)

text \<open>
  A nil pointer among the providers, which a JSON null makes, is sent as an empty provider, so for
  services the law is restricted to those without.
\<close>

definition codec_on :: "('m \<Rightarrow> bool) \<Rightarrow> 'm marshaller \<Rightarrow> 'm unmarshaller \<Rightarrow> bool" where
  "codec_on P mar unm \<longleftrightarrow> (\<forall>m b. P m \<longrightarrow> mar m = Inr b \<longrightarrow> unm b = Inr m)"

lemma codec_onD: "codec_on P mar unm \<Longrightarrow> P m \<Longrightarrow> mar m = Inr b \<Longrightarrow> unm b = Inr m"
  by (simp add: codec_on_def)

lemma codec_ok_on: "codec_ok mar unm \<Longrightarrow> codec_on P mar unm"
  by (simp add: codec_ok_def codec_on_def)

definition wf_service :: "ApronService \<Rightarrow> bool" where
  "wf_service s \<longleftrightarrow> None \<notin> set (svc_Providers s)"

end
