(* ===== verification/Request_Id.thy ===== *)
theory Request_Id
  imports Go_Base
begin

text \<open>
  Request ids. \<open>csgw_http.go\<close> and \<open>csgw_socket.go\<close> build them with
  \<open>fmt.Sprintf("%s.%s.%s", userKey, serviceId, uuid)\<close> and the usage accounting takes them apart
  again with \<open>ExtractServiceInfoFromRequestID\<close> of \<open>internal/models/helper.go\<close>.
\<close>

section \<open>The code\<close>

text \<open>\<open>strings.SplitN(s, sep, n)\<close> for a one-byte separator and \<open>n \<ge> 0\<close>.\<close>

fun SplitN :: "string \<Rightarrow> char \<Rightarrow> nat \<Rightarrow> string list" where
  "SplitN s sep 0 = []"
| "SplitN s sep (Suc 0) = [s]"
| "SplitN s sep (Suc (Suc n)) =
     (if sep \<in> set s
      then takeWhile (\<lambda>c. c \<noteq> sep) s # SplitN (tl (dropWhile (\<lambda>c. c \<noteq> sep) s)) sep (Suc n)
      else [s])"

definition ExtractServiceInfoFromRequestID :: "string \<Rightarrow> go_stop + (string \<times> string)" where
  "ExtractServiceInfoFromRequestID requestId =
     (let rslt = SplitN requestId (CHR ''.'') 3 in
      if length rslt \<noteq> 3
      then Inl (PanicLog (''invalid format of request id ('' @ requestId @ ''), please contract admin''))
      else Inr (rslt ! 0, rslt ! 1))"

definition make_request_id :: "string \<Rightarrow> string \<Rightarrow> string \<Rightarrow> string" where
  "make_request_id userKey serviceId uuid = userKey @ ''.'' @ serviceId @ ''.'' @ uuid"

definition GenerateUsageRecordKey :: "string \<Rightarrow> string \<Rightarrow> string" where
  "GenerateUsageRecordKey serviceId userKey = serviceId @ ''.'' @ userKey"

text \<open>
  \<open>ServiceHostnameToIdByte\<close> of \<open>internal/utils.go\<close>, a helper for service ids made from host names:
  \<open>bytes.Replace\<close> of every dot.
\<close>

definition ServiceHostnameToIdByte :: "string \<Rightarrow> string" where
  "ServiceHostnameToIdByte hostname = map (\<lambda>c. if c = CHR ''.'' then CHR ''_'' else c) hostname"

section \<open>Splitting\<close>

definition no_dot :: "string \<Rightarrow> bool" where
  "no_dot s \<longleftrightarrow> CHR ''.'' \<notin> set s"

lemma takeWhile_dot [simp]:
  "no_dot a \<Longrightarrow> takeWhile (\<lambda>c. c \<noteq> CHR ''.'') (a @ CHR ''.'' # r) = a"
  by (induction a) (auto simp: no_dot_def)

lemma dropWhile_dot [simp]:
  "no_dot a \<Longrightarrow> dropWhile (\<lambda>c. c \<noteq> CHR ''.'') (a @ CHR ''.'' # r) = CHR ''.'' # r"
  by (induction a) (auto simp: no_dot_def)

lemma split_at_dot:
  "CHR ''.'' \<in> set s \<Longrightarrow> \<exists>a r. s = a @ CHR ''.'' # r \<and> no_dot a"
  using split_list_first [of "CHR ''.''" s] by (auto simp: no_dot_def)

lemma Extract_ok:
  "no_dot u \<Longrightarrow> no_dot s \<Longrightarrow>
    ExtractServiceInfoFromRequestID (u @ ''.'' @ s @ ''.'' @ r) = Inr (u, s)"
  by (simp add: ExtractServiceInfoFromRequestID_def numeral_3_eq_3)

lemma Extract_InrD:
  assumes "ExtractServiceInfoFromRequestID rid = Inr (u, s)"
  shows "no_dot u" and "no_dot s" and "\<exists>r. rid = u @ ''.'' @ s @ ''.'' @ r"
proof -
  have 1: "CHR ''.'' \<in> set rid"
    using assms by (auto simp: ExtractServiceInfoFromRequestID_def numeral_3_eq_3 split: if_splits)
  obtain a r1 where a: "rid = a @ CHR ''.'' # r1" "no_dot a"
    using split_at_dot [OF 1] by blast
  have 2: "CHR ''.'' \<in> set r1"
    using assms a
    by (auto simp: ExtractServiceInfoFromRequestID_def numeral_3_eq_3 split: if_splits)
  obtain b r2 where b: "r1 = b @ CHR ''.'' # r2" "no_dot b"
    using split_at_dot [OF 2] by blast
  have "u = a" "s = b"
    using assms a b Extract_ok [of a b r2] by auto
  then show "no_dot u" and "no_dot s" and "\<exists>r. rid = u @ ''.'' @ s @ ''.'' @ r"
    using a b by auto
qed

lemma Extract_panics_iff:
  "(\<exists>p. ExtractServiceInfoFromRequestID rid = Inl p) \<longleftrightarrow> count_list rid (CHR ''.'') < 2"
proof (cases "ExtractServiceInfoFromRequestID rid")
  case (Inr us)
  obtain u s where "us = (u, s)" by fastforce
  then have "\<exists>r. rid = u @ ''.'' @ s @ ''.'' @ r"
    using Extract_InrD [of rid u s] Inr by simp
  then show ?thesis
    using Inr by auto
next
  case (Inl p)
  have "count_list rid (CHR ''.'') < 2"
  proof (rule ccontr)
    assume n: "\<not> count_list rid (CHR ''.'') < 2"
    then have "CHR ''.'' \<in> set rid"
      by (rule contrapos_np) (simp add: count_notin)
    then obtain a r1 where a: "rid = a @ CHR ''.'' # r1" "no_dot a"
      using split_at_dot by blast
    then have "CHR ''.'' \<in> set r1"
      using n by (rule_tac ccontr) (simp add: count_notin no_dot_def)
    then obtain b r2 where "r1 = b @ CHR ''.'' # r2" "no_dot b"
      using split_at_dot by blast
    then show False
      using Inl a Extract_ok [of a b r2] by simp
  qed
  then show ?thesis using Inl by auto
qed

lemma record_key_inj:
  assumes "no_dot s" "no_dot s'" "GenerateUsageRecordKey s u = GenerateUsageRecordKey s' u'"
  shows "s = s'" "u = u'"
proof -
  have eq: "s @ CHR ''.'' # u = s' @ CHR ''.'' # u'"
    using assms(3) by (simp add: GenerateUsageRecordKey_def)
  show "s = s'"
    using arg_cong [OF eq, of "takeWhile (\<lambda>c. c \<noteq> CHR ''.'')"] assms(1,2) by simp
  then show "u = u'"
    using eq by simp
qed

text \<open>Ids made by that helper are safe: they survive the round trip through a request id.\<close>

lemma hostname_id_roundtrip:
  assumes "no_dot userKey"
  shows "ExtractServiceInfoFromRequestID (make_request_id userKey (ServiceHostnameToIdByte host) uuid) =
    Inr (userKey, ServiceHostnameToIdByte host)"
proof -
  have "no_dot (ServiceHostnameToIdByte host)"
    by (auto simp: no_dot_def ServiceHostnameToIdByte_def)
  then show ?thesis
    using Extract_ok [OF assms] by (simp add: make_request_id_def)
qed

section \<open>Properties\<close>

text \<open>
  C35. Round trip of request ids: the user key and the service id put into a request id by the
  client side gateway are the ones the accounting extracts from it, provided neither contains a
  dot; the random part plays no role.
\<close>

theorem request_id_roundtrip:
  assumes "no_dot userKey" and "no_dot serviceId"
  shows "ExtractServiceInfoFromRequestID (make_request_id userKey serviceId uuid) =
           Inr (userKey, serviceId)"
  using Extract_ok [OF assms] by (simp add: make_request_id_def)

theorem request_id_roundtrip_witness:
  "ExtractServiceInfoFromRequestID (make_request_id ''bob'' ''httpbin_01'' ''6f.e1'') =
     Inr (''bob'', ''httpbin_01'')"
  by (rule request_id_roundtrip) (simp_all add: no_dot_def)

text \<open>
  A service id with a dot in it (as the addresses used as ids in \<open>docs/user_story.md\<close>) is cut
  at the dot: the accounting attributes the request to the part before it.
\<close>

theorem dotted_service_id_truncated:
  assumes "no_dot userKey" and "no_dot host"
  shows "ExtractServiceInfoFromRequestID (make_request_id userKey (host @ ''.'' @ rest) uuid) =
           Inr (userKey, host)"
  using Extract_ok [OF assms, of "rest @ ''.'' @ uuid"] by (simp add: make_request_id_def)

theorem dotted_service_id_truncated_witness:
  "ExtractServiceInfoFromRequestID (make_request_id ''bob'' ''127.0.0.1:8080'' ''6fe1'') =
     Inr (''bob'', ''127'')"
  using dotted_service_id_truncated [of "''bob''" "''127''" "''0.0.1:8080''" "''6fe1''"]
  by (simp add: no_dot_def)

text \<open>
  Usage records of different users or services never share a key: the keys generated from two
  request ids are equal only if both ids name the same user and the same service.
\<close>

theorem usage_key_injective:
  assumes "ExtractServiceInfoFromRequestID rid = Inr (u, s)"
    and "ExtractServiceInfoFromRequestID rid' = Inr (u', s')"
    and "GenerateUsageRecordKey s u = GenerateUsageRecordKey s' u'"
  shows "u = u' \<and> s = s'"
  using record_key_inj [OF _ _ assms(3)] Extract_InrD(2) [OF assms(1)] Extract_InrD(2) [OF assms(2)]
  by simp

theorem usage_key_injective_witness:
  "(''u'' :: string) = ''u'' \<and> (''s'' :: string) = ''s'' \<and>
   ExtractServiceInfoFromRequestID ''u.s.1'' = Inr (''u'', ''s'') \<and>
   ExtractServiceInfoFromRequestID ''u.s.2'' = Inr (''u'', ''s'')"
proof -
  have e: "ExtractServiceInfoFromRequestID ''u.s.1'' = Inr (''u'', ''s'')"
    "ExtractServiceInfoFromRequestID ''u.s.2'' = Inr (''u'', ''s'')"
    by code_simp+
  show ?thesis
    using usage_key_injective [OF e] e by simp
qed

end
