(* ===== verification/Request_Detail.thy ===== *)
theory Request_Detail
  imports Go_Base
begin

text \<open>
  Parsing a client request, \<open>internal/models/request_detail.go\<close>.

  The two regular expressions are data: a list of items, each a character class with a repetition
  range and the capture group it belongs to. \<open>match_items\<close> is the leftmost-first (greedy, with
  backtracking) matcher of Go's \<open>regexp\<close> package on such patterns, and \<open>FindAllSubmatch\<close> scans for
  all successive matches. \<open>find_ids_runs\<close> relates the second pattern to a reference definition: the
  maximal runs of word characters.

  A \<open>fasthttp.Request\<close> appears as the values its accessors return (\<open>http_request\<close>), header and
  query arguments in the order \<open>VisitAll\<close> visits them.
\<close>

section \<open>Regular expressions\<close>

datatype re_item = Rep (re_group: "nat option") (re_class: "char \<Rightarrow> bool") (re_lo: nat) (re_hi: "nat option")

fun first_some :: "('a \<Rightarrow> 'b option) \<Rightarrow> 'a list \<Rightarrow> 'b option" where
  "first_some f [] = None"
| "first_some f (x # xs) = (case f x of None \<Rightarrow> first_some f xs | Some y \<Rightarrow> Some y)"

text \<open>How many characters of the class are available, up to the upper bound.\<close>

definition avail :: "re_item \<Rightarrow> string \<Rightarrow> nat" where
  "avail it s =
     (let n = length (takeWhile (re_class it) s) in
      case re_hi it of None \<Rightarrow> n | Some hi \<Rightarrow> min hi n)"

text \<open>Longest repetition first; the result is what each item consumed, and the rest.\<close>

primrec match_items :: "re_item list \<Rightarrow> string \<Rightarrow> (string list \<times> string) option" where
  "match_items [] s = Some ([], s)"
| "match_items (it # its) s =
     first_some (\<lambda>k. map_option (\<lambda>(caps, r). (take k s # caps, r)) (match_items its (drop k s)))
       (rev [re_lo it..<Suc (avail it s)])"

definition submatch :: "re_item list \<Rightarrow> string list \<Rightarrow> nat \<Rightarrow> string" where
  "submatch its caps g =
     concat (map snd (filter (\<lambda>(it, c). re_group it = Some g) (zip its caps)))"

text \<open>
  All successive matches, each starting at or after the end of the one before. (A pattern that
  can match the empty string would need Go's extra rule for empty matches; the two patterns here
  cannot.)
\<close>

function FindAllSubmatch :: "re_item list \<Rightarrow> string \<Rightarrow> string list list" where
  "FindAllSubmatch its s =
     (case s of
        [] \<Rightarrow> []
      | c # cs \<Rightarrow>
          (case match_items its s of
             None \<Rightarrow> FindAllSubmatch its cs
           | Some (caps, r) \<Rightarrow>
               if length r < length s then caps # FindAllSubmatch its r else []))"
  by pat_completeness auto
termination
  by (relation "measure (\<lambda>(its, s). length s)") auto

declare FindAllSubmatch.simps [simp del]

section \<open>The two patterns\<close>

definition is_digit :: "char \<Rightarrow> bool" where
  "is_digit c \<longleftrightarrow> (let n = of_char c :: nat in 48 \<le> n \<and> n \<le> 57)"

definition is_word :: "char \<Rightarrow> bool" where
  "is_word c \<longleftrightarrow> (let n = of_char c :: nat in
     48 \<le> n \<and> n \<le> 57 \<or> 65 \<le> n \<and> n \<le> 90 \<or> n = 95 \<or> 97 \<le> n \<and> n \<le> 122)"

definition word_dash :: "char \<Rightarrow> bool" where
  "word_dash c \<longleftrightarrow> is_word c \<or> c = CHR ''-''"

definition lit :: "char \<Rightarrow> re_item" where
  "lit c = Rep None (\<lambda>x. x = c) 1 (Some 1)"

text \<open>\<open>(?m)/v([1-9]\d{0,3})/([\w-]+)/?(.*)\<close>\<close>

definition ProxyRequestPathPattern :: "re_item list" where
  "ProxyRequestPathPattern =
     [lit (CHR ''/''), lit (CHR ''v''),
      Rep (Some 1) (\<lambda>c. is_digit c \<and> c \<noteq> CHR ''0'') 1 (Some 1), Rep (Some 1) is_digit 0 (Some 3),
      lit (CHR ''/''), Rep (Some 2) word_dash 1 None,
      Rep None (\<lambda>c. c = CHR ''/'') 0 (Some 1),
      Rep (Some 3) (\<lambda>c. c \<noteq> CHR 0x0A) 0 None]"

text \<open>\<open>([\w-]{10})([\w-]+)\<close>\<close>

definition ServiceIdUserKeyPattern :: "re_item list" where
  "ServiceIdUserKeyPattern =
     [Rep (Some 1) word_dash 10 (Some 10), Rep (Some 2) word_dash 1 None]"

section \<open>The code\<close>

record RequestDetail =
  det_Host :: string
  det_Path :: string
  det_Method :: string
  det_Headers :: "string \<rightharpoonup> string list"
  det_Cookies :: "string \<rightharpoonup> string list"
  det_QueryParams :: "string \<rightharpoonup> string list"
  det_FormParams :: "string \<rightharpoonup> string list"
  det_RequestBody :: bytes
  det_Version :: uint64
  det_ServiceName :: string
  det_ServiceNameStr :: string
  det_UserKey :: string
  det_ApiKeyStr :: string
  det_ProxyRequestPath :: string

definition zero_detail :: RequestDetail where
  "zero_detail = \<lparr>det_Host = '''', det_Path = '''', det_Method = '''', det_Headers = Map.empty,
     det_Cookies = Map.empty, det_QueryParams = Map.empty, det_FormParams = Map.empty,
     det_RequestBody = [], det_Version = 0, det_ServiceName = '''', det_ServiceNameStr = '''',
     det_UserKey = '''', det_ApiKeyStr = '''', det_ProxyRequestPath = ''''\<rparr>"

record http_request =
  hr_Host :: string
  hr_Path :: string
  hr_Method :: string
  hr_Headers :: "(string \<times> string) list"
  hr_QueryArgs :: "(string \<times> string) list"
  hr_Body :: bytes

text \<open>
  \<open>DumpRequestToBytes\<close> appends the text of a request to a buffer; \<open>write\<close> is \<open>Request.Write\<close>, the error
  and what it had written when it returned. The buffered writer is flushed in either case.
\<close>

definition DumpRequestToBytes ::
  "(http_request \<Rightarrow> go_error option \<times> bytes) \<Rightarrow> http_request \<Rightarrow> bytes \<Rightarrow> go_error option \<times> bytes" where
  "DumpRequestToBytes write req buf = (case write req of (err, d) \<Rightarrow> (err, buf @ d))"

text \<open>\<open>m[k]\<close> of a map with slice values: the nil slice when the key is missing.\<close>

definition get_list :: "('k \<rightharpoonup> 'v list) \<Rightarrow> 'k \<Rightarrow> 'v list" where
  "get_list m k = (case m k of None \<Rightarrow> [] | Some vs \<Rightarrow> vs)"

text \<open>\<open>strconv.ParseUint(s, 10, 32)\<close> on at most four digits, which cannot fail.\<close>

definition ParseUint :: "string \<Rightarrow> uint64" where
  "ParseUint s = foldl (\<lambda>n c. 10 * n + word_of_nat (of_char c - 48)) 0 s"

definition ExtractServiceIdAndUserKey :: "string \<Rightarrow> go_error + (string \<times> string)" where
  "ExtractServiceIdAndUserKey combined =
     (case FindAllSubmatch ServiceIdUserKeyPattern combined of
        [caps] \<Rightarrow> Inr (submatch ServiceIdUserKeyPattern caps 1, submatch ServiceIdUserKeyPattern caps 2)
      | _ \<Rightarrow> Inl (ErrMsg ''invalid path format''))"

definition strip_ws :: "string \<Rightarrow> string" where
  "strip_ws p = (if take 3 p = ''/ws'' then drop 3 p else p)"

definition ExtractRequestDetailFromFasthttpRequest ::
  "http_request \<Rightarrow> RequestDetail \<Rightarrow> go_error option \<times> RequestDetail" where
  "ExtractRequestDetailFromFasthttpRequest req detail =
     (let headers = fold (\<lambda>(k, v) m. m(k \<mapsto> get_list m k @ [v])) (hr_Headers req) Map.empty;
          query = fold (\<lambda>(k, v) m. m(k \<mapsto> get_list headers k @ [v])) (hr_QueryArgs req) Map.empty;
          d1 = detail\<lparr>det_Host := hr_Host req, det_Path := hr_Path req, det_Method := hr_Method req,
                 det_Headers := headers, det_QueryParams := query, det_FormParams := Map.empty,
                 det_RequestBody := hr_Body req\<rparr>;
          pathWithKey = strip_ws (det_Path d1)
      in case FindAllSubmatch ProxyRequestPathPattern pathWithKey of
           [caps] \<Rightarrow>
             (let d2 = d1\<lparr>det_Version := ParseUint (submatch ProxyRequestPathPattern caps 1)\<rparr> in
              case ExtractServiceIdAndUserKey (det_Path d1) of
                Inl err \<Rightarrow> (Some err, d2\<lparr>det_ServiceName := '''', det_UserKey := ''''\<rparr>)
              | Inr (name, key) \<Rightarrow>
                  (None, d2\<lparr>det_ServiceName := name, det_UserKey := key,
                      det_ProxyRequestPath := submatch ProxyRequestPathPattern caps 3\<rparr>))
         | _ \<Rightarrow> (Some (ErrMsg ''invalid path format''), d1))"

section \<open>Matching lemmas\<close>

lemma match_items_greedy:
  assumes "re_lo it \<le> avail it s" and "match_items its (drop (avail it s) s) = Some (caps, r)"
  shows "match_items (it # its) s = Some (take (avail it s) s # caps, r)"
  using assms by simp

lemma match_items_too_few: "avail it s < re_lo it \<Longrightarrow> match_items (it # its) s = None"
  by simp

declare match_items.simps(2) [simp del]

lemma match_items_unbounded:
  assumes "lo \<le> length (takeWhile P s)" and "match_items its (dropWhile P s) = Some (caps, r)"
  shows "match_items (Rep g P lo None # its) s = Some (takeWhile P s # caps, r)"
proof -
  have "take (length (takeWhile P s)) s = takeWhile P s"
      "drop (length (takeWhile P s)) s = dropWhile P s"
    by (rule takeWhile_eq_take [symmetric], rule dropWhile_eq_drop [symmetric])
  moreover have "avail (Rep g P lo None) s = length (takeWhile P s)"
    by (simp add: avail_def)
  ultimately show ?thesis
    using match_items_greedy [of "Rep g P lo None" s its caps r] assms by auto
qed

lemma takeWhile_drop:
  "k \<le> length (takeWhile P s) \<Longrightarrow> takeWhile P (drop k s) = drop k (takeWhile P s)"
proof (induction s arbitrary: k)
  case (Cons c cs)
  then show ?case by (cases k) (auto split: if_splits)
qed simp

lemma take_takeWhile: "k \<le> length (takeWhile P s) \<Longrightarrow> take k s = take k (takeWhile P s)"
  by (metis append_eq_conv_conj takeWhile_eq_take take_all take_append take_take min.absorb1)

lemma dropWhile_drop: "k \<le> length (takeWhile P s) \<Longrightarrow> dropWhile P (drop k s) = dropWhile P s"
proof (induction s arbitrary: k)
  case (Cons c cs)
  then show ?case by (cases k) (auto split: if_splits)
qed simp

lemma FindAllSubmatch_Nil [simp]: "FindAllSubmatch its [] = []"
  by (subst FindAllSubmatch.simps) simp

lemma FindAllSubmatch_step:
  "match_items its (c # cs) = None \<Longrightarrow> FindAllSubmatch its (c # cs) = FindAllSubmatch its cs"
  by (subst FindAllSubmatch.simps) simp

lemma FindAllSubmatch_hit:
  "match_items its s = Some (caps, r) \<Longrightarrow> length r < length s \<Longrightarrow>
    FindAllSubmatch its s = caps # FindAllSubmatch its r"
  by (subst FindAllSubmatch.simps) (auto split: list.splits)

section \<open>Reference: maximal runs of word characters\<close>

function word_runs :: "string \<Rightarrow> string list" where
  "word_runs [] = []"
| "word_runs (c # cs) =
     (if word_dash c then takeWhile word_dash (c # cs) # word_runs (dropWhile word_dash cs)
      else word_runs cs)"
  by pat_completeness auto
termination
  by (relation "measure length") (auto simp: less_Suc_eq_le length_dropWhile_le)

definition long_runs :: "string \<Rightarrow> string list" where
  "long_runs s = filter (\<lambda>w. 11 \<le> length w) (word_runs s)"

lemma match_ids:
  "match_items ServiceIdUserKeyPattern s =
     (let w = takeWhile word_dash s in
      if 11 \<le> length w then Some ([take 10 w, drop 10 w], dropWhile word_dash s) else None)"
proof -
  let ?w = "takeWhile word_dash s"
  let ?i1 = "Rep (Some 1) word_dash 10 (Some 10)" and ?i2 = "Rep (Some 2) word_dash 1 None"
  consider "length ?w < 10" | "length ?w = 10" | "11 \<le> length ?w" by linarith
  then show ?thesis
  proof cases
    case 1
    then have "avail ?i1 s < re_lo ?i1" by (simp add: avail_def)
    then show ?thesis
      using 1 match_items_too_few [of ?i1 s "[?i2]"] by (simp add: ServiceIdUserKeyPattern_def)
  next
    case 2
    then have "takeWhile word_dash (drop 10 s) = []" by (simp add: takeWhile_drop)
    then have "avail ?i2 (drop 10 s) < re_lo ?i2" by (simp add: avail_def)
    then have "match_items [?i2] (drop 10 s) = None" by (rule match_items_too_few)
    moreover have "avail ?i1 s = 10" using 2 by (simp add: avail_def)
    ultimately show ?thesis
      using 2 by (simp add: ServiceIdUserKeyPattern_def match_items.simps(2) [of ?i1]
          del: One_nat_def)
  next
    case 3
    then have r: "takeWhile word_dash (drop 10 s) = drop 10 ?w"
        "dropWhile word_dash (drop 10 s) = dropWhile word_dash s"
      by (simp_all add: takeWhile_drop dropWhile_drop)
    have a1: "avail ?i1 s = 10" using 3 by (simp add: avail_def)
    have "match_items [?i2] (drop 10 s) = Some ([drop 10 ?w], dropWhile word_dash s)"
      using match_items_unbounded [of 1 word_dash "drop 10 s" "[]" "[]" "dropWhile word_dash s" "Some 2"]
        3 r by simp
    then have "match_items [?i1, ?i2] s = Some ([take 10 s, drop 10 ?w], dropWhile word_dash s)"
      using match_items_greedy [of ?i1 s "[?i2]"] a1 by simp
    then show ?thesis
      using 3 take_takeWhile [of 10 word_dash s] by (simp add: ServiceIdUserKeyPattern_def Let_def)
  qed
qed

lemma find_ids_skip:
  "length (takeWhile word_dash s) < 11 \<Longrightarrow>
    FindAllSubmatch ServiceIdUserKeyPattern s =
    FindAllSubmatch ServiceIdUserKeyPattern (dropWhile word_dash s)"
proof (induction s)
  case (Cons c cs)
  show ?case
  proof (cases "word_dash c")
    case True
    have "match_items ServiceIdUserKeyPattern (c # cs) = None"
      using Cons.prems by (simp add: match_ids)
    then show ?thesis
      using Cons True by (simp add: FindAllSubmatch_step)
  qed simp
qed simp

lemma find_ids_runs:
  "FindAllSubmatch ServiceIdUserKeyPattern s = map (\<lambda>w. [take 10 w, drop 10 w]) (long_runs s)"
proof (induction s rule: word_runs.induct)
  case 1
  then show ?case by (simp add: long_runs_def)
next
  case (2 c cs)
  let ?w = "takeWhile word_dash (c # cs)" and ?r = "dropWhile word_dash (c # cs)"
  show ?case
  proof (cases "word_dash c")
    case False
    then have "match_items ServiceIdUserKeyPattern (c # cs) = None"
      by (simp add: match_ids)
    then show ?thesis
      using False 2 by (simp add: FindAllSubmatch_step long_runs_def)
  next
    case True
    then have r: "?r = dropWhile word_dash cs" by simp
    show ?thesis
    proof (cases "11 \<le> length ?w")
      case long: True
      have "length ?r < length (c # cs)"
        using True by (simp add: less_Suc_eq_le length_dropWhile_le)
      moreover have "match_items ServiceIdUserKeyPattern (c # cs) = Some ([take 10 ?w, drop 10 ?w], ?r)"
        using long by (simp add: match_ids Let_def)
      ultimately have "FindAllSubmatch ServiceIdUserKeyPattern (c # cs) =
          [take 10 ?w, drop 10 ?w] # FindAllSubmatch ServiceIdUserKeyPattern ?r"
        by (intro FindAllSubmatch_hit)
      then show ?thesis
        using True long 2(1) r by (simp add: long_runs_def)
    next
      case short: False
      then have "FindAllSubmatch ServiceIdUserKeyPattern (c # cs) =
          FindAllSubmatch ServiceIdUserKeyPattern ?r"
        by (intro find_ids_skip) simp
      then show ?thesis
        using True short 2(1) r by (simp add: long_runs_def)
    qed
  qed
qed

lemma submatch_ids [simp]:
  "submatch ServiceIdUserKeyPattern [a, b] 1 = a" "submatch ServiceIdUserKeyPattern [a, b] 2 = b"
  by (simp_all add: submatch_def ServiceIdUserKeyPattern_def)

lemma ExtractServiceIdAndUserKey_runs:
  "ExtractServiceIdAndUserKey s =
     (case long_runs s of
        [w] \<Rightarrow> Inr (take 10 w, drop 10 w)
      | _ \<Rightarrow> Inl (ErrMsg ''invalid path format''))"
  by (auto simp: ExtractServiceIdAndUserKey_def find_ids_runs simp del: One_nat_def split: list.splits)

section \<open>The path pattern\<close>

lemma match_lit:
  "match_items its s = Some (caps, r) \<Longrightarrow> match_items (lit c # its) (c # s) = Some ([c] # caps, r)"
  by (simp add: lit_def avail_def match_items.simps(2))

lemma match_one:
  "P c \<Longrightarrow> match_items its s = Some (caps, r) \<Longrightarrow>
    match_items (Rep g P 1 (Some 1) # its) (c # s) = Some ([c] # caps, r)"
  by (simp add: avail_def match_items.simps(2))

lemma match_upto:
  assumes "list_all P ds" and "length ds \<le> hi" and "\<not> P c"
    and "match_items its (c # s) = Some (caps, r)"
  shows "match_items (Rep g P 0 (Some hi) # its) (ds @ c # s) = Some (ds # caps, r)"
proof -
  have "takeWhile P (ds @ c # s) = ds"
    using assms(1,3) by (simp add: takeWhile_append2 list_all_iff)
  then have "avail (Rep g P 0 (Some hi)) (ds @ c # s) = length ds"
    using assms(2) by (simp add: avail_def min_absorb2)
  then show ?thesis
    using match_items_greedy [of "Rep g P 0 (Some hi)" "ds @ c # s" its caps r] assms(4) by simp
qed

lemma char_classes [simp]:
  "\<not> is_digit (CHR ''/'')" "\<not> word_dash (CHR ''/'')" "word_dash (CHR ''v'')"
  by (simp_all add: is_digit_def word_dash_def is_word_def)

lemma digit_word: "is_digit c \<Longrightarrow> word_dash c"
  by (auto simp: is_digit_def word_dash_def is_word_def Let_def)

text \<open>The shape of path the gateway serves: \<open>/v<version>/<id and key>/<path of the service>\<close>.\<close>

definition service_path :: "char \<Rightarrow> string \<Rightarrow> string \<Rightarrow> string \<Rightarrow> string" where
  "service_path d ds w rest = CHR ''/'' # CHR ''v'' # d # ds @ CHR ''/'' # w @ CHR ''/'' # rest"

lemma match_service_path:
  assumes d: "is_digit d" "d \<noteq> CHR ''0''" and ds: "list_all is_digit ds" "length ds \<le> 3"
    and w: "list_all word_dash w" "w \<noteq> []" and rest: "CHR 0x0A \<notin> set rest"
  shows "match_items ProxyRequestPathPattern (service_path d ds w rest) =
           Some ([''/'', ''v'', [d], ds, ''/'', w, ''/'', rest], [])"
proof -
  let ?dot = "\<lambda>c. c \<noteq> CHR 0x0A"
  have tw: "takeWhile word_dash (w @ CHR ''/'' # rest) = w"
      "dropWhile word_dash (w @ CHR ''/'' # rest) = CHR ''/'' # rest"
    using w(1) by (simp_all add: takeWhile_append2 dropWhile_append2 list_all_iff)
  have "takeWhile ?dot rest = rest" and "dropWhile ?dot rest = []"
    using rest by (auto simp: takeWhile_eq_all_conv dropWhile_eq_Nil_conv)
  then have "match_items [Rep (Some 3) ?dot 0 None] rest = Some ([rest], [])"
    using match_items_unbounded [of 0 ?dot rest "[]" "[]" "[]" "Some 3"] by simp
  then have "match_items [Rep None (\<lambda>c. c = CHR ''/'') 0 (Some 1), Rep (Some 3) ?dot 0 None]
      (CHR ''/'' # rest) = Some ([''/'', rest], [])"
    using match_items_greedy [of "Rep None (\<lambda>c. c = CHR ''/'') 0 (Some 1)" "CHR ''/'' # rest"]
    by (simp add: avail_def)
  then have "match_items [Rep (Some 2) word_dash 1 None, Rep None (\<lambda>c. c = CHR ''/'') 0 (Some 1),
      Rep (Some 3) ?dot 0 None] (w @ CHR ''/'' # rest) = Some ([w, ''/'', rest], [])"
    using tw w(2) by (intro match_items_unbounded [of 1 word_dash "w @ CHR ''/'' # rest", unfolded tw])
      (simp_all add: Suc_le_eq)
  then have "match_items [lit (CHR ''/''), Rep (Some 2) word_dash 1 None,
      Rep None (\<lambda>c. c = CHR ''/'') 0 (Some 1), Rep (Some 3) ?dot 0 None]
      (CHR ''/'' # w @ CHR ''/'' # rest) = Some ([''/'', w, ''/'', rest], [])"
    by (rule match_lit)
  then have "match_items [Rep (Some 1) is_digit 0 (Some 3), lit (CHR ''/''),
      Rep (Some 2) word_dash 1 None, Rep None (\<lambda>c. c = CHR ''/'') 0 (Some 1),
      Rep (Some 3) ?dot 0 None]
      (ds @ CHR ''/'' # w @ CHR ''/'' # rest) = Some ([ds, ''/'', w, ''/'', rest], [])"
    using ds by (intro match_upto) simp_all
  then show ?thesis
    unfolding ProxyRequestPathPattern_def service_path_def
    by (intro match_lit match_one) (simp_all add: d)
qed

lemma FindAll_service_path:
  assumes "is_digit d" "d \<noteq> CHR ''0''" "list_all is_digit ds" "length ds \<le> 3"
    "list_all word_dash w" "w \<noteq> []" "CHR 0x0A \<notin> set rest"
  shows "FindAllSubmatch ProxyRequestPathPattern (service_path d ds w rest) =
           [[''/'', ''v'', [d], ds, ''/'', w, ''/'', rest]]"
proof -
  have "0 < length (service_path d ds w rest)" by (simp add: service_path_def)
  then show ?thesis
    using FindAllSubmatch_hit [OF match_service_path [OF assms]] by simp
qed

lemma word_runs_block:
  assumes "list_all word_dash w" and "w \<noteq> []" and "\<not> word_dash c"
  shows "word_runs (w @ c # r) = w # word_runs r"
proof -
  obtain x xs where w: "w = x # xs" using assms(2) by (cases w) auto
  have "takeWhile word_dash (w @ c # r) = w" "dropWhile word_dash (w @ c # r) = c # r"
    using assms by (simp_all add: takeWhile_append2 dropWhile_append2 list_all_iff)
  then show ?thesis
    using assms w by simp
qed

lemma long_runs_block:
  "list_all word_dash w \<Longrightarrow> w \<noteq> [] \<Longrightarrow>
    long_runs (CHR ''/'' # w @ CHR ''/'' # r) = (if 11 \<le> length w then [w] else []) @ long_runs r"
  by (simp add: long_runs_def word_runs_block)

lemma long_runs_service_path:
  assumes "is_digit d" "list_all is_digit ds" "length ds \<le> 3" "list_all word_dash w" "w \<noteq> []"
  shows "long_runs (service_path d ds w rest) = (if 11 \<le> length w then [w] else []) @ long_runs rest"
proof -
  let ?v = "CHR ''v'' # d # ds"
  have v: "list_all word_dash ?v"
    using assms(1,2) digit_word by (auto simp: list_all_iff)
  have "long_runs (service_path d ds w rest) = long_runs (CHR ''/'' # w @ CHR ''/'' # rest)"
    using long_runs_block [OF v, of "w @ CHR ''/'' # rest"] assms(3)
    by (simp add: service_path_def long_runs_def)
  then show ?thesis
    using long_runs_block [OF assms(4,5)] by simp
qed

lemma long_runs_ws: "long_runs (''/ws'' @ CHR ''/'' # s) = long_runs (CHR ''/'' # s)"
  using long_runs_block [of "''ws''" s] by (simp add: word_dash_def is_word_def long_runs_def)

lemma submatch_path [simp]:
  "submatch ProxyRequestPathPattern [a, b, c, d, e, f, g, h] 1 = c @ d"
  "submatch ProxyRequestPathPattern [a, b, c, d, e, f, g, h] 3 = h"
  by (simp_all add: submatch_def ProxyRequestPathPattern_def lit_def)

section \<open>Collecting headers and query parameters\<close>

definition values_of :: "'k \<Rightarrow> ('k \<times> 'v) list \<Rightarrow> 'v list" where
  "values_of k kvs = map snd (filter (\<lambda>(k', v). k' = k) kvs)"

lemma collect_values:
  "fold (\<lambda>(k, v) m. m(k \<mapsto> get_list m k @ [v])) kvs m k =
     (if values_of k kvs = [] then m k else Some (get_list m k @ values_of k kvs))"
  by (induction kvs arbitrary: m) (auto simp: values_of_def get_list_def)

lemma overwrite_values:
  "fold (\<lambda>(k, v) m. m(k \<mapsto> h k @ [v])) kvs m k =
     (if values_of k kvs = [] then m k else Some (h k @ [last (values_of k kvs)]))"
  by (induction kvs arbitrary: m) (auto simp: values_of_def)

section \<open>Properties\<close>

text \<open>
  C24. Parsing a service request. For a path \<open>/v<version>/<id><key>/<rest>\<close> (with or without
  the \<open>/ws\<close> prefix of WebSocket requests), with a version of one to four digits that does not start
  with 0, an id of ten word characters or dashes, a non-empty key of such characters, and a rest
  without a newline and without a run of more than ten of them, the request detail gets exactly that
  version, service id, user key and rest, and the request's body. (A longer run in the rest is taken
  for a second id and the request is refused: \<open>long_segment_rejected\<close>.)
\<close>

theorem service_path_parsed:
  assumes "is_digit d" "d \<noteq> CHR ''0''" "list_all is_digit ds" "length ds \<le> 3"
    and "list_all word_dash sid" "length sid = 10" "list_all word_dash key" "key \<noteq> []"
    and "CHR 0x0A \<notin> set rest" "long_runs rest = []"
    and "pre \<in> {'''', ''/ws''}" "hr_Path req = pre @ service_path d ds (sid @ key) rest"
  shows "\<exists>det. ExtractRequestDetailFromFasthttpRequest req detail = (None, det) \<and>
           det_Version det = ParseUint (d # ds) \<and> det_ServiceName det = sid \<and>
           det_UserKey det = key \<and> det_ProxyRequestPath det = rest \<and>
           det_RequestBody det = hr_Body req"
proof -
  have w: "list_all word_dash (sid @ key)" "sid @ key \<noteq> []" "11 \<le> length (sid @ key)"
    using assms(5-8) by (auto simp: Suc_le_eq)
  have run: "long_runs (service_path d ds (sid @ key) rest) = [sid @ key]"
    using long_runs_service_path [OF assms(1,3,4) w(1,2)] w(3) assms(10) by simp
  have "long_runs (hr_Path req) = [sid @ key]"
    using assms(11,12) run long_runs_ws by (auto simp: service_path_def)
  then have ids: "ExtractServiceIdAndUserKey (hr_Path req) = Inr (sid, key)"
    using assms(6) by (simp add: ExtractServiceIdAndUserKey_runs)
  have "strip_ws (hr_Path req) = service_path d ds (sid @ key) rest"
    using assms(11,12) by (auto simp: strip_ws_def service_path_def)
  then show ?thesis
    using ids FindAll_service_path [OF assms(1-4) w(1,2) assms(9)]
    by (simp add: ExtractRequestDetailFromFasthttpRequest_def Let_def del: One_nat_def)
qed

theorem service_path_parsed_witness:
  "\<exists>det. ExtractRequestDetailFromFasthttpRequest
       \<lparr>hr_Host = ''h'', hr_Path = ''/ws/v12/httpbin_01bob/anything/x'', hr_Method = ''GET'',
         hr_Headers = [], hr_QueryArgs = [], hr_Body = [1]\<rparr> zero_detail = (None, det) \<and>
     det_Version det = ParseUint ''12'' \<and> det_ServiceName det = ''httpbin_01'' \<and>
     det_UserKey det = ''bob'' \<and> det_ProxyRequestPath det = ''anything/x'' \<and>
     det_RequestBody det = [1]"
  (is "\<exists>det. ExtractRequestDetailFromFasthttpRequest ?req _ = _ \<and> _")
proof -
  have "long_runs ''anything/x'' = []"
    by code_simp
  then show ?thesis
    using service_path_parsed [of "CHR ''1''" "''2''" "''httpbin_01''" "''bob''" "''anything/x''"
        "''/ws''" ?req zero_detail]
    by (simp add: is_digit_def word_dash_def is_word_def service_path_def)
qed

text \<open>
  C25. The service id and user key are found by scanning the whole string for maximal runs of word
  characters: extraction succeeds exactly when one run is longer than ten characters, and then the
  id is its first ten characters and the key the rest.
\<close>

theorem service_id_from_runs:
  "ExtractServiceIdAndUserKey s = Inr (sid, key) \<longleftrightarrow> long_runs s = [sid @ key] \<and> length sid = 10"
proof
  assume "ExtractServiceIdAndUserKey s = Inr (sid, key)"
  then obtain w where w: "long_runs s = [w]" "sid = take 10 w" "key = drop 10 w"
    by (auto simp: ExtractServiceIdAndUserKey_runs split: list.splits)
  have "w \<in> set (long_runs s)" using w(1) by simp
  then have "11 \<le> length w" by (simp add: long_runs_def)
  then show "long_runs s = [sid @ key] \<and> length sid = 10" using w by simp
next
  assume "long_runs s = [sid @ key] \<and> length sid = 10"
  then show "ExtractServiceIdAndUserKey s = Inr (sid, key)"
    by (simp add: ExtractServiceIdAndUserKey_runs)
qed

text \<open>
  Because the scan covers the whole path and not only its key segment, a well-formed request
  whose service path contains a segment of more than ten word characters is refused: any path with
  no or more than one such run gives the error \<open>invalid path format\<close>.
\<close>

theorem long_segment_rejected:
  assumes "length (long_runs (hr_Path req)) \<noteq> 1"
  shows "fst (ExtractRequestDetailFromFasthttpRequest req detail) =
           Some (ErrMsg ''invalid path format'')"
proof -
  have "ExtractServiceIdAndUserKey (hr_Path req) = Inl (ErrMsg ''invalid path format'')"
    using assms by (auto simp: ExtractServiceIdAndUserKey_runs split: list.splits)
  then show ?thesis
    by (simp add: ExtractRequestDetailFromFasthttpRequest_def Let_def split: list.splits)
qed

theorem long_segment_rejected_witness:
  "fst (ExtractRequestDetailFromFasthttpRequest
     \<lparr>hr_Host = ''h'', hr_Path = ''/v1/httpbin_01bob/user_profiles'', hr_Method = ''GET'',
       hr_Headers = [], hr_QueryArgs = [], hr_Body = []\<rparr> zero_detail) =
     Some (ErrMsg ''invalid path format'')"
proof -
  have "long_runs ''/v1/httpbin_01bob/user_profiles'' = [''httpbin_01bob'', ''user_profiles'']"
    by code_simp
  then show ?thesis
    by (intro long_segment_rejected) simp
qed

text \<open>
  Headers are collected per name, with all values in order. Query parameters are not: the code
  appends to the header values of the same name, so a parameter keeps only its last value, after
  the values of a header that happens to have its name.
\<close>

theorem headers_and_query_collected:
  "det_Headers (snd (ExtractRequestDetailFromFasthttpRequest req detail)) k =
     (if values_of k (hr_Headers req) = [] then None else Some (values_of k (hr_Headers req))) \<and>
   det_QueryParams (snd (ExtractRequestDetailFromFasthttpRequest req detail)) k =
     (if values_of k (hr_QueryArgs req) = [] then None
      else Some (values_of k (hr_Headers req) @ [last (values_of k (hr_QueryArgs req))]))"
proof -
  let ?h = "fold (\<lambda>(k, v) m. m(k \<mapsto> get_list m k @ [v])) (hr_Headers req) Map.empty"
  have h: "get_list ?h k = values_of k (hr_Headers req)"
    using collect_values [of "hr_Headers req" Map.empty k]
    by (simp add: get_list_def [of ?h] get_list_def [of Map.empty])
  have "det_Headers (snd (ExtractRequestDetailFromFasthttpRequest req detail)) = ?h \<and>
      det_QueryParams (snd (ExtractRequestDetailFromFasthttpRequest req detail)) =
        fold (\<lambda>(k, v) m. m(k \<mapsto> get_list ?h k @ [v])) (hr_QueryArgs req) Map.empty"
    by (simp add: ExtractRequestDetailFromFasthttpRequest_def Let_def
        split: list.splits sum.splits prod.splits)
  then show ?thesis
    using h by (simp add: collect_values overwrite_values get_list_def [of Map.empty])
qed

end
