(* ===== verification/Usage.thy ===== *)
theory Usage
  imports Models Request_Id Request_Detail
begin

text \<open>
  Usage accounting: \<open>internal/models/usage_record.go\<close> and \<open>usage_record_manager.go\<close>.

  The manager keeps two maps, from record keys to usage records and to the mutexes that guard
  them. A mutex is a boolean, true while it is write-locked. The operations are the manager's
  methods, with their locking, their creation of missing entries and their panics; the wall clock
  (\<open>time.Now().UnixMilli()\<close>) is an argument.

  \<open>usage_inv\<close> is the manager's invariant. The locale \<open>usage_meter\<close> states what the accounting
  promises (each operation adds exactly its amounts, an export moves all readings into its report)
  and derives the conservation of usage over any run; it is interpreted on the manager.
\<close>

section \<open>The code\<close>

record UsageRecordManager =
  mgr_records :: "string \<rightharpoonup> ApronUsageRecord"
  mgr_locks :: "string \<rightharpoonup> bool"

definition mgr_Init :: UsageRecordManager where
  "mgr_Init = \<lparr>mgr_records = Map.empty, mgr_locks = Map.empty\<rparr>"

definition DoRecord :: "ApronUsageRecord \<Rightarrow> uint64 \<Rightarrow> uint64 \<Rightarrow> uint64 \<Rightarrow> ApronUsageRecord" where
  "DoRecord r cnt upSize dwSize =
     r\<lparr>rec_AccessCount := rec_AccessCount r + cnt,
       rec_UploadTraffic := rec_UploadTraffic r + upSize,
       rec_DownloadTraffic := rec_DownloadTraffic r + dwSize\<rparr>"

text \<open>
  \<open>m.locks[k].Lock()\<close> with its \<open>defer m.locks[k].Unlock()\<close> around a body: a nil mutex panics, a
  locked one blocks.
\<close>

definition with_lock ::
  "string \<Rightarrow> UsageRecordManager \<Rightarrow> (UsageRecordManager \<Rightarrow> UsageRecordManager) \<Rightarrow>
     go_stop + UsageRecordManager" where
  "with_lock k m body =
     (case mgr_locks m k of
        None \<Rightarrow> Inl PanicNil
      | Some True \<Rightarrow> Inl Blocked
      | Some False \<Rightarrow>
          (let m1 = m\<lparr>mgr_locks := (mgr_locks m)(k \<mapsto> True)\<rparr>;
               m2 = body m1
           in Inr (m2\<lparr>mgr_locks := (mgr_locks m2)(k \<mapsto> False)\<rparr>)))"

definition put_record :: "string \<Rightarrow> ApronUsageRecord \<Rightarrow> UsageRecordManager \<Rightarrow> UsageRecordManager" where
  "put_record k r m = m\<lparr>mgr_records := (mgr_records m)(k \<mapsto> r)\<rparr>"

definition new_lock :: "string \<Rightarrow> UsageRecordManager \<Rightarrow> UsageRecordManager" where
  "new_lock k m = m\<lparr>mgr_locks := (mgr_locks m)(k \<mapsto> False)\<rparr>"

definition RecordUsageFromInitHttpProxyRequest ::
  "int64 \<Rightarrow> ApronServiceRequest \<Rightarrow> RequestDetail \<Rightarrow> UsageRecordManager \<Rightarrow>
     go_stop + UsageRecordManager" where
  "RecordUsageFromInitHttpProxyRequest now proxyReq reqDetail m =
     bindP (ExtractServiceInfoFromRequestID (req_RequestId proxyReq)) (\<lambda>(userKey, serviceId).
       let recordKey = GenerateUsageRecordKey serviceId userKey;
           size = word_of_nat (length (det_RequestBody reqDetail)) in
       case mgr_records m recordKey of
         Some rcd \<Rightarrow> with_lock recordKey m (put_record recordKey (DoRecord rcd 1 size 0))
       | None \<Rightarrow> with_lock recordKey (new_lock recordKey m)
           (put_record recordKey
              \<lparr>rec_UserKey = userKey, rec_ServiceId = serviceId, rec_StartTs = now, rec_EndTs = 0,
               rec_AccessCount = 1, rec_UploadTraffic = size, rec_DownloadTraffic = 0\<rparr>))"

definition RecordUsageHttpProxyData ::
  "ApronServiceData \<Rightarrow> bool \<Rightarrow> UsageRecordManager \<Rightarrow> go_stop + UsageRecordManager" where
  "RecordUsageHttpProxyData proxyData isClientToService m =
     bindP (ExtractServiceInfoFromRequestID (dat_RequestId proxyData)) (\<lambda>(userKey, serviceId).
       let recordKey = GenerateUsageRecordKey serviceId userKey;
           size = word_of_nat (length (dat_RawData proxyData)) in
       case mgr_records m recordKey of
         None \<Rightarrow> bindP (with_lock recordKey m id) (\<lambda>_. Inl PanicNil)
       | Some rcd \<Rightarrow> with_lock recordKey m (put_record recordKey
           (if isClientToService then DoRecord rcd 0 size 0 else DoRecord rcd 0 0 size)))"

definition RecordUsageFromSocket ::
  "int64 \<Rightarrow> ApronSocketInitRequest \<Rightarrow> UsageRecordManager \<Rightarrow> go_stop + UsageRecordManager" where
  "RecordUsageFromSocket now socketInitReq m =
     bindP (ExtractServiceInfoFromRequestID (init_RequestId socketInitReq)) (\<lambda>(userKey, serviceId).
       let recordKey = GenerateUsageRecordKey serviceId userKey in
       case mgr_records m recordKey of
         Some rcd \<Rightarrow> with_lock recordKey m (put_record recordKey (DoRecord rcd 1 0 0))
       | None \<Rightarrow> with_lock recordKey (new_lock recordKey m)
           (put_record recordKey
              \<lparr>rec_UserKey = userKey, rec_ServiceId = serviceId, rec_StartTs = now, rec_EndTs = 0,
               rec_AccessCount = 1, rec_UploadTraffic = 0, rec_DownloadTraffic = 0\<rparr>))"

text \<open>
  The loop of \<open>ExportAllUsage\<close> over the lock map, in the order \<open>ks\<close> the runtime happens to choose;
  \<open>clock k\<close> is the time read when the record of \<open>k\<close> is exported.
\<close>

fun export_loop ::
  "(string \<Rightarrow> int64) \<Rightarrow> string list \<Rightarrow> UsageRecordManager \<Rightarrow>
     go_stop + (ApronUsageRecord list \<times> UsageRecordManager)" where
  "export_loop clock [] m = Inr ([], m)"
| "export_loop clock (k # ks) m =
     (case mgr_locks m k of
        None \<Rightarrow> export_loop clock ks m
      | Some True \<Rightarrow> Inl Blocked
      | Some False \<Rightarrow>
          (case mgr_records m k of
             None \<Rightarrow> Inl PanicNil
           | Some r \<Rightarrow>
               bindP (export_loop clock ks
                 (m\<lparr>mgr_records := (mgr_records m)(k := None), mgr_locks := (mgr_locks m)(k := None)\<rparr>))
                 (\<lambda>(rs, m'). Inr (r\<lparr>rec_EndTs := clock k\<rparr> # rs, m'))))"

definition ExportAllUsage ::
  "string \<Rightarrow> (string \<Rightarrow> int64) \<Rightarrow> string list \<Rightarrow> UsageRecordManager \<Rightarrow>
     go_stop + (NodeReport \<times> UsageRecordManager)" where
  "ExportAllUsage nodeId clock ks m =
     bindP (export_loop clock ks m) (\<lambda>(rs, m'). Inr (\<lparr>rep_NodeId = nodeId, rep_Records = rs\<rparr>, m'))"

section \<open>The invariant\<close>

definition usage_inv :: "UsageRecordManager \<Rightarrow> bool" where
  "usage_inv m \<longleftrightarrow>
     dom (mgr_locks m) = dom (mgr_records m) \<and> finite (dom (mgr_records m)) \<and>
     (\<forall>k. mgr_locks m k \<noteq> Some True) \<and>
     (\<forall>k r. mgr_records m k = Some r \<longrightarrow>
        k = GenerateUsageRecordKey (rec_ServiceId r) (rec_UserKey r) \<and>
        no_dot (rec_ServiceId r) \<and> no_dot (rec_UserKey r))"

lemma usage_inv_Init: "usage_inv mgr_Init"
  by (simp add: usage_inv_def mgr_Init_def)

text \<open>Storing a record under its own key keeps the invariant; both ways in which the code does so.\<close>

lemma usage_inv_locks:
  assumes "usage_inv m"
  shows "mgr_locks m k = (if mgr_records m k = None then None else Some False)"
proof -
  have "mgr_locks m k = None \<longleftrightarrow> mgr_records m k = None"
    using assms domIff unfolding usage_inv_def by metis
  moreover have "mgr_locks m k \<noteq> Some True"
    using assms by (simp add: usage_inv_def)
  ultimately show ?thesis
    by (cases "mgr_locks m k") auto
qed

lemma usage_inv_key:
  "usage_inv m \<Longrightarrow> mgr_records m k = Some r \<Longrightarrow>
    k = GenerateUsageRecordKey (rec_ServiceId r) (rec_UserKey r) \<and>
    no_dot (rec_ServiceId r) \<and> no_dot (rec_UserKey r)"
  by (simp add: usage_inv_def)

lemma with_lock_existing:
  assumes "usage_inv m" and "mgr_records m k = Some r0"
  shows "with_lock k m (put_record k r) = Inr (m\<lparr>mgr_records := (mgr_records m)(k \<mapsto> r)\<rparr>)"
  using assms usage_inv_locks [OF assms(1), of k]
  by (simp add: with_lock_def put_record_def Let_def fun_upd_idem)

lemma with_lock_new:
  "with_lock k (new_lock k m) (put_record k r) =
     Inr \<lparr>mgr_records = (mgr_records m)(k \<mapsto> r), mgr_locks = (mgr_locks m)(k \<mapsto> False)\<rparr>"
  by (simp add: with_lock_def new_lock_def put_record_def Let_def)

lemma usage_inv_put:
  assumes "usage_inv m" and "no_dot (rec_ServiceId r)" and "no_dot (rec_UserKey r)"
    and "k = GenerateUsageRecordKey (rec_ServiceId r) (rec_UserKey r)"
  shows "usage_inv \<lparr>mgr_records = (mgr_records m)(k \<mapsto> r), mgr_locks = (mgr_locks m)(k \<mapsto> False)\<rparr>"
    and "mgr_records m k = Some r0 \<Longrightarrow> usage_inv (m\<lparr>mgr_records := (mgr_records m)(k \<mapsto> r)\<rparr>)"
  using assms by (auto simp: usage_inv_def)

lemma DoRecord_key [simp]:
  "rec_ServiceId (DoRecord r c u d) = rec_ServiceId r" "rec_UserKey (DoRecord r c u d) = rec_UserKey r"
  "rec_StartTs (DoRecord r c u d) = rec_StartTs r" "rec_EndTs (DoRecord r c u d) = rec_EndTs r"
  by (simp_all add: DoRecord_def)

section \<open>Operations and what they charge\<close>

datatype meter = Requests | Uploaded | Downloaded

fun reading :: "meter \<Rightarrow> ApronUsageRecord \<Rightarrow> uint64" where
  "reading Requests r = rec_AccessCount r"
| "reading Uploaded r = rec_UploadTraffic r"
| "reading Downloaded r = rec_DownloadTraffic r"

datatype usage_op =
    HttpInit int64 ApronServiceRequest RequestDetail
  | SocketInit int64 ApronSocketInitRequest
  | HttpData ApronServiceData bool

fun usage_apply :: "usage_op \<Rightarrow> UsageRecordManager \<Rightarrow> go_stop + UsageRecordManager" where
  "usage_apply (HttpInit now q d) m = RecordUsageFromInitHttpProxyRequest now q d m"
| "usage_apply (SocketInit now q) m = RecordUsageFromSocket now q m"
| "usage_apply (HttpData d up) m = RecordUsageHttpProxyData d up m"

fun op_request_id :: "usage_op \<Rightarrow> string" where
  "op_request_id (HttpInit now q d) = req_RequestId q"
| "op_request_id (SocketInit now q) = init_RequestId q"
| "op_request_id (HttpData d up) = dat_RequestId d"

fun op_amount :: "usage_op \<Rightarrow> meter \<Rightarrow> uint64" where
  "op_amount (HttpInit now q d) Requests = 1"
| "op_amount (HttpInit now q d) Uploaded = word_of_nat (length (det_RequestBody d))"
| "op_amount (SocketInit now q) Requests = 1"
| "op_amount (HttpData d True) Uploaded = word_of_nat (length (dat_RawData d))"
| "op_amount (HttpData d False) Downloaded = word_of_nat (length (dat_RawData d))"
| "op_amount _ _ = 0"

definition op_charges :: "usage_op \<Rightarrow> string \<times> string \<Rightarrow> meter \<Rightarrow> uint64" where
  "op_charges e us f =
     (if ExtractServiceInfoFromRequestID (op_request_id e) = Inr us then op_amount e f else 0)"

definition owned_by :: "string \<times> string \<Rightarrow> ApronUsageRecord \<Rightarrow> bool" where
  "owned_by us r \<longleftrightarrow> us = (rec_UserKey r, rec_ServiceId r)"

text \<open>What the manager currently holds, and what a list of reported records shows, for a user and service.\<close>

definition held :: "UsageRecordManager \<Rightarrow> string \<times> string \<Rightarrow> meter \<Rightarrow> uint64" where
  "held m us f =
     (case mgr_records m (GenerateUsageRecordKey (snd us) (fst us)) of
        Some r \<Rightarrow> if owned_by us r then reading f r else 0
      | None \<Rightarrow> 0)"

definition reported :: "ApronUsageRecord list \<Rightarrow> string \<times> string \<Rightarrow> meter \<Rightarrow> uint64" where
  "reported rs us f = sum_list (map (reading f) (filter (owned_by us) rs))"

definition usage_export :: "UsageRecordManager \<Rightarrow> ApronUsageRecord list \<Rightarrow> UsageRecordManager \<Rightarrow> bool" where
  "usage_export m rs m' \<longleftrightarrow>
     (\<exists>nodeId clock ks. range_order (mgr_locks m) ks \<and>
        ExportAllUsage nodeId clock ks m = Inr (\<lparr>rep_NodeId = nodeId, rep_Records = rs\<rparr>, m'))"

lemma DoRecord_readings [simp]:
  "rec_AccessCount (DoRecord r c u d) = rec_AccessCount r + c"
  "rec_UploadTraffic (DoRecord r c u d) = rec_UploadTraffic r + u"
  "rec_DownloadTraffic (DoRecord r c u d) = rec_DownloadTraffic r + d"
  by (simp_all add: DoRecord_def)

section \<open>What each operation does\<close>

lemmas usage_op_defs = RecordUsageFromInitHttpProxyRequest_def RecordUsageFromSocket_def
  RecordUsageHttpProxyData_def

lemma usage_apply_existing:
  assumes "usage_inv m" and "ExtractServiceInfoFromRequestID (op_request_id e) = Inr (u, s)"
    and "mgr_records m (GenerateUsageRecordKey s u) = Some r"
  shows "usage_apply e m = Inr (m\<lparr>mgr_records := (mgr_records m)(GenerateUsageRecordKey s u \<mapsto>
           DoRecord r (op_amount e Requests) (op_amount e Uploaded) (op_amount e Downloaded))\<rparr>)"
proof (cases e)
  case (HttpData d up)
  then show ?thesis
    using assms with_lock_existing [OF assms(1,3)] by (cases up) (simp_all add: usage_op_defs)
qed (use assms with_lock_existing [OF assms(1,3)] in \<open>simp_all add: usage_op_defs\<close>)

definition fresh_record :: "string \<Rightarrow> string \<Rightarrow> int64 \<Rightarrow> uint64 \<Rightarrow> ApronUsageRecord" where
  "fresh_record u s now up =
     \<lparr>rec_UserKey = u, rec_ServiceId = s, rec_StartTs = now, rec_EndTs = 0,
      rec_AccessCount = 1, rec_UploadTraffic = up, rec_DownloadTraffic = 0\<rparr>"

lemma usage_apply_new:
  assumes "usage_inv m" and "ExtractServiceInfoFromRequestID (op_request_id e) = Inr (u, s)"
    and "mgr_records m (GenerateUsageRecordKey s u) = None"
  shows "usage_apply e m = (case e of
      HttpData d up \<Rightarrow> Inl PanicNil
    | HttpInit now q d \<Rightarrow> Inr \<lparr>mgr_records = (mgr_records m)(GenerateUsageRecordKey s u \<mapsto>
          fresh_record u s now (op_amount e Uploaded)),
        mgr_locks = (mgr_locks m)(GenerateUsageRecordKey s u \<mapsto> False)\<rparr>
    | SocketInit now q \<Rightarrow> Inr \<lparr>mgr_records = (mgr_records m)(GenerateUsageRecordKey s u \<mapsto>
          fresh_record u s now 0),
        mgr_locks = (mgr_locks m)(GenerateUsageRecordKey s u \<mapsto> False)\<rparr>)"
proof (cases e)
  case (HttpData d up)
  then show ?thesis
    using assms usage_inv_locks [OF assms(1)] by (simp add: usage_op_defs Let_def with_lock_def)
qed (use assms in \<open>simp_all add: usage_op_defs with_lock_new fresh_record_def Let_def\<close>)

lemma usage_apply_Inr_extract:
  assumes "usage_apply e m = Inr m'"
  obtains u s where "ExtractServiceInfoFromRequestID (op_request_id e) = Inr (u, s)"
proof (cases "ExtractServiceInfoFromRequestID (op_request_id e)")
  case (Inl p)
  then have "usage_apply e m = Inl p"
    by (cases e) (simp_all add: usage_op_defs)
  then show thesis using assms by simp
next
  case (Inr us)
  then show thesis using that by (cases us) simp
qed

text \<open>
  An operation that does not stop stores, under the key of its user and service, a record of theirs
  whose readings grew by its amounts.
\<close>

lemma usage_apply_result:
  assumes inv: "usage_inv m" and ap: "usage_apply e m = Inr m'"
    and ex: "ExtractServiceInfoFromRequestID (op_request_id e) = Inr (u, s)"
  shows "\<exists>r. mgr_records m' = (mgr_records m)(GenerateUsageRecordKey s u \<mapsto> r) \<and>
           owned_by (u, s) r \<and> usage_inv m' \<and>
           (\<forall>f. reading f r = held m (u, s) f + op_amount e f)"
proof -
  let ?k = "GenerateUsageRecordKey s u"
  note nd = Extract_InrD(1,2) [OF ex]
  show ?thesis
  proof (cases "mgr_records m ?k")
    case (Some r0)
    let ?r = "DoRecord r0 (op_amount e Requests) (op_amount e Uploaded) (op_amount e Downloaded)"
    have own: "owned_by (u, s) r0"
      using usage_inv_key [OF inv Some] nd record_key_inj unfolding owned_by_def by blast
    have m': "m' = m\<lparr>mgr_records := (mgr_records m)(?k \<mapsto> ?r)\<rparr>"
      using usage_apply_existing [OF inv ex Some] ap by simp
    have "reading f ?r = held m (u, s) f + op_amount e f" for f
      using own Some by (cases f) (simp_all add: held_def)
    moreover have "usage_inv m'"
      using usage_inv_put(2) [OF inv, of ?r ?k r0] own nd Some m' by (simp add: owned_by_def)
    ultimately show ?thesis
      using own m' by (intro exI [of _ ?r]) (simp add: owned_by_def)
  next
    case None
    then obtain now where
        m': "m' = \<lparr>mgr_records = (mgr_records m)(?k \<mapsto> fresh_record u s now (op_amount e Uploaded)),
               mgr_locks = (mgr_locks m)(?k \<mapsto> False)\<rparr>"
        and am: "op_amount e Requests = 1" "op_amount e Downloaded = 0"
      using usage_apply_new [OF inv ex None] ap by (cases e) auto
    let ?r = "fresh_record u s now (op_amount e Uploaded)"
    have "reading f ?r = held m (u, s) f + op_amount e f" for f
      using None am by (cases f) (simp_all add: held_def fresh_record_def)
    moreover have "usage_inv m'"
      using usage_inv_put(1) [OF inv, of ?r ?k] nd m' by (simp add: fresh_record_def)
    ultimately show ?thesis
      using m' by (intro exI [of _ ?r]) (simp add: owned_by_def fresh_record_def)
  qed
qed

lemma usage_apply_inv: "usage_inv m \<Longrightarrow> usage_apply e m = Inr m' \<Longrightarrow> usage_inv m'"
  using usage_apply_Inr_extract usage_apply_result by metis

lemma usage_apply_held:
  assumes inv: "usage_inv m" and ap: "usage_apply e m = Inr m'"
  shows "held m' us f = held m us f + op_charges e us f"
proof -
  obtain u s where ex: "ExtractServiceInfoFromRequestID (op_request_id e) = Inr (u, s)"
    using ap by (rule usage_apply_Inr_extract)
  obtain r where r: "mgr_records m' = (mgr_records m)(GenerateUsageRecordKey s u \<mapsto> r)"
      "owned_by (u, s) r" "\<forall>f. reading f r = held m (u, s) f + op_amount e f"
    using usage_apply_result [OF inv ap ex] by blast
  obtain u' s' where us: "us = (u', s')" by fastforce
  show ?thesis
  proof (cases "us = (u, s)")
    case True
    then show ?thesis using r ex by (simp add: held_def op_charges_def)
  next
    case False
    then have no: "\<not> owned_by us r" and zero: "op_charges e us f = 0"
      using r(2) ex by (auto simp: owned_by_def op_charges_def)
    show ?thesis
    proof (cases "GenerateUsageRecordKey s' u' = GenerateUsageRecordKey s u")
      case same: True
      have "held m us f = 0"
      proof (cases "mgr_records m (GenerateUsageRecordKey s u)")
        case (Some r0)
        then have "owned_by (u, s) r0"
          using usage_inv_key [OF inv Some] Extract_InrD(2) [OF ex] record_key_inj
          unfolding owned_by_def by blast
        then show ?thesis using Some same False us by (auto simp: held_def owned_by_def)
      qed (simp add: held_def us same)
      then show ?thesis using r(1) no zero same us by (simp add: held_def)
    qed (use r(1) us zero in \<open>simp add: held_def\<close>)
  qed
qed

section \<open>Exporting\<close>

lemma export_loop_ok:
  assumes "usage_inv m" and "distinct ks" and "set ks \<subseteq> dom (mgr_records m)"
  shows "export_loop clock ks m =
           Inr (map (\<lambda>k. (the (mgr_records m k))\<lparr>rec_EndTs := clock k\<rparr>) ks,
             \<lparr>mgr_records = mgr_records m |` (- set ks), mgr_locks = mgr_locks m |` (- set ks)\<rparr>)"
  using assms
proof (induction ks arbitrary: m)
  case Nil
  then show ?case by (cases m) (simp add: restrict_map_def)
next
  case (Cons k ks)
  let ?m = "m\<lparr>mgr_records := (mgr_records m)(k := None), mgr_locks := (mgr_locks m)(k := None)\<rparr>"
  obtain r where r: "mgr_records m k = Some r" "mgr_locks m k = Some False"
    using Cons.prems usage_inv_locks [OF Cons.prems(1), of k] by auto
  have "usage_inv ?m" "distinct ks" "set ks \<subseteq> dom (mgr_records ?m)"
    using Cons.prems by (auto simp: usage_inv_def)
  note IH = Cons.IH [OF this]
  have recs: "map (\<lambda>x. (the (mgr_records ?m x))\<lparr>rec_EndTs := clock x\<rparr>) ks =
      map (\<lambda>x. (the (mgr_records m x))\<lparr>rec_EndTs := clock x\<rparr>) ks"
    using Cons.prems(2) by auto
  have rest: "mgr_records ?m |` (- set ks) = mgr_records m |` (- set (k # ks))"
    "mgr_locks ?m |` (- set ks) = mgr_locks m |` (- set (k # ks))"
    by (auto simp: restrict_map_def fun_eq_iff)
  show ?case
    using r IH [unfolded recs rest] by simp
qed

lemma restrict_compl_dom [simp]: "m |` (- dom m) = Map.empty"
  by (auto simp: restrict_map_def fun_eq_iff)

lemma ExportAllUsage_ok:
  assumes inv: "usage_inv m" and ks: "range_order (mgr_locks m) ks"
  shows "ExportAllUsage nodeId clock ks m =
           Inr (\<lparr>rep_NodeId = nodeId,
                 rep_Records = map (\<lambda>k. (the (mgr_records m k))\<lparr>rec_EndTs := clock k\<rparr>) ks\<rparr>,
             mgr_Init)"
proof -
  have d: "set ks = dom (mgr_records m)" "set ks = dom (mgr_locks m)" "distinct ks"
    using assms by (auto simp: usage_inv_def range_order_def)
  then have "mgr_records m |` (- set ks) = Map.empty" "mgr_locks m |` (- set ks) = Map.empty"
    using restrict_compl_dom by metis+
  then show ?thesis
    using export_loop_ok [OF inv, of ks clock] d(1,3) by (simp add: ExportAllUsage_def mgr_Init_def)
qed

lemma reading_EndTs [simp]: "reading f (r\<lparr>rec_EndTs := t\<rparr>) = reading f r"
  by (cases f) simp_all

lemma owned_by_EndTs [simp]: "owned_by us (r\<lparr>rec_EndTs := t\<rparr>) = owned_by us r"
  by (simp add: owned_by_def)

lemma filter_unique:
  assumes "distinct xs" and "x \<in> set xs" and "P x" and "\<And>y. y \<in> set xs \<Longrightarrow> P y \<Longrightarrow> y = x"
  shows "filter P xs = [x]"
proof -
  have "filter P xs = filter (\<lambda>y. y = x) xs"
    using assms(3,4) by (intro filter_cong) auto
  also have "\<dots> = [x]"
    using assms(1,2) by (induction xs) (auto simp: filter_empty_conv)
  finally show ?thesis .
qed

text \<open>A report shows each user and service exactly what the manager held for them.\<close>

lemma reported_export:
  assumes inv: "usage_inv m" and ks: "distinct ks" "set ks = dom (mgr_records m)"
  shows "reported (map (\<lambda>k. (the (mgr_records m k))\<lparr>rec_EndTs := clock k\<rparr>) ks) us f = held m us f"
proof -
  let ?K = "GenerateUsageRecordKey (snd us) (fst us)"
  let ?own = "\<lambda>k. owned_by us (the (mgr_records m k))"
  have own: "k = ?K" if "k \<in> set ks" "?own k" for k
    using that ks usage_inv_key [OF inv, of k] by (auto simp: owned_by_def)
  have rep: "reported (map (\<lambda>k. (the (mgr_records m k))\<lparr>rec_EndTs := clock k\<rparr>) ks) us f =
      sum_list (map (\<lambda>k. reading f (the (mgr_records m k))) (filter ?own ks))"
    by (simp add: reported_def filter_map comp_def)
  show ?thesis
  proof (cases "?K \<in> set ks \<and> ?own ?K")
    case True
    then have "filter ?own ks = [?K]"
      using filter_unique [OF ks(1), of ?K ?own] own by blast
    then show ?thesis
      using rep True ks(2) by (auto simp: held_def)
  next
    case False
    then have "filter ?own ks = []"
      using own by (auto simp: filter_empty_conv)
    moreover have "held m us f = 0"
      using False ks(2) by (auto simp: held_def split: option.splits)
    ultimately show ?thesis
      using rep by simp
  qed
qed

section \<open>Runs of the manager\<close>

text \<open>
  The interface the node relies on, and the conservation law that follows from it: what has been
  reported plus what is still held is what was held at first plus what the operations charged.
  Counters are 64-bit words, so the equation is modulo \<open>2 ^ 64\<close>, as in the code.
\<close>

inductive metered_run ::
  "('o \<Rightarrow> 's \<Rightarrow> 'e + 's) \<Rightarrow> ('s \<Rightarrow> 'r list \<Rightarrow> 's \<Rightarrow> bool) \<Rightarrow> 's \<Rightarrow> 'o list \<Rightarrow> 'r list \<Rightarrow> 's \<Rightarrow> bool"
  for app and ex where
  start: "metered_run app ex s [] [] s"
| recorded: "metered_run app ex s ops rs s' \<Longrightarrow> app e s' = Inr s'' \<Longrightarrow>
    metered_run app ex s (ops @ [e]) rs s''"
| exported: "metered_run app ex s ops rs s' \<Longrightarrow> ex s' rs' s'' \<Longrightarrow>
    metered_run app ex s ops (rs @ rs') s''"

locale usage_meter =
  fixes apply_op :: "'o \<Rightarrow> 's \<Rightarrow> 'e + 's"
    and export_op :: "'s \<Rightarrow> 'r list \<Rightarrow> 's \<Rightarrow> bool"
    and charges :: "'o \<Rightarrow> 'k \<Rightarrow> 'f \<Rightarrow> uint64"
    and holds :: "'s \<Rightarrow> 'k \<Rightarrow> 'f \<Rightarrow> uint64"
    and shown :: "'r list \<Rightarrow> 'k \<Rightarrow> 'f \<Rightarrow> uint64"
    and invar :: "'s \<Rightarrow> bool"
  assumes apply_invar: "invar s \<Longrightarrow> apply_op e s = Inr s' \<Longrightarrow> invar s'"
    and apply_charges: "invar s \<Longrightarrow> apply_op e s = Inr s' \<Longrightarrow> holds s' k f = holds s k f + charges e k f"
    and export_invar: "invar s \<Longrightarrow> export_op s rs s' \<Longrightarrow> invar s'"
    and export_shows: "invar s \<Longrightarrow> export_op s rs s' \<Longrightarrow> shown rs k f = holds s k f"
    and export_clears: "invar s \<Longrightarrow> export_op s rs s' \<Longrightarrow> holds s' k f = 0"
    and shown_Nil: "shown [] k f = 0"
    and shown_append: "shown (rs @ rs') k f = shown rs k f + shown rs' k f"
begin

lemma run_invar:
  "metered_run apply_op export_op s ops rs s' \<Longrightarrow> invar s \<Longrightarrow> invar s'"
  by (induction rule: metered_run.induct) (auto intro: apply_invar export_invar)

lemma run_conserves:
  assumes "metered_run apply_op export_op s ops rs s'" and "invar s"
  shows "shown rs k f + holds s' k f = holds s k f + sum_list (map (\<lambda>e. charges e k f) ops)"
  using assms
proof (induction rule: metered_run.induct)
  case (start s)
  then show ?case by (simp add: shown_Nil)
next
  case (recorded s ops rs s' e s'')
  then show ?case
    using apply_charges [of s' e s''] run_invar by (simp add: algebra_simps)
next
  case (exported s ops rs s' rs' s'')
  then have "invar s'"
    using run_invar by blast
  then show ?case
    using exported export_shows export_clears by (simp add: shown_append)
qed

end

lemma usage_exportE:
  assumes "usage_export m rs m'" and "usage_inv m"
  obtains clock ks where "range_order (mgr_locks m) ks" "m' = mgr_Init"
    "rs = map (\<lambda>k. (the (mgr_records m k))\<lparr>rec_EndTs := clock k\<rparr>) ks"
    "distinct ks" "set ks = dom (mgr_records m)"
  using assms ExportAllUsage_ok [OF assms(2)]
  by (auto simp: usage_export_def range_order_def usage_inv_def)

lemma held_Init [simp]: "held mgr_Init us f = 0"
  by (simp add: held_def mgr_Init_def)

interpretation manager: usage_meter usage_apply usage_export op_charges held reported usage_inv
proof unfold_locales
  fix m m' rs us f
  assume "usage_inv m" and "usage_export m rs m'"
  then show "usage_inv m'" and "reported rs us f = held m us f" and "held m' us f = 0"
    by (auto elim!: usage_exportE simp: usage_inv_Init reported_export)
qed (simp_all add: usage_apply_inv usage_apply_held reported_def)

section \<open>Properties\<close>

text \<open>
  C11. Conservation of usage: in every run of recording operations and exports, in any
  interleaving, from an initialised manager, what the reports show for a user and service plus
  what the manager still holds for them is the sum of what the operations charged to them, for
  the access count, the upload and the download traffic alike (as \<open>uint64\<close>).
\<close>

theorem usage_conserved:
  assumes "metered_run usage_apply usage_export mgr_Init ops rs m"
  shows "reported rs us f + held m us f = sum_list (map (\<lambda>e. op_charges e us f) ops)"
  using manager.run_conserves [OF assms usage_inv_Init] by simp

definition sample_ops :: "usage_op list" where
  "sample_ops =
     [SocketInit 5 \<lparr>init_ServiceId = ''s'', init_RequestId = ''u.s.1'', init_PeerId = '''', init_UserId = ''u''\<rparr>,
      HttpData \<lparr>dat_RequestId = ''u.s.1'', dat_RawData = [1, 2, 3]\<rparr> True,
      SocketInit 9 \<lparr>init_ServiceId = ''s'', init_RequestId = ''u.s.2'', init_PeerId = '''', init_UserId = ''u''\<rparr>]"

definition sample_record :: "uint64 \<Rightarrow> ApronUsageRecord" where
  "sample_record up = \<lparr>rec_UserKey = ''u'', rec_ServiceId = ''s'', rec_StartTs = 5, rec_EndTs = 0,
     rec_AccessCount = 1, rec_UploadTraffic = up, rec_DownloadTraffic = 0\<rparr>"

definition sample_manager :: "ApronUsageRecord \<Rightarrow> UsageRecordManager" where
  "sample_manager r = \<lparr>mgr_records = [''s.u'' \<mapsto> r], mgr_locks = [''s.u'' \<mapsto> False]\<rparr>"

lemma sample_Extract [simp]:
  "ExtractServiceInfoFromRequestID ''u.s.1'' = Inr (''u'', ''s'')"
  "ExtractServiceInfoFromRequestID ''u.s.2'' = Inr (''u'', ''s'')"
  by code_simp+

lemma sample_inv: "usage_inv (sample_manager (sample_record up))"
  by (simp add: usage_inv_def sample_manager_def sample_record_def GenerateUsageRecordKey_def no_dot_def)

lemma sample_export:
  "usage_export (sample_manager (sample_record up)) [(sample_record up)\<lparr>rec_EndTs := 7\<rparr>] mgr_Init"
proof -
  let ?m = "sample_manager (sample_record up)"
  have ks: "range_order (mgr_locks ?m) [''s.u'']"
    by (simp add: range_order_def sample_manager_def)
  show ?thesis
    unfolding usage_export_def using ExportAllUsage_ok [OF sample_inv ks, where clock = "\<lambda>_. 7"] ks
    by (intro exI [of _ "\<lambda>_. 7"] exI conjI) (simp_all add: sample_manager_def)
qed

lemma sample_run:
  "metered_run usage_apply usage_export mgr_Init sample_ops [(sample_record 3)\<lparr>rec_EndTs := 7\<rparr>]
     (sample_manager ((sample_record 0)\<lparr>rec_StartTs := 9\<rparr>))"
proof -
  let ?init = "\<lambda>t q. SocketInit t
     \<lparr>init_ServiceId = ''s'', init_RequestId = q, init_PeerId = '''', init_UserId = ''u''\<rparr>"
  let ?data = "HttpData \<lparr>dat_RequestId = ''u.s.1'', dat_RawData = [1, 2, 3]\<rparr> True"
  let ?e = "(sample_record 3)\<lparr>rec_EndTs := 7\<rparr>"
  have "usage_apply (?init t ''u.s.1'') mgr_Init = Inr (sample_manager ((sample_record 0)\<lparr>rec_StartTs := t\<rparr>))"
    "usage_apply (?init t ''u.s.2'') mgr_Init = Inr (sample_manager ((sample_record 0)\<lparr>rec_StartTs := t\<rparr>))" for t
    by (simp_all add: RecordUsageFromSocket_def with_lock_new mgr_Init_def Let_def
        sample_manager_def sample_record_def GenerateUsageRecordKey_def)
  note init = this
  have i1: "metered_run usage_apply usage_export mgr_Init ([] @ [?init 5 ''u.s.1'']) []
      (sample_manager (sample_record 0))"
    by (rule metered_run.recorded [where app = usage_apply and ex = usage_export, OF metered_run.start]) (use init in \<open>simp add: sample_record_def\<close>)
  have "usage_apply ?data (sample_manager (sample_record 0)) = Inr (sample_manager (sample_record 3))"
    by (simp add: RecordUsageHttpProxyData_def with_lock_def put_record_def Let_def DoRecord_def
        sample_manager_def sample_record_def GenerateUsageRecordKey_def)
  note i2 = metered_run.recorded [where app = usage_apply and ex = usage_export, OF i1 this]
  have "metered_run usage_apply usage_export mgr_Init [?init 5 ''u.s.1'', ?data] ([] @ [?e]) mgr_Init"
    by (rule metered_run.exported [where ex = usage_export, OF _ sample_export]) (use i2 in simp)
  from metered_run.recorded [where app = usage_apply and ex = usage_export, OF this init(2) [of 9]] show ?thesis
    by (simp add: sample_ops_def)
qed

theorem usage_conserved_witness:
  "reported [(sample_record 3)\<lparr>rec_EndTs := 7\<rparr>] (''u'', ''s'') Requests +
     held (sample_manager ((sample_record 0)\<lparr>rec_StartTs := 9\<rparr>)) (''u'', ''s'') Requests = 2 \<and>
   reported [(sample_record 3)\<lparr>rec_EndTs := 7\<rparr>] (''u'', ''s'') Uploaded +
     held (sample_manager ((sample_record 0)\<lparr>rec_StartTs := 9\<rparr>)) (''u'', ''s'') Uploaded = 3"
  using usage_conserved [OF sample_run] by (simp add: sample_ops_def op_charges_def)

text \<open>
  An export takes everything: in a reachable state \<open>ExportAllUsage\<close> neither blocks nor
  panics, for every order in which the runtime ranges over the lock map its report holds each
  record exactly once, unchanged but for the end time, under the node's id, and the manager is as
  freshly initialised.
\<close>

theorem export_takes_all:
  assumes "metered_run usage_apply usage_export mgr_Init ops rs m" and "range_order (mgr_locks m) ks"
  shows "\<exists>report. ExportAllUsage nodeId clock ks m = Inr (report, mgr_Init) \<and>
           rep_NodeId report = nodeId \<and>
           mset (rep_Records report) =
             image_mset (\<lambda>k. (the (mgr_records m k))\<lparr>rec_EndTs := clock k\<rparr>) (mset_set (dom (mgr_records m)))"
proof -
  have inv: "usage_inv m"
    using manager.run_invar [OF assms(1) usage_inv_Init] .
  then have "dom (mgr_records m) = set ks" "distinct ks"
    using assms(2) by (auto simp: usage_inv_def range_order_def)
  then show ?thesis
    using ExportAllUsage_ok [OF inv assms(2), of nodeId clock] by (simp add: mset_set_set)
qed

theorem export_takes_all_witness:
  "\<exists>report. ExportAllUsage ''node'' (\<lambda>_. 20) [''s.u'']
      (sample_manager ((sample_record 0)\<lparr>rec_StartTs := 9\<rparr>)) = Inr (report, mgr_Init) \<and>
     rep_NodeId report = ''node'' \<and>
     mset (rep_Records report) = {#(sample_record 0)\<lparr>rec_StartTs := 9, rec_EndTs := 20\<rparr>#}"
  using export_takes_all [OF sample_run, of "[''s.u'']" "''node''" "\<lambda>_. 20"]
  by (simp add: sample_manager_def range_order_def)

text \<open>
  C37. When recording stops: in a state of the invariant no recording operation ever blocks on a
  mutex; it panics exactly when the request id has fewer than two dots, or when it records data of
  a user and service for which no record exists.
\<close>

theorem recording_stops_iff:
  assumes "usage_inv m"
  shows "usage_apply e m \<noteq> Inl Blocked \<and>
    ((\<exists>p. usage_apply e m = Inl p) \<longleftrightarrow>
       count_list (op_request_id e) (CHR ''.'') < 2 \<or>
       (\<exists>d up u s. e = HttpData d up \<and>
          ExtractServiceInfoFromRequestID (op_request_id e) = Inr (u, s) \<and>
          mgr_records m (GenerateUsageRecordKey s u) = None))"
proof (cases "ExtractServiceInfoFromRequestID (op_request_id e)")
  case (Inl p)
  then have "usage_apply e m = Inl p"
    by (cases e) (simp_all add: usage_op_defs)
  moreover have "p \<noteq> Blocked"
    using Inl by (auto simp: ExtractServiceInfoFromRequestID_def Let_def split: if_splits)
  ultimately show ?thesis
    using Extract_panics_iff [of "op_request_id e"] Inl by auto
next
  case (Inr us)
  then obtain u s where x: "ExtractServiceInfoFromRequestID (op_request_id e) = Inr (u, s)"
    by (cases us) simp
  have c: "\<not> count_list (op_request_id e) (CHR ''.'') < 2"
    using Extract_panics_iff [of "op_request_id e"] x by simp
  show ?thesis
    using usage_apply_new [OF assms x] usage_apply_existing [OF assms x] x c
    by (cases "mgr_records m (GenerateUsageRecordKey s u)"; cases e) auto
qed

theorem recording_stops_iff_witness:
  "\<exists>p. usage_apply (HttpData \<lparr>dat_RequestId = ''u.t'', dat_RawData = [1]\<rparr> True)
     (sample_manager (sample_record 0)) = Inl p"
  using recording_stops_iff [OF sample_inv [of 0],
      of "HttpData \<lparr>dat_RequestId = ''u.t'', dat_RawData = [1]\<rparr> True"]
  by simp

text \<open>
  An export ends the accounting of requests that are still open: the next data recorded for
  any of them, in either direction, panics, because its record and its mutex are gone.
\<close>

theorem data_after_export_panics:
  assumes "usage_inv m" and "usage_export m rs m'"
    and "ExtractServiceInfoFromRequestID (dat_RequestId d) = Inr us"
  shows "RecordUsageHttpProxyData d up m' = Inl PanicNil"
proof -
  obtain u s where "us = (u, s)" by fastforce
  moreover have "m' = mgr_Init"
    using assms(1,2) by (auto elim: usage_exportE)
  ultimately show ?thesis
    using usage_apply_new [OF usage_inv_Init, of "HttpData d up" u s] assms(3)
    by (simp add: mgr_Init_def)
qed

theorem data_after_export_panics_witness:
  "RecordUsageHttpProxyData \<lparr>dat_RequestId = ''u.s.1'', dat_RawData = [4]\<rparr> False mgr_Init = Inl PanicNil"
  using data_after_export_panics [OF sample_inv sample_export, of "\<lparr>dat_RequestId = ''u.s.1'', dat_RawData = [4]\<rparr>"]
  by simp

end
