(* ===== verification/Go_IO.thy ===== *)
theory Go_IO
  imports Go_Base
begin

text \<open>
  The part of Go's \<open>io\<close>, \<open>bufio\<close> and \<open>net\<close> packages that the gateway reads and writes through.

  \<^item> \<open>net_in\<close> is the receiving side of a connection or libp2p stream: the chunks its successive
    \<open>Read\<close> calls can deliver, and the error returned once they are used up. The chunking stands
    for how the network happened to split and merge what the peer wrote, so every theorem over an
    arbitrary \<open>net_in\<close> holds for every segmentation.
  \<^item> \<open>bufio\<close> is a \<open>bufio.Reader\<close> with the default buffer of 4096 bytes: \<open>Read\<close> does at most one
    read of the underlying stream, of a whole buffer when the caller asks for less than one.
  \<^item> \<open>ReadFull\<close> is \<open>io.ReadFull\<close> (and \<open>io.ReadAtLeast\<close> with the minimum equal to the length).
    Its loop has the requested length as fuel; \<open>read_loop_ok\<close> and \<open>read_loop_short\<close> show
    that this is always enough, because each successful \<open>Read\<close> returns at least one byte.
  \<^item> \<open>net_out\<close> is the sending side: the successive \<open>Write\<close> calls that succeeded and the results
    the coming ones will have.

  The locale \<open>progressing_reader\<close> is what \<open>io.Reader\<close> promises while there is data, and
  \<open>go_reader\<close> adds what it promises at the end of the stream. Both are interpreted for the raw
  stream (\<open>raw\<close>) and for the buffered reader (\<open>buffered\<close>).
\<close>

section \<open>Streams\<close>

record net_in =
  chunks :: "bytes list"
  fin :: go_error

fun next_chunk :: "bytes list \<Rightarrow> nat \<Rightarrow> (bytes \<times> bytes list) option" where
  "next_chunk [] n = None"
| "next_chunk ([] # cs) n = next_chunk cs n"
| "next_chunk ((b # bs) # cs) n =
     Some (take n (b # bs), if length (b # bs) \<le> n then cs else drop n (b # bs) # cs)"

definition conn_read :: "net_in \<Rightarrow> nat \<Rightarrow> bytes \<times> go_error option \<times> net_in" where
  "conn_read c n =
     (if n = 0 then ([], None, c)
      else case next_chunk (chunks c) n of
        None \<Rightarrow> ([], Some (fin c), c\<lparr>chunks := []\<rparr>)
      | Some (d, cs) \<Rightarrow> (d, None, c\<lparr>chunks := cs\<rparr>))"

definition conn_pending :: "net_in \<Rightarrow> bytes" where
  "conn_pending c = concat (chunks c)"

section \<open>bufio.Reader\<close>

record bufio =
  bbuf :: bytes
  berr :: "go_error option"
  under :: net_in

definition defaultBufSize :: nat where
  "defaultBufSize = 4096"

definition NewReader :: "net_in \<Rightarrow> bufio" where
  "NewReader c = \<lparr>bbuf = [], berr = None, under = c\<rparr>"

definition bufio_read :: "bufio \<Rightarrow> nat \<Rightarrow> bytes \<times> go_error option \<times> bufio" where
  "bufio_read b n =
     (if n = 0 then
        (if bbuf b \<noteq> [] then ([], None, b) else ([], berr b, b\<lparr>berr := None\<rparr>))
      else if bbuf b \<noteq> [] then (take n (bbuf b), None, b\<lparr>bbuf := drop n (bbuf b)\<rparr>)
      else case berr b of
        Some e \<Rightarrow> ([], Some e, b\<lparr>berr := None\<rparr>)
      | None \<Rightarrow>
          (if defaultBufSize \<le> n then
             (case conn_read (under b) n of (d, e, u) \<Rightarrow> (d, e, b\<lparr>under := u\<rparr>))
           else
             (case conn_read (under b) defaultBufSize of (d, e, u) \<Rightarrow>
                if d = [] then ([], e, b\<lparr>under := u\<rparr>)
                else (take n d, None, b\<lparr>bbuf := drop n d, berr := e, under := u\<rparr>))))"

definition ReadByte :: "bufio \<Rightarrow> (go_error + byte) \<times> bufio" where
  "ReadByte b =
     (case bbuf b of
        x # xs \<Rightarrow> (Inr x, b\<lparr>bbuf := xs\<rparr>)
      | [] \<Rightarrow>
          (case berr b of
             Some e \<Rightarrow> (Inl e, b\<lparr>berr := None\<rparr>)
           | None \<Rightarrow>
               (case conn_read (under b) defaultBufSize of (d, e, u) \<Rightarrow>
                  (case d of
                     x # xs \<Rightarrow> (Inr x, b\<lparr>bbuf := xs, berr := e, under := u\<rparr>)
                   | [] \<Rightarrow> (case e of
                        Some err \<Rightarrow> (Inl err, b\<lparr>under := u\<rparr>)
                      | None \<Rightarrow> (Inl (ErrMsg ''multiple Read calls return no data or error''),
                                 b\<lparr>under := u\<rparr>))))))"

definition bufio_pending :: "bufio \<Rightarrow> bytes" where
  "bufio_pending b = bbuf b @ conn_pending (under b)"

definition bufio_ok :: "bufio \<Rightarrow> bool" where
  "bufio_ok b \<longleftrightarrow> berr b = None"

section \<open>io.ReadFull\<close>

fun read_loop ::
  "nat \<Rightarrow> ('s \<Rightarrow> nat \<Rightarrow> bytes \<times> go_error option \<times> 's) \<Rightarrow> nat \<Rightarrow> bytes \<Rightarrow> 's \<Rightarrow>
     bytes \<times> go_error option \<times> 's" where
  "read_loop 0 rd n acc s = (acc, None, s)"
| "read_loop (Suc fuel) rd n acc s =
     (if n = 0 then (acc, None, s)
      else case rd s n of (d, e, s') \<Rightarrow>
        (case e of
           None \<Rightarrow> read_loop fuel rd (n - length d) (acc @ d) s'
         | Some err \<Rightarrow> (acc @ d, Some err, s')))"

definition ReadFull ::
  "('s \<Rightarrow> nat \<Rightarrow> bytes \<times> go_error option \<times> 's) \<Rightarrow> nat \<Rightarrow> 's \<Rightarrow> (go_error + bytes) \<times> 's" where
  "ReadFull rd n s =
     (case read_loop n rd n [] s of (d, e, s') \<Rightarrow>
        if n \<le> length d then (Inr d, s')
        else (case e of
            Some EOF \<Rightarrow> (Inl (if d = [] then EOF else ErrUnexpectedEOF), s')
          | Some err \<Rightarrow> (Inl err, s')
          | None \<Rightarrow> (Inl (ErrMsg ''no progress''), s')))"

lemma read_loop_0 [simp]: "read_loop fuel rd 0 acc s = (acc, None, s)"
  by (cases fuel) simp_all

lemma ReadFull_0 [simp]: "ReadFull rd 0 s = (Inr [], s)"
  by (simp add: ReadFull_def)

text \<open>A single \<open>Read\<close> that returns all it was asked for.\<close>

lemma ReadFull_one_read:
  "rd s n = (d, None, s') \<Longrightarrow> length d = n \<Longrightarrow> 0 < n \<Longrightarrow> ReadFull rd n s = (Inr d, s')"
  by (cases n) (simp_all add: ReadFull_def)

text \<open>The error a short \<open>ReadFull\<close> returns.\<close>

definition short_error :: "bytes \<Rightarrow> go_error \<Rightarrow> go_error" where
  "short_error got e = (if e = EOF \<and> got \<noteq> [] then ErrUnexpectedEOF else e)"

section \<open>The io.Reader contract\<close>

locale progressing_reader =
  fixes rd :: "'s \<Rightarrow> nat \<Rightarrow> bytes \<times> go_error option \<times> 's"
    and pending :: "'s \<Rightarrow> bytes"
    and final :: "'s \<Rightarrow> go_error"
    and invar :: "'s \<Rightarrow> bool"
  assumes read_some:
      "invar s \<Longrightarrow> 0 < n \<Longrightarrow> pending s \<noteq> [] \<Longrightarrow>
        \<exists>d s'. rd s n = (d, None, s') \<and> d \<noteq> [] \<and> length d \<le> n \<and>
          pending s = d @ pending s' \<and> final s' = final s \<and> invar s'"
begin

lemma read_loop_ok:
  "invar s \<Longrightarrow> n \<le> fuel \<Longrightarrow> n \<le> length (pending s) \<Longrightarrow>
    \<exists>s'. read_loop fuel rd n acc s = (acc @ take n (pending s), None, s') \<and>
      pending s' = drop n (pending s) \<and> final s' = final s \<and> invar s'"
proof (induction fuel arbitrary: n acc s)
  case 0
  then show ?case by simp
next
  case (Suc fuel)
  show ?case
  proof (cases "n = 0")
    case True
    with Suc.prems show ?thesis by simp
  next
    case False
    with Suc.prems have "pending s \<noteq> []" by auto
    with False Suc.prems obtain d s1 where
        r: "rd s n = (d, None, s1)" and d: "d \<noteq> []" "length d \<le> n"
        and p: "pending s = d @ pending s1" and f: "final s1 = final s" and i: "invar s1"
      using read_some [of s n] by auto
    have "n - length d \<le> fuel"
      using d Suc.prems(2) by (cases d) auto
    moreover have "n - length d \<le> length (pending s1)"
      using Suc.prems(3) p by simp
    ultimately obtain s' where
        l: "read_loop fuel rd (n - length d) (acc @ d) s1
              = ((acc @ d) @ take (n - length d) (pending s1), None, s')"
        and e: "pending s' = drop (n - length d) (pending s1)" "final s' = final s1" "invar s'"
      using Suc.IH [OF i, of "n - length d" "acc @ d"] by blast
    have "read_loop (Suc fuel) rd n acc s = (acc @ take n (pending s), None, s')"
      using False r l d by (simp add: p)
    moreover have "pending s' = drop n (pending s)"
      using e(1) d by (simp add: p)
    ultimately show ?thesis
      using e f by auto
  qed
qed

lemma ReadFull_ok:
  assumes "invar s" and "n \<le> length (pending s)"
  shows "\<exists>s'. ReadFull rd n s = (Inr (take n (pending s)), s') \<and>
           pending s' = drop n (pending s) \<and> final s' = final s \<and> invar s'"
proof -
  obtain s' where "read_loop n rd n [] s = (take n (pending s), None, s')"
      "pending s' = drop n (pending s)" "final s' = final s" "invar s'"
    using read_loop_ok [of s n n "[]"] assms by auto
  then show ?thesis
    using assms by (auto simp: ReadFull_def)
qed

end

locale go_reader = progressing_reader +
  assumes read_end:
      "invar s \<Longrightarrow> 0 < n \<Longrightarrow> pending s = [] \<Longrightarrow>
        \<exists>s'. rd s n = ([], Some (final s), s') \<and> pending s' = [] \<and>
          final s' = final s \<and> invar s'"
begin

lemma read_loop_short:
  "invar s \<Longrightarrow> n \<le> fuel \<Longrightarrow> length (pending s) < n \<Longrightarrow>
    \<exists>s'. read_loop fuel rd n acc s = (acc @ pending s, Some (final s), s') \<and>
      pending s' = [] \<and> final s' = final s \<and> invar s'"
proof (induction fuel arbitrary: n acc s)
  case 0
  then show ?case by simp
next
  case (Suc fuel)
  show ?case
  proof (cases "pending s = []")
    case True
    with Suc.prems read_end [of s n] show ?thesis by auto
  next
    case False
    with Suc.prems obtain d s1 where
        r: "rd s n = (d, None, s1)" and d: "d \<noteq> []" "length d \<le> n"
        and p: "pending s = d @ pending s1" and f: "final s1 = final s" and i: "invar s1"
      using read_some [of s n] by auto
    have "n - length d \<le> fuel"
      using d Suc.prems(2) by (cases d) auto
    moreover have "length (pending s1) < n - length d"
      using Suc.prems(3) p by simp
    ultimately obtain s' where
        "read_loop fuel rd (n - length d) (acc @ d) s1
           = ((acc @ d) @ pending s1, Some (final s1), s')"
        "pending s' = []" "final s' = final s1" "invar s'"
      using Suc.IH [OF i, of "n - length d" "acc @ d"] by blast
    with Suc.prems r f show ?thesis
      by (simp add: p)
  qed
qed

lemma ReadFull_short:
  assumes "invar s" and "length (pending s) < n"
  shows "\<exists>s'. ReadFull rd n s = (Inl (short_error (pending s) (final s)), s') \<and>
           pending s' = [] \<and> final s' = final s \<and> invar s'"
proof -
  obtain s' where "read_loop n rd n [] s = (pending s, Some (final s), s')"
      "pending s' = []" "final s' = final s" "invar s'"
    using read_loop_short [of s n n "[]"] assms by auto
  then show ?thesis
    using assms by (cases "final s") (auto simp: ReadFull_def short_error_def)
qed

lemma ReadFull_InrD:
  assumes "invar s" and "ReadFull rd n s = (Inr d, s')"
  shows "pending s = d @ pending s'" and "length d = n" and "invar s'" and "final s' = final s"
proof -
  have le: "n \<le> length (pending s)"
  proof (rule ccontr)
    assume "\<not> n \<le> length (pending s)"
    then show False
      using ReadFull_short [OF assms(1), of n] assms(2) by auto
  qed
  show "pending s = d @ pending s'" and "length d = n" and "invar s'" and "final s' = final s"
    using ReadFull_ok [OF assms(1) le] assms(2) le by (auto simp: append_take_drop_id)
qed

lemma ReadFull_InlD:
  assumes "invar s" and "ReadFull rd n s = (Inl e, s')"
  shows "length (pending s) < n" and "e = short_error (pending s) (final s)"
    and "pending s' = []" and "invar s'" and "final s' = final s"
proof -
  have lt: "length (pending s) < n"
  proof (rule ccontr)
    assume "\<not> length (pending s) < n"
    then show False
      using ReadFull_ok [OF assms(1), of n] assms(2) by auto
  qed
  show "length (pending s) < n" and "e = short_error (pending s) (final s)"
    and "pending s' = []" and "invar s'" and "final s' = final s"
    using ReadFull_short [OF assms(1) lt] assms(2) lt by auto
qed

end

section \<open>Raw streams and buffered readers satisfy the contract\<close>

lemma next_chunk_None_iff [simp]: "next_chunk cs n = None \<longleftrightarrow> concat cs = []"
  by (induction cs n rule: next_chunk.induct) auto

lemma next_chunk_SomeD:
  "next_chunk cs n = Some (d, cs') \<Longrightarrow> 0 < n \<Longrightarrow>
    d \<noteq> [] \<and> length d \<le> n \<and> concat cs = d @ concat cs'"
proof (induction cs n rule: next_chunk.induct)
  case (3 b bs cs n)
  then show ?case
    by (cases "length (b # bs) \<le> n") (auto simp flip: append_assoc)
qed auto

lemma conn_read_some:
  assumes "0 < n" and "conn_pending c \<noteq> []"
  shows "\<exists>d c'. conn_read c n = (d, None, c') \<and> d \<noteq> [] \<and> length d \<le> n \<and>
           conn_pending c = d @ conn_pending c' \<and> fin c' = fin c"
proof -
  obtain d cs where nc: "next_chunk (chunks c) n = Some (d, cs)"
    using assms(2) next_chunk_None_iff [of "chunks c" n]
    by (cases "next_chunk (chunks c) n") (auto simp: conn_pending_def)
  show ?thesis
    using next_chunk_SomeD [OF nc assms(1)] nc assms(1)
    by (simp add: conn_read_def conn_pending_def)
qed

lemma conn_read_end:
  "0 < n \<Longrightarrow> conn_pending c = [] \<Longrightarrow> conn_read c n = ([], Some (fin c), c\<lparr>chunks := []\<rparr>)"
  using next_chunk_None_iff [of "chunks c" n]
  by (simp add: conn_read_def conn_pending_def del: next_chunk_None_iff)

interpretation raw: go_reader conn_read conn_pending fin "\<lambda>_. True"
proof unfold_locales
  fix s :: net_in and n :: nat
  assume "0 < n"
  then show "conn_pending s \<noteq> [] \<Longrightarrow>
      \<exists>d s'. conn_read s n = (d, None, s') \<and> d \<noteq> [] \<and> length d \<le> n \<and>
        conn_pending s = d @ conn_pending s' \<and> fin s' = fin s \<and> True"
    and "conn_pending s = [] \<Longrightarrow>
      \<exists>s'. conn_read s n = ([], Some (fin s), s') \<and> conn_pending s' = [] \<and> fin s' = fin s \<and> True"
    using conn_read_some [of n s] by (simp_all add: conn_read_end) (simp_all add: conn_pending_def)
qed

lemma bufio_read_some:
  assumes "bufio_ok b" and "0 < n" and "bufio_pending b \<noteq> []"
  shows "\<exists>d b'. bufio_read b n = (d, None, b') \<and> d \<noteq> [] \<and> length d \<le> n \<and>
           bufio_pending b = d @ bufio_pending b' \<and> fin (under b') = fin (under b) \<and> bufio_ok b'"
proof (cases "bbuf b = []")
  case False
  then show ?thesis
    using assms
    by (auto simp: bufio_read_def bufio_pending_def bufio_ok_def simp flip: append_assoc)
next
  case True
  define m where "m = max n defaultBufSize"
  have "0 < m" and "conn_pending (under b) \<noteq> []"
    using assms True by (auto simp: m_def bufio_pending_def)
  then obtain d u where r: "conn_read (under b) m = (d, None, u)" "d \<noteq> []" "length d \<le> m"
      "conn_pending (under b) = d @ conn_pending u" "fin u = fin (under b)"
    using conn_read_some by blast
  show ?thesis
  proof (cases "defaultBufSize \<le> n")
    case large: True
    then have "m = n" by (simp add: m_def)
    then show ?thesis
      using large True assms r by (simp add: bufio_read_def bufio_ok_def bufio_pending_def)
  next
    case small: False
    then have "m = defaultBufSize" by (simp add: m_def)
    then show ?thesis
      using small True assms r
      by (auto simp: bufio_read_def bufio_ok_def bufio_pending_def simp flip: append_assoc)
  qed
qed

lemma bufio_read_end:
  assumes "bufio_ok b" and "0 < n" and "bufio_pending b = []"
  shows "\<exists>b'. bufio_read b n = ([], Some (fin (under b)), b') \<and> bufio_pending b' = [] \<and>
           fin (under b') = fin (under b) \<and> bufio_ok b'"
proof -
  have e: "bbuf b = []" "conn_pending (under b) = []"
    using assms(3) by (auto simp: bufio_pending_def)
  have "0 < defaultBufSize" by (simp add: defaultBufSize_def)
  then show ?thesis
    using assms e conn_read_end [of n "under b"] conn_read_end [of defaultBufSize "under b"]
    by (auto simp: bufio_read_def bufio_ok_def bufio_pending_def conn_pending_def)
qed

interpretation buffered: go_reader bufio_read bufio_pending "\<lambda>b. fin (under b)" bufio_ok
  by unfold_locales (simp_all add: bufio_read_some bufio_read_end)

lemma NewReader_simps [simp]:
  "bufio_pending (NewReader c) = conn_pending c" "bufio_ok (NewReader c)"
  "under (NewReader c) = c" "bbuf (NewReader c) = []"
  by (simp_all add: NewReader_def bufio_pending_def bufio_ok_def)

lemma ReadByte_ok:
  assumes "bufio_ok b" and "bufio_pending b = x # xs"
  shows "\<exists>b'. ReadByte b = (Inr x, b') \<and> bufio_pending b' = xs \<and>
           fin (under b') = fin (under b) \<and> bufio_ok b'"
proof (cases "bbuf b")
  case (Cons y ys)
  then show ?thesis
    using assms by (auto simp: ReadByte_def bufio_pending_def bufio_ok_def)
next
  case Nil
  then have "conn_pending (under b) \<noteq> []"
    using assms(2) by (auto simp: bufio_pending_def)
  moreover have "0 < defaultBufSize" by (simp add: defaultBufSize_def)
  ultimately obtain d u where "conn_read (under b) defaultBufSize = (d, None, u)" "d \<noteq> []"
      "conn_pending (under b) = d @ conn_pending u" "fin u = fin (under b)"
    using conn_read_some by blast
  then show ?thesis
    using assms Nil by (cases d) (auto simp: ReadByte_def bufio_pending_def bufio_ok_def)
qed

lemma ReadByte_end:
  assumes "bufio_ok b" and "bufio_pending b = []"
  shows "\<exists>b'. ReadByte b = (Inl (fin (under b)), b') \<and> bufio_pending b' = [] \<and>
           fin (under b') = fin (under b) \<and> bufio_ok b'"
proof -
  have e: "bbuf b = []" "conn_pending (under b) = []"
    using assms(2) by (auto simp: bufio_pending_def)
  have "0 < defaultBufSize" by (simp add: defaultBufSize_def)
  then show ?thesis
    using assms e conn_read_end [of defaultBufSize "under b"]
    by (auto simp: ReadByte_def bufio_pending_def bufio_ok_def conn_pending_def)
qed

lemma ReadFull_from_buffer:
  "n \<le> length (bbuf b) \<Longrightarrow>
    ReadFull bufio_read n b = (Inr (take n (bbuf b)), b\<lparr>bbuf := drop n (bbuf b)\<rparr>)"
  by (cases "n = 0") (auto intro!: ReadFull_one_read simp: bufio_read_def)

section \<open>Reading no further than a group of chunks\<close>

text \<open>
  A buffered reader never starts a new chunk while the current ones still hold data it can
  return. Seen from a position in the chunk list, the reader therefore satisfies the progress
  contract for the bytes before that position alone: \<open>front_pending ds\<close> is what is ahead of the
  chunks \<open>ds\<close>. (The end-of-stream law does not hold for this view: after these bytes the reader
  goes on into \<open>ds\<close>.)
\<close>

definition front_pending :: "bytes list \<Rightarrow> bufio \<Rightarrow> bytes" where
  "front_pending ds b =
     bbuf b @ concat (take (length (chunks (under b)) - length ds) (chunks (under b)))"

definition front_ok :: "bytes list \<Rightarrow> bufio \<Rightarrow> bool" where
  "front_ok ds b \<longleftrightarrow> berr b = None \<and> (\<exists>cs. chunks (under b) = cs @ ds \<and> [] \<notin> set cs)"

lemma front_okE:
  assumes "front_ok ds b"
  obtains cs where "berr b = None" "chunks (under b) = cs @ ds" "[] \<notin> set cs"
    "front_pending ds b = bbuf b @ concat cs"
  using assms by (auto simp: front_ok_def front_pending_def)

lemma conn_read_first:
  assumes "chunks u = c # cs" and "c \<noteq> []" and "0 < n"
  shows "conn_read u n = (take n c, None,
           u\<lparr>chunks := (if length c \<le> n then cs else drop n c # cs)\<rparr>)"
  using assms by (cases c) (auto simp: conn_read_def)

lemma front_read_some:
  assumes ok: "front_ok ds b" and n: "0 < n" and ne: "front_pending ds b \<noteq> []"
  shows "\<exists>d b'. bufio_read b n = (d, None, b') \<and> d \<noteq> [] \<and> length d \<le> n \<and>
           front_pending ds b = d @ front_pending ds b' \<and> fin (under b') = fin (under b) \<and>
           front_ok ds b'"
proof -
  obtain cs where cs: "berr b = None" "chunks (under b) = cs @ ds" "[] \<notin> set cs"
      "front_pending ds b = bbuf b @ concat cs"
    using ok by (rule front_okE)
  show ?thesis
  proof (cases "bbuf b = []")
    case False
    then show ?thesis
      using cs n by (auto simp: bufio_read_def front_pending_def front_ok_def simp flip: append_assoc)
  next
    case True
    then obtain c cs' where c: "cs = c # cs'" "c \<noteq> []"
      using cs ne by (cases cs) auto
    define m where "m = (if defaultBufSize \<le> n then n else defaultBufSize)"
    have "0 < m" using n by (simp add: m_def defaultBufSize_def)
    then have r: "conn_read (under b) m = (take m c, None,
        (under b)\<lparr>chunks := (if length c \<le> m then cs' @ ds else drop m c # cs' @ ds)\<rparr>)"
      using conn_read_first [of "under b" c "cs' @ ds" m] cs c by simp
    have take_ne: "take m c \<noteq> []"
      using c \<open>0 < m\<close> by simp
    show ?thesis
    proof (cases "length c \<le> m")
      case short: True
      show ?thesis
        using r take_ne True cs c n short
        by (cases "defaultBufSize \<le> n")
          (auto simp: bufio_read_def m_def front_pending_def front_ok_def simp flip: append_assoc)
    next
      case long: False
      have nn: "drop m c \<noteq> []" "[] \<notin> set (drop m c # cs')"
        using long cs c by auto
      have td: "(take n c @ drop n (take m c)) @ drop m c = c" if "n \<le> m"
        using that append_take_drop_id [of n "take m c"] by (simp add: min_absorb1)
      show ?thesis
        using r take_ne True cs c n long nn td
        by (cases "defaultBufSize \<le> n")
          (auto simp: bufio_read_def m_def front_pending_def front_ok_def
             intro!: exI [of _ "drop m c # cs'"] simp flip: append_assoc)
    qed
  qed
qed

interpretation front: progressing_reader bufio_read "front_pending ds" "\<lambda>b. fin (under b)" "front_ok ds"
  for ds
  by unfold_locales (rule front_read_some)

lemma front_NewReader:
  assumes "chunks c = cs @ ds" and "[] \<notin> set cs"
  shows "front_ok ds (NewReader c)" and "front_pending ds (NewReader c) = concat cs"
  using assms by (auto simp: front_ok_def front_pending_def NewReader_def)

lemma front_done:
  assumes "front_ok ds b" and "front_pending ds b = []"
  shows "chunks (under b) = ds" and "bbuf b = []"
proof -
  obtain cs where "chunks (under b) = cs @ ds" "[] \<notin> set cs" "bbuf b @ concat cs = []"
    using assms by (auto elim!: front_okE)
  moreover from this have "cs = []" by (cases cs) auto
  ultimately show "chunks (under b) = ds" and "bbuf b = []" by auto
qed

section \<open>The sending side\<close>

record net_out =
  sent :: "bytes list"
  werrs :: "go_error option list"

definition conn_write :: "net_out \<Rightarrow> bytes \<Rightarrow> go_error option \<times> net_out" where
  "conn_write w d =
     (case werrs w of
        [] \<Rightarrow> (None, w\<lparr>sent := sent w @ [d]\<rparr>)
      | None # es \<Rightarrow> (None, w\<lparr>sent := sent w @ [d], werrs := es\<rparr>)
      | Some e # es \<Rightarrow> (Some e, w\<lparr>werrs := es\<rparr>))"

text \<open>Everything the peer will receive, in order.\<close>

definition out_bytes :: "net_out \<Rightarrow> bytes" where
  "out_bytes w = concat (sent w)"

lemma conn_write_ok [simp]:
  "werrs w = [] \<Longrightarrow> conn_write w d = (None, w\<lparr>sent := sent w @ [d]\<rparr>)"
  by (simp add: conn_write_def)

section \<open>A reader handed to a function\<close>

text \<open>
  An \<open>io.Reader\<close> argument is a raw stream or an existing \<open>bufio.Reader\<close>. \<open>bufio.NewReader\<close>
  returns an existing buffered reader as it is and puts a new, empty buffer before a raw stream.
  When such a function returns, a buffer it created itself is garbage: what it had read ahead
  from the raw stream is gone with it.
\<close>

datatype reader = Conn net_in | Buffered bufio

fun bufio_of :: "reader \<Rightarrow> bufio" where
  "bufio_of (Conn c) = NewReader c"
| "bufio_of (Buffered b) = b"

fun hand_back :: "reader \<Rightarrow> bufio \<Rightarrow> reader" where
  "hand_back (Conn c) b = Conn (under b)"
| "hand_back (Buffered _) b = Buffered b"

end
