(* ===== verification/Go_Net.thy ===== *)
theory Go_Net
  imports Go_IO
begin

text \<open>
  More of Go's library: printing of numbers and of IP addresses (\<open>net.IP.String\<close>), and the
  sequencing of reads that return an error and leave a reader behind.
\<close>

section \<open>Printing numbers and addresses\<close>

text \<open>Digits of a number in a base (\<open>%d\<close> and \<open>%x\<close> of non-negative integers).\<close>

definition digit_char :: "nat \<Rightarrow> char" where
  "digit_char d = ''0123456789abcdef'' ! d"

fun to_base :: "nat \<Rightarrow> nat \<Rightarrow> string" where
  "to_base b n =
     (if b < 2 \<or> n < b then [digit_char n] else to_base b (n div b) @ [digit_char (n mod b)])"

declare to_base.simps [simp del]

lemma length_to_base: "2 \<le> b \<Longrightarrow> n < b ^ k \<Longrightarrow> 0 < k \<Longrightarrow> length (to_base b n) \<le> k"
proof (induction b n arbitrary: k rule: to_base.induct)
  case (1 b n)
  show ?case
  proof (cases "n < b")
    case True
    then show ?thesis using 1 by (simp add: to_base.simps)
  next
    case False
    then obtain j where j: "k = Suc j" "0 < j"
      using 1(3,4) by (cases k; cases "k - 1") auto
    have "n div b < b ^ j"
      using 1(3) j by (simp add: less_mult_imp_div_less mult.commute)
    then have "length (to_base b (n div b)) \<le> j"
      using 1(1) [of j] 1(2) False j by simp
    then show ?thesis
      using False 1(2) j by (simp add: to_base.simps [of b n])
  qed
qed

text \<open>
  \<open>net.IP.String\<close>: dotted decimal for 4 bytes and for an IPv4 address mapped into 16 bytes,
  hexadecimal groups otherwise, with the first longest run of at least two zero groups shortened
  to a double colon. \<open>find_zeros\<close> is the library's search for that run, as start and length.
\<close>

fun join :: "string \<Rightarrow> string list \<Rightarrow> string" where
  "join sep [] = []"
| "join sep [s] = s"
| "join sep (s # t # ss) = s @ sep @ join sep (t # ss)"

definition ip4_string :: "bytes \<Rightarrow> string" where
  "ip4_string b = join ''.'' (map (\<lambda>x. to_base 10 (unat x)) b)"

fun ip6_groups :: "bytes \<Rightarrow> uint16 list" where
  "ip6_groups (a # b # bs) = be_get [a, b] # ip6_groups bs"
| "ip6_groups _ = []"

function find_zeros :: "nat \<Rightarrow> uint16 list \<Rightarrow> nat \<times> nat \<Rightarrow> nat \<times> nat" where
  "find_zeros i [] best = best"
| "find_zeros i (g # gs) best =
     (let z = length (takeWhile (\<lambda>x. x = 0) (g # gs)) in
      if snd best < z then find_zeros (i + z + 1) (drop z gs) (i, z)
      else find_zeros (Suc i) gs best)"
  by pat_completeness auto

termination
  by (relation "measure (\<lambda>(i, gs, best). length gs)") auto

definition ip6_string :: "bytes \<Rightarrow> string" where
  "ip6_string b =
     (let gs = ip6_groups b;
          hex = (\<lambda>ys. join '':'' (map (\<lambda>g. to_base 16 (unat g)) ys)) in
      case find_zeros 0 gs (0, 0) of (e0, n) \<Rightarrow>
        if n \<le> 1 then hex gs
        else hex (take e0 gs) @ ''::'' @ hex (drop (e0 + n) gs))"

definition ip_string :: "bytes \<Rightarrow> string" where
  "ip_string b =
     (if length b = 4 then ip4_string b
      else if take 12 b = replicate 10 0 @ [0xFF, 0xFF] then ip4_string (drop 12 b)
      else ip6_string b)"

lemma length_join: "length (join sep ss) \<le> sum_list (map (\<lambda>s. length s + length sep) ss)"
  by (induction sep ss rule: join.induct) auto

lemma length_join_le:
  assumes "\<forall>s \<in> set ss. length s \<le> k"
  shows "length (join sep ss) \<le> length ss * (k + length sep)"
proof -
  have "sum_list (map (\<lambda>s. length s + length sep) ss) \<le> length ss * (k + length sep)"
    using assms by (induction ss) auto
  then show ?thesis using length_join [of sep ss] by linarith
qed

lemma length_ip4_string: "length (ip4_string b) \<le> 4 * length b"
proof -
  have "unat x < 10 ^ 3" for x :: byte
    using unsigned_less [of x, where 'a = nat] by simp
  then have "length (to_base 10 (unat x)) \<le> 3" for x :: byte
    by (intro length_to_base) simp_all
  then show ?thesis
    using length_join_le [of "map (\<lambda>x. to_base 10 (unat x)) b" 3 "''.''"]
    by (simp add: ip4_string_def mult.commute)
qed

lemma length_ip6_groups: "2 * length (ip6_groups b) \<le> length b"
  by (induction b rule: ip6_groups.induct) auto

lemma length_ip6_string: "2 * length (ip6_string b) \<le> 10 * length b + 4"
proof -
  let ?hex = "\<lambda>ys :: uint16 list. join '':'' (map (\<lambda>g. to_base 16 (unat g)) ys)"
  have g: "unat x < 16 ^ 4" for x :: uint16
    using unsigned_less [of x, where 'a = nat] by simp
  have "length (to_base 16 (unat x)) \<le> 4" for x :: uint16
    using length_to_base [of 16 "unat x" 4] g [of x] by simp
  then have hex: "length (?hex ys) \<le> 5 * length ys" for ys
    using length_join_le [of "map (\<lambda>g. to_base 16 (unat g)) ys" 4 "'':''"] by (simp add: mult.commute)
  obtain e0 n where z: "find_zeros 0 (ip6_groups b) (0, 0) = (e0, n)" by fastforce
  have "length (take e0 (ip6_groups b)) + length (drop (e0 + n) (ip6_groups b)) \<le> length (ip6_groups b)"
    by simp
  then have "length (?hex (take e0 (ip6_groups b))) + length (?hex (drop (e0 + n) (ip6_groups b)))
      \<le> 5 * length (ip6_groups b)"
    using hex [of "take e0 (ip6_groups b)"] hex [of "drop (e0 + n) (ip6_groups b)"] by linarith
  then have "length (ip6_string b) \<le> 5 * length (ip6_groups b) + 2"
    using hex [of "ip6_groups b"] z by (auto simp: ip6_string_def Let_def)
  then show ?thesis
    using length_ip6_groups [of b] by linarith
qed

lemma length_ip_string: "length b \<le> 16 \<Longrightarrow> length (ip_string b) \<le> 82"
  using length_ip4_string [of b] length_ip4_string [of "drop 12 b"] length_ip6_string [of b]
  by (auto simp: ip_string_def)

section \<open>Sequences of reads\<close>

definition bindR :: "('e + 'a) \<times> 's \<Rightarrow> ('a \<Rightarrow> 's \<Rightarrow> ('e + 'b) \<times> 's) \<Rightarrow> ('e + 'b) \<times> 's" where
  "bindR m f = (case m of (Inl e, s) \<Rightarrow> (Inl e, s) | (Inr x, s) \<Rightarrow> f x s)"

lemma bindR_simps [simp]: "bindR (Inl e, s) f = (Inl e, s)" "bindR (Inr x, s) f = f x s"
  by (simp_all add: bindR_def)

lemma bindR_InrE:
  assumes "bindR m f = (Inr y, s')"
  obtains x s where "m = (Inr x, s)" "f x s = (Inr y, s')"
  using assms by (auto simp: bindR_def split: prod.splits sum.splits)

lemma bindR_Inr_iff:
  "bindR m f = (Inr y, s') \<longleftrightarrow> (\<exists>x s. m = (Inr x, s) \<and> f x s = (Inr y, s'))"
  by (auto simp: bindR_def split: prod.splits sum.splits)

text \<open>\<open>reader.Read(buf)\<close> followed by a check of the error; the bytes read are at most \<open>n\<close>.\<close>

definition Read :: "nat \<Rightarrow> bufio \<Rightarrow> (go_error + bytes) \<times> bufio" where
  "Read n b =
     (case bufio_read b n of (d, e, b') \<Rightarrow>
        (case e of Some err \<Rightarrow> (Inl err, b') | None \<Rightarrow> (Inr d, b')))"

text \<open>A slice \<open>buf\<close> after a read of \<open>d\<close> into it.\<close>

definition filled :: "bytes \<Rightarrow> bytes \<Rightarrow> bytes" where
  "filled buf d = d @ drop (length d) buf"

lemma Read_buffered:
  "bbuf b \<noteq> [] \<Longrightarrow> 0 < n \<Longrightarrow> Read n b = (Inr (take n (bbuf b)), b\<lparr>bbuf := drop n (bbuf b)\<rparr>)"
  by (simp add: Read_def bufio_read_def)

lemma Read_ok:
  assumes "bufio_ok b" and "0 < n" and "bufio_pending b \<noteq> []"
  shows "\<exists>d b'. Read n b = (Inr d, b') \<and> d \<noteq> [] \<and> length d \<le> n \<and>
           bufio_pending b = d @ bufio_pending b' \<and> bufio_ok b' \<and> fin (under b') = fin (under b)"
  using bufio_read_some [OF assms] by (auto simp: Read_def)

lemma Read_InrD:
  assumes "bufio_ok b" and "0 < n" and "Read n b = (Inr d, b')"
  shows "d \<noteq> []" and "length d \<le> n" and "bufio_pending b = d @ bufio_pending b'" and "bufio_ok b'"
proof -
  have "bufio_pending b \<noteq> []"
    using bufio_read_end [OF assms(1,2)] assms(3) by (auto simp: Read_def)
  then show "d \<noteq> []" and "length d \<le> n" and "bufio_pending b = d @ bufio_pending b'" and "bufio_ok b'"
    using Read_ok [OF assms(1,2)] assms(3) by auto
qed

text \<open>A large read of an empty buffer goes to the stream directly and buffers nothing.\<close>

lemma Read_direct:
  assumes "4096 \<le> n"
  shows "Read n (NewReader c) =
    (case conn_read c n of (d, e, c') \<Rightarrow>
       ((case e of Some err \<Rightarrow> Inl err | None \<Rightarrow> Inr d), NewReader c'))"
  using assms
  by (auto simp: Read_def bufio_read_def NewReader_def defaultBufSize_def split: prod.splits option.splits)

lemma Read_piece:
  assumes "chunks c = d # cs" and "d \<noteq> []" and "length d \<le> n" and "4096 \<le> n"
  shows "Read n (NewReader c) = (Inr d, NewReader (c\<lparr>chunks := cs\<rparr>))"
  using assms conn_read_first [of c d cs n] by (simp add: Read_direct)

end
