(* ===== verification/Flags.thy ===== *)
theory Flags
  imports Go_Net
begin

text \<open>
  Go's command line: \<open>flag.FlagSet.Parse\<close> with the policy \<open>ExitOnError\<close>, which is also that of the
  package's own flag set, and \<open>strconv.ParseInt\<close> with base 0, the parser of integer flags. A flag
  set is a map from names to setters of a configuration. None of the programs has a boolean flag.
\<close>

section \<open>strconv.ParseInt\<close>

definition lower :: "char \<Rightarrow> char" where
  "lower c = (if 65 \<le> (of_char c :: nat) \<and> (of_char c :: nat) \<le> 90 then char_of (of_char c + 32 :: nat) else c)"

definition digit_value :: "char \<Rightarrow> nat option" where
  "digit_value c =
     (let n = of_char c :: nat in
      if 48 \<le> n \<and> n \<le> 57 then Some (n - 48)
      else if 97 \<le> n \<and> n \<le> 122 then Some (n - 97 + 10)
      else if 65 \<le> n \<and> n \<le> 90 then Some (n - 65 + 10)
      else None)"

definition errSyntax :: go_error where "errSyntax = ErrMsg ''parse error''"
definition errRange :: go_error where "errRange = ErrMsg ''value out of range''"

text \<open>The loop over the digits; an underscore is skipped and checked afterwards.\<close>

fun parse_digits :: "int \<Rightarrow> string \<Rightarrow> int \<Rightarrow> go_error + int" where
  "parse_digits base [] n = Inr n"
| "parse_digits base (c # cs) n =
     (if c = CHR ''_'' then parse_digits base cs n
      else case digit_value c of
        None \<Rightarrow> Inl errSyntax
      | Some d \<Rightarrow>
          if base \<le> int d then Inl errSyntax
          else if 2 ^ 64 \<le> n * base + int d then Inl errRange
          else parse_digits base cs (n * base + int d))"

text \<open>Underscores separate digits; one may follow the prefix of the base.\<close>

datatype saw = SawStart | SawDigit | SawUnderscore | SawOther

fun underscores_ok :: "bool \<Rightarrow> saw \<Rightarrow> string \<Rightarrow> bool" where
  "underscores_ok hex sw [] = (sw \<noteq> SawUnderscore)"
| "underscores_ok hex sw (c # cs) =
     (if (case digit_value c of None \<Rightarrow> False | Some d \<Rightarrow> d < (if hex then 16 else 10))
      then underscores_ok hex SawDigit cs
      else if c = CHR ''_'' then sw = SawDigit \<and> underscores_ok hex SawUnderscore cs
      else sw \<noteq> SawUnderscore \<and> underscores_ok hex SawOther cs)"

definition has_prefix :: "string \<Rightarrow> bool" where
  "has_prefix s = (2 \<le> length s \<and> hd s = CHR ''0'' \<and> lower (s ! 1) \<in> {CHR ''b'', CHR ''o'', CHR ''x''})"

definition underscoreOK :: "string \<Rightarrow> bool" where
  "underscoreOK s =
     (if has_prefix s then underscores_ok (lower (s ! 1) = CHR ''x'') SawDigit (drop 2 s)
      else underscores_ok False SawStart s)"

definition ParseUint :: "string \<Rightarrow> go_error + int" where
  "ParseUint s =
     (if s = [] then Inl errSyntax
      else
        let (base, digits) =
          (if hd s \<noteq> CHR ''0'' then (10, s)
           else if 3 \<le> length s \<and> lower (s ! 1) = CHR ''b'' then (2, drop 2 s)
           else if 3 \<le> length s \<and> lower (s ! 1) = CHR ''o'' then (8, drop 2 s)
           else if 3 \<le> length s \<and> lower (s ! 1) = CHR ''x'' then (16, drop 2 s)
           else (8, tl s)) in
        bindP (parse_digits base digits 0) (\<lambda>n.
          if CHR ''_'' \<in> set digits \<and> \<not> underscoreOK s then Inl errSyntax else Inr n))"

definition ParseInt :: "string \<Rightarrow> go_error + int" where
  "ParseInt s =
     (if s = [] then Inl errSyntax
      else
        let neg = (hd s = CHR ''-'');
            digits = (if hd s = CHR ''+'' \<or> neg then tl s else s) in
        bindP (ParseUint digits) (\<lambda>un.
          if \<not> neg \<and> 2 ^ 63 \<le> un \<or> neg \<and> 2 ^ 63 < un then Inl errRange
          else Inr (if neg then - un else un)))"

section \<open>flag.FlagSet.Parse\<close>

type_synonym 'c setter = "string \<Rightarrow> 'c \<Rightarrow> go_error + 'c"

datatype flag_error =
    BadFlagSyntax string
  | FlagNotDefined string
  | FlagNeedsArgument string
  | InvalidFlagValue string string go_error
  | ErrHelp

text \<open>
  A flag is an argument of at least two characters that starts with a dash; its name follows one
  or two dashes and may carry a value after an equals sign.
\<close>

definition flag_text :: "string \<Rightarrow> string" where
  "flag_text s = (if s ! 1 = CHR ''-'' then drop 2 s else drop 1 s)"

definition split_flag :: "string \<Rightarrow> string \<times> string option" where
  "split_flag s =
     (let name = flag_text s; flag = takeWhile (\<lambda>x. x \<noteq> CHR ''='') name in
      (flag, if CHR ''='' \<in> set name then Some (drop (Suc (length flag)) name) else None))"

text \<open>
  The flags are taken from the front of the arguments; parsing stops before the first argument
  that is none, or after a double dash. The result is the configuration and the other arguments.
\<close>

function flag_Parse ::
  "(string \<rightharpoonup> 'c setter) \<Rightarrow> string list \<Rightarrow> 'c \<Rightarrow> flag_error + ('c \<times> string list)" where
  "flag_Parse formal [] c = Inr (c, [])"
| "flag_Parse formal (s # args) c =
     (if length s < 2 \<or> hd s \<noteq> CHR ''-'' then Inr (c, s # args)
      else if s = ''--'' then Inr (c, args)
      else if hd (flag_text s) = CHR ''-'' \<or> hd (flag_text s) = CHR ''='' then Inl (BadFlagSyntax s)
      else case split_flag s of (flag, hasValue) \<Rightarrow>
        (case formal flag of
           None \<Rightarrow> Inl (if flag = ''help'' \<or> flag = ''h'' then ErrHelp else FlagNotDefined flag)
         | Some st \<Rightarrow>
             (case (hasValue, args) of
                (Some v, _) \<Rightarrow>
                  (case st v c of
                     Inl err \<Rightarrow> Inl (InvalidFlagValue v flag err)
                   | Inr c' \<Rightarrow> flag_Parse formal args c')
              | (None, []) \<Rightarrow> Inl (FlagNeedsArgument flag)
              | (None, v # rest) \<Rightarrow>
                  (case st v c of
                     Inl err \<Rightarrow> Inl (InvalidFlagValue v flag err)
                   | Inr c' \<Rightarrow> flag_Parse formal rest c'))))"
  by pat_completeness auto

termination
  by (relation "measure (\<lambda>(formal, args, c). length args)") auto

text \<open>How a program ends before it serves: its exit status, or a panic.\<close>

datatype startup_failure = ExitStatus nat | Stopped go_stop

definition stopped :: "go_stop + 'a \<Rightarrow> startup_failure + 'a" where
  "stopped r = (case r of Inl p \<Rightarrow> Inl (Stopped p) | Inr x \<Rightarrow> Inr x)"

lemma stopped_simps [simp]: "stopped (Inl p) = Inl (Stopped p)" "stopped (Inr x) = Inr x"
  by (simp_all add: stopped_def)

definition must_Parse ::
  "(string \<rightharpoonup> 'c setter) \<Rightarrow> string list \<Rightarrow> 'c \<Rightarrow> startup_failure + ('c \<times> string list)" where
  "must_Parse formal args c =
     (case flag_Parse formal args c of
        Inl ErrHelp \<Rightarrow> Inl (ExitStatus 0)
      | Inl _ \<Rightarrow> Inl (ExitStatus 2)
      | Inr r \<Rightarrow> Inr r)"

text \<open>Setters of string and integer flags, from the update of a field.\<close>

definition string_flag :: "((string \<Rightarrow> string) \<Rightarrow> 'c \<Rightarrow> 'c) \<Rightarrow> 'c setter" where
  "string_flag upd v c = Inr (upd (\<lambda>_. v) c)"

definition int_flag :: "((int \<Rightarrow> int) \<Rightarrow> 'c \<Rightarrow> 'c) \<Rightarrow> 'c setter" where
  "int_flag upd v c = bindP (ParseInt v) (\<lambda>i. Inr (upd (\<lambda>_. i) c))"


section \<open>Printed integers are read back\<close>

lemma digit_char_value:
  assumes "d < 16"
  shows "digit_value (digit_char d) = Some d" and "digit_char d \<notin> {CHR ''_'', CHR ''-'', CHR ''+''}"
    and "digit_char d = CHR ''0'' \<longleftrightarrow> d = 0"
proof -
  have "list_all (\<lambda>d. digit_value (digit_char d) = Some d \<and> digit_char d \<notin> {CHR ''_'', CHR ''-'', CHR ''+''} \<and>
      (digit_char d = CHR ''0'' \<longleftrightarrow> d = 0)) [0..<16]"
    by code_simp
  then show "digit_value (digit_char d) = Some d" and "digit_char d \<notin> {CHR ''_'', CHR ''-'', CHR ''+''}"
    and "digit_char d = CHR ''0'' \<longleftrightarrow> d = 0"
    using assms by (auto simp: list_all_iff)
qed

lemma parse_digits_append:
  "parse_digits b (xs @ ys) n = bindP (parse_digits b xs n) (parse_digits b ys)"
  by (induction b xs n rule: parse_digits.induct) (auto split: option.splits)

lemma to_base_not_Nil [simp]: "to_base b n \<noteq> []"
  by (simp add: to_base.simps)

lemma set_to_base: "2 \<le> b \<Longrightarrow> set (to_base b n) \<subseteq> digit_char ` {..<b}"
proof (induction b n rule: to_base.induct)
  case (1 b n)
  then show ?case by (subst to_base.simps) auto
qed

lemma hd_to_base: "2 \<le> b \<Longrightarrow> \<exists>d < b. hd (to_base b n) = digit_char d \<and> (d = 0 \<longrightarrow> n = 0)"
proof (induction b n rule: to_base.induct)
  case (1 b n)
  show ?case
  proof (cases "n < b")
    case True
    then show ?thesis by (auto simp: to_base.simps)
  next
    case False
    then obtain d where "d < b" "hd (to_base b (n div b)) = digit_char d" "d = 0 \<longrightarrow> n div b = 0"
      using 1 by auto
    then show ?thesis
      using False 1(2) by (intro exI [of _ d]) (auto simp: to_base.simps [of b n] div_eq_0_iff)
  qed
qed

lemma parse_to_base:
  "2 \<le> b \<Longrightarrow> b \<le> 16 \<Longrightarrow> n < 2 ^ 64 \<Longrightarrow> parse_digits (int b) (to_base b n) 0 = Inr (int n)"
proof (induction b n rule: to_base.induct)
  case (1 b n)
  have lt: "int n < 2 ^ 64"
    using 1(4) by (metis of_nat_less_iff of_nat_numeral of_nat_power)
  show ?case
  proof (cases "n < b")
    case True
    then show ?thesis
      using lt 1(2,3) digit_char_value [of n] by (simp add: to_base.simps)
  next
    case False
    have "n div b < 2 ^ 64"
      by (rule le_less_trans [OF div_le_dividend 1(4)])
    then have ih: "parse_digits (int b) (to_base b (n div b)) 0 = Inr (int (n div b))"
      using 1(1-3) False by simp
    have v: "int (n div b) * int b + int (n mod b) = int n" and m: "n mod b < b"
      using 1(2) by (simp_all flip: of_nat_mult of_nat_add)
    have "parse_digits (int b) [digit_char (n mod b)] (int (n div b)) = Inr (int n)"
      using digit_char_value [of "n mod b"] m 1(3) v lt by (simp del: of_nat_mod of_nat_div)
    then show ?thesis
      using False 1(2) ih by (simp add: to_base.simps [of b n] parse_digits_append)
  qed
qed

lemma ParseUint_decimal:
  assumes "n < 2 ^ 64"
  shows "ParseUint (to_base 10 n) = Inr (int n)"
proof -
  obtain d where d: "d < 10" "hd (to_base 10 n) = digit_char d" "d = 0 \<longrightarrow> n = 0"
    using hd_to_base [of 10] by auto
  show ?thesis
  proof (cases "n = 0")
    case True
    then show ?thesis by (simp add: to_base.simps ParseUint_def digit_char_value)
  next
    case False
    moreover have "CHR ''_'' \<notin> digit_char ` {..<10}"
      by code_simp
    then have "CHR ''_'' \<notin> set (to_base 10 n)"
      using set_to_base [of 10 n] by auto
    ultimately show ?thesis
      using d digit_char_value(3) [of d] parse_to_base [OF _ _ assms, of 10] by (simp add: ParseUint_def)
  qed
qed

text \<open>The text that \<open>%d\<close> prints.\<close>

definition decimal :: "int \<Rightarrow> string" where
  "decimal i = (if i < 0 then CHR ''-'' # to_base 10 (nat (- i)) else to_base 10 (nat i))"

lemma ParseInt_decimal:
  assumes "- (2 ^ 63) \<le> i" and "i < 2 ^ 63"
  shows "ParseInt (decimal i) = Inr i"
proof -
  have u: "ParseUint (to_base 10 (nat j)) = Inr j" if "0 \<le> j" "j \<le> 2 ^ 63" for j
    using ParseUint_decimal [of "nat j"] that by simp
  obtain d where d: "d < 10" "hd (to_base 10 (nat i)) = digit_char d"
    using hd_to_base [of 10 "nat i"] by auto
  then have "hd (to_base 10 (nat i)) \<noteq> CHR ''-''" "hd (to_base 10 (nat i)) \<noteq> CHR ''+''"
    using digit_char_value(2) [of d] by auto
  then show ?thesis
    using assms u [of i] u [of "- i"] by (simp add: decimal_def ParseInt_def Let_def)
qed


section \<open>What a command line means\<close>

text \<open>
  The abstract reading of a command line: a list of settings, applied from left to right. Each can
  be spelled in four ways.
\<close>

fun apply_settings :: "(string \<rightharpoonup> 'c setter) \<Rightarrow> (string \<times> string) list \<Rightarrow> 'c \<Rightarrow> 'c option" where
  "apply_settings formal [] c = Some c"
| "apply_settings formal ((n, v) # kvs) c =
     (case formal n of
        None \<Rightarrow> None
      | Some st \<Rightarrow> (case st v c of Inl _ \<Rightarrow> None | Inr c' \<Rightarrow> apply_settings formal kvs c'))"

definition flag_name_ok :: "string \<Rightarrow> bool" where
  "flag_name_ok n \<longleftrightarrow> n \<noteq> [] \<and> hd n \<noteq> CHR ''-'' \<and> CHR ''='' \<notin> set n"

definition spelled :: "string \<Rightarrow> string \<Rightarrow> string list set" where
  "spelled n v = {[''-'' @ n, v], [''--'' @ n, v], [''-'' @ n @ ''='' @ v], [''--'' @ n @ ''='' @ v]}"

lemma takeWhile_no_eq:
  "CHR ''='' \<notin> set xs \<Longrightarrow> takeWhile (\<lambda>c. c \<noteq> CHR ''='') xs = xs"
  "CHR ''='' \<notin> set xs \<Longrightarrow> takeWhile (\<lambda>c. c \<noteq> CHR ''='') (xs @ CHR ''='' # v) = xs"
  by (induction xs) auto

lemma flag_text_dash:
  assumes "flag_name_ok n"
  shows "flag_text (CHR ''-'' # n @ r) = n @ r" and "flag_text (CHR ''-'' # CHR ''-'' # n @ r) = n @ r"
    and "hd (n @ r) \<noteq> CHR ''-''" and "hd (n @ r) \<noteq> CHR ''=''"
  using assms by (cases n; auto simp: flag_text_def flag_name_ok_def)+

lemma split_flag_text:
  assumes "flag_name_ok n"
  shows "flag_text s = n \<Longrightarrow> split_flag s = (n, None)"
    and "flag_text s = n @ CHR ''='' # v \<Longrightarrow> split_flag s = (n, Some v)"
  using assms by (simp_all add: split_flag_def flag_name_ok_def takeWhile_no_eq)

lemma flag_Parse_spelled:
  assumes "ws \<in> spelled n v" and "flag_name_ok n" and "formal n = Some st"
  shows "flag_Parse formal (ws @ args) c =
     (case st v c of Inl err \<Rightarrow> Inl (InvalidFlagValue v n err) | Inr c' \<Rightarrow> flag_Parse formal args c')"
proof -
  have "n \<noteq> []"
    using assms(2) by (simp add: flag_name_ok_def)
  then have len: "\<not> length (CHR ''-'' # n @ r) < 2" "CHR ''-'' # n @ r \<noteq> ''--''" for r
    using flag_text_dash(3) [OF assms(2), of r] by (auto simp: neq_Nil_conv)
  note d = flag_text_dash [OF assms(2)] flag_text_dash [OF assms(2), of "[]", simplified]
  note sp = split_flag_text [OF assms(2)]
  consider "ws = [CHR ''-'' # n, v]" | "ws = [CHR ''-'' # CHR ''-'' # n, v]"
    | "ws = [CHR ''-'' # n @ CHR ''='' # v]" | "ws = [CHR ''-'' # CHR ''-'' # n @ CHR ''='' # v]"
    using assms(1) by (auto simp: spelled_def)
  then show ?thesis
  proof cases
    case 1
    then show ?thesis
      using len [of "[]"] d sp(1) [of "CHR ''-'' # n"] assms(3) by (simp cong: sum.case_cong)
  next
    case 2
    then show ?thesis
      using d sp(1) [of "CHR ''-'' # CHR ''-'' # n"] assms(3) \<open>n \<noteq> []\<close> by (simp cong: sum.case_cong)
  next
    case 3
    then show ?thesis
      using len [of "CHR ''='' # v"] d sp(2) [of "CHR ''-'' # n @ CHR ''='' # v"] assms(3) by (simp cong: sum.case_cong)
  next
    case 4
    then show ?thesis
      using d sp(2) [of "CHR ''-'' # CHR ''-'' # n @ CHR ''='' # v"] assms(3) by (simp cong: sum.case_cong)
  qed
qed

lemma flag_Parse_settings:
  assumes "list_all2 (\<lambda>ws (n, v). ws \<in> spelled n v) wss kvs" and "\<forall>n \<in> dom formal. flag_name_ok n"
    and "apply_settings formal kvs c = Some c'"
  shows "flag_Parse formal (concat wss) c = Inr (c', [])"
  using assms(1,3)
proof (induction wss kvs arbitrary: c rule: list_all2_induct)
  case Nil
  then show ?case by simp
next
  case (Cons ws wss kv kvs)
  obtain n v where kv: "kv = (n, v)" by fastforce
  then obtain st c1 where st: "formal n = Some st" "st v c = Inr c1" "apply_settings formal kvs c1 = Some c'"
    using Cons.prems by (auto split: option.splits sum.splits)
  moreover have "flag_name_ok n" "ws \<in> spelled n v"
    using assms(2) st(1) Cons.hyps kv by auto
  ultimately show ?case
    using Cons.IH by (simp add: flag_Parse_spelled)
qed

text \<open>Conversely, whatever is accepted was a command line of settings, and some arguments after them.\<close>

lemma split_flag_spelled:
  assumes "\<not> length s < 2" and "hd s = CHR ''-''" and "split_flag s = (flag, value)"
  shows "case value of Some v \<Rightarrow> [s] \<in> spelled flag v | None \<Rightarrow> (\<forall>v. [s, v] \<in> spelled flag v)"
proof -
  obtain y ys where "s = CHR ''-'' # y # ys"
    using assms(1,2) by (cases s; cases "tl s") auto
  then have s: "s = ''-'' @ flag_text s \<or> s = ''--'' @ flag_text s"
    by (auto simp: flag_text_def)
  show ?thesis
  proof (cases "CHR ''='' \<in> set (flag_text s)")
    case True
    then obtain xs zs where x: "flag_text s = xs @ CHR ''='' # zs" "CHR ''='' \<notin> set xs"
      by (auto dest: split_list_first)
    then have "flag = xs" "value = Some zs"
      using assms(3) by (auto simp: split_flag_def Let_def takeWhile_no_eq)
    then show ?thesis
      using s x(1) by (auto simp: spelled_def)
  next
    case False
    then have "flag = flag_text s" "value = None"
      using assms(3) by (auto simp: split_flag_def Let_def takeWhile_no_eq)
    then show ?thesis
      using s by (auto simp: spelled_def)
  qed
qed

lemma flag_Parse_InrD:
  assumes "flag_Parse formal args c = Inr (c', rest)"
  shows "\<exists>wss kvs. list_all2 (\<lambda>ws (n, v). ws \<in> spelled n v) wss kvs \<and> apply_settings formal kvs c = Some c' \<and>
     (args = concat wss @ rest \<or> args = concat wss @ ''--'' # rest)"
  using assms
proof (induction args arbitrary: c rule: length_induct)
  case (1 args)
  show ?case
  proof (cases "\<exists>s as. args = s # as \<and> 2 \<le> length s \<and> hd s = CHR ''-'' \<and> s \<noteq> ''--''")
    case False
    then show ?thesis
      using "1.prems" by (cases args) (auto intro!: exI [of _ "[]"] split: if_splits)
  next
    case True
    then obtain s as where s: "args = s # as" "2 \<le> length s" "hd s = CHR ''-''" "s \<noteq> ''--''" by blast
    obtain flag hv where sp: "split_flag s = (flag, hv)" by fastforce
    have spell: "case hv of Some v \<Rightarrow> [s] \<in> spelled flag v | None \<Rightarrow> (\<forall>v. [s, v] \<in> spelled flag v)"
      by (rule split_flag_spelled [OF _ s(3) sp]) (use s(2) in simp)
    obtain ws v as' st c1 where w: "args = ws @ as'" "ws \<in> spelled flag v" "formal flag = Some st"
        "st v c = Inr c1" "flag_Parse formal as' c1 = Inr (c', rest)" "length as' < length args"
    proof (cases hv)
      case None
      then show ?thesis
        using "1.prems" s sp spell that [of "[s, hd as]" "tl as" "hd as"]
        by (cases as) (auto split: if_splits option.splits sum.splits)
    next
      case (Some v)
      then show ?thesis
        using "1.prems" s sp spell that [of "[s]" as v] by (auto split: if_splits option.splits sum.splits)
    qed
    obtain wss kvs where "list_all2 (\<lambda>ws (n, v). ws \<in> spelled n v) wss kvs"
        "apply_settings formal kvs c1 = Some c'" "as' = concat wss @ rest \<or> as' = concat wss @ ''--'' # rest"
      using "1.IH" w(5,6) by blast
    then show ?thesis
      using w(1-4) by (intro exI [of _ "ws # wss"] exI [of _ "(flag, v) # kvs"]) auto
  qed
qed


section \<open>The last setting of a flag counts\<close>

fun last_setting :: "string \<Rightarrow> (string \<times> string) list \<Rightarrow> string \<Rightarrow> string" where
  "last_setting n [] d = d"
| "last_setting n ((m, v) # kvs) d = last_setting n kvs (if m = n then v else d)"

text \<open>\<open>R v c\<close> says that the configuration \<open>c\<close> holds the value of the text \<open>v\<close> for the flag \<open>n\<close>.\<close>

lemma apply_settings_last:
  assumes "apply_settings formal kvs c = Some c'" and "R d c"
    and set: "\<And>st v c c'. formal n = Some st \<Longrightarrow> st v c = Inr c' \<Longrightarrow> R v c'"
    and keep: "\<And>m st v w c c'. m \<noteq> n \<Longrightarrow> formal m = Some st \<Longrightarrow> st v c = Inr c' \<Longrightarrow> R w c \<Longrightarrow> R w c'"
  shows "R (last_setting n kvs d) c'"
  using assms(1,2)
proof (induction kvs arbitrary: c d)
  case Nil
  then show ?case by simp
next
  case (Cons kv kvs)
  obtain m v where kv: "kv = (m, v)" by fastforce
  then obtain st c1 where st: "formal m = Some st" "st v c = Inr c1" "apply_settings formal kvs c1 = Some c'"
    using Cons.prems(1) by (auto split: option.splits sum.splits)
  have "R (if m = n then v else d) c1"
    using set keep st(1,2) Cons.prems(2) by auto
  then show ?case
    using Cons.IH [OF st(3)] kv by simp
qed

end
