(* ===== verification/Config.thy ===== *)
theory Config
  imports Flags
begin

text \<open>
  The configuration of a gateway (\<open>config.go\<close>, \<open>addr_list.go\<close>) and what \<open>NewNode\<close> derives from it:
  the listening address of the peer-to-peer host and the source of its private key.
\<close>

section \<open>Lists of addresses (addr_list.go)\<close>

text \<open>A multiaddress is its string form; \<open>newMultiaddr\<close> stands for the library's parser.\<close>

type_synonym multiaddr = string
type_synonym AddrList = "multiaddr list"

definition AddrList_String :: "AddrList \<Rightarrow> string" where
  "AddrList_String al = join '','' al"

definition AddrList_Set :: "(string \<Rightarrow> go_error + multiaddr) \<Rightarrow> string \<Rightarrow> AddrList \<Rightarrow> go_error + AddrList" where
  "AddrList_Set newMultiaddr value al = bindP (newMultiaddr value) (\<lambda>addr. Inr (al @ [addr]))"

section \<open>The configuration (config.go)\<close>

record NodeConfig =
  BootstrapPeers :: AddrList
  InternalPort :: int
  ForwardServiceAddr :: string
  MgmtAddr :: string
  SocketForwardServiceAddr :: string
  Rendezvous :: string
  SecretKey :: int
  PinataAPIKey :: string
  PinataSecretKey :: string
  ReportInterval :: int

definition zero_config :: NodeConfig where
  "zero_config = \<lparr>BootstrapPeers = [], InternalPort = 0, ForwardServiceAddr = '''', MgmtAddr = '''',
     SocketForwardServiceAddr = '''', Rendezvous = '''', SecretKey = 0, PinataAPIKey = '''',
     PinataSecretKey = '''', ReportInterval = 0\<rparr>"

section \<open>The identity of a host\<close>

text \<open>\<open>%032b\<close>: binary digits, filled with zeros after the sign to 32 characters.\<close>

definition format_032b :: "int \<Rightarrow> string" where
  "format_032b i =
     (let digits = to_base 2 (nat \<bar>i\<bar>) in
      if i < 0 then ''-'' @ replicate (31 - length digits) CHR ''0'' @ digits
      else replicate (32 - length digits) CHR ''0'' @ digits)"

text \<open>
  \<open>GenerateEd25519Key\<close> reads its 32 bytes of seed from \<open>rand.Reader\<close>, or from the text of the
  configured key.
\<close>

datatype key_source = RandomSeed | Seed bytes

definition key_source_of :: "int \<Rightarrow> key_source" where
  "key_source_of secretKey =
     (if secretKey = 0 then RandomSeed else Seed (take 32 (bytes_of_string (format_032b secretKey))))"

definition listen_addr :: "int \<Rightarrow> string" where
  "listen_addr port = ''/ip4/0.0.0.0/tcp/'' @ decimal port"

section \<open>Which keys give which identity\<close>

lemma parse_zeros: "parse_digits b (replicate k CHR ''0'' @ s) 0 = (if 0 < b then parse_digits b s 0 else parse_digits b (replicate k CHR ''0'' @ s) 0)"
proof (cases "0 < b")
  case True
  have "digit_value (CHR ''0'') = Some 0"
    by code_simp
  then show ?thesis
    using True by (induction k) simp_all
qed simp

lemma length_to_base_2: "n < 2 ^ k \<Longrightarrow> 0 < k \<Longrightarrow> length (to_base 2 n) \<le> k"
  by (rule length_to_base) simp_all

lemma padded_inject:
  assumes "replicate j CHR ''0'' @ to_base 2 m = replicate k CHR ''0'' @ to_base 2 n" and "m < 2 ^ 64" and "n < 2 ^ 64"
  shows "m = n"
  using arg_cong [OF assms(1), of "\<lambda>s. parse_digits 2 s 0"] parse_to_base [of 2 m] parse_to_base [of 2 n] assms(2,3)
  by (simp add: parse_zeros [of 2 j] parse_zeros [of 2 k])

lemma bytes_of_string_inject [simp]: "bytes_of_string s = bytes_of_string t \<longleftrightarrow> s = t"
  by (metis string_of_bytes_of_string)

lemma length_format_032b:
  assumes "- (2 ^ 31) < i" and "i < 2 ^ 32"
  shows "length (format_032b i) = 32"
proof (cases "i < 0")
  case True
  then have "length (to_base 2 (nat (- i))) \<le> 31"
    using length_to_base_2 [of "nat (- i)" 31] assms(1) by simp
  then show ?thesis
    using True by (simp add: format_032b_def Let_def)
next
  case False
  then have "length (to_base 2 (nat i)) \<le> 32"
    using length_to_base_2 [of "nat i" 32] assms(2) by simp
  then show ?thesis
    using False by (simp add: format_032b_def Let_def)
qed

lemma format_032b_sign: "hd (format_032b i) = CHR ''-'' \<longleftrightarrow> i < 0"
proof -
  have "CHR ''-'' \<notin> insert CHR ''0'' (digit_char ` {..<2})"
    by code_simp
  then have n: "CHR ''-'' \<notin> set (replicate k CHR ''0'' @ to_base 2 n)" for k n
    using set_to_base [of 2 n] by auto
  have "hd (replicate k CHR ''0'' @ to_base 2 n) \<in> set (replicate k CHR ''0'' @ to_base 2 n)" for k n
    by (rule hd_in_set) simp
  then have "hd (replicate k CHR ''0'' @ to_base 2 n) \<noteq> CHR ''-''" for k n
    using n by metis
  then show ?thesis
    by (simp add: format_032b_def Let_def)
qed

text \<open>
  C36. Two gateways have the same identity only if they were given the same secret key, as long as
  the keys fit the 32 characters of the seed: for all non-zero keys above minus two to the 31st and
  below two to the 32nd, equal seeds come from equal keys.
\<close>

theorem secret_key_identifies:
  assumes "a \<noteq> 0" and "- (2 ^ 31) < a" and "a < 2 ^ 32" and "b \<noteq> 0" and "- (2 ^ 31) < b" and "b < 2 ^ 32"
  shows "key_source_of a = key_source_of b \<longleftrightarrow> a = b"
proof
  assume "key_source_of a = key_source_of b"
  then have e: "format_032b a = format_032b b"
    using assms by (simp add: key_source_of_def length_format_032b)
  then have "a < 0 \<longleftrightarrow> b < 0"
    using format_032b_sign by metis
  moreover have "nat \<bar>a\<bar> < 2 ^ 64" "nat \<bar>b\<bar> < 2 ^ 64"
    using assms by auto
  moreover have "\<exists>j k. replicate j CHR ''0'' @ to_base 2 (nat \<bar>a\<bar>) = replicate k CHR ''0'' @ to_base 2 (nat \<bar>b\<bar>)"
    using e \<open>a < 0 \<longleftrightarrow> b < 0\<close> unfolding format_032b_def Let_def by (cases "b < 0") auto
  ultimately have "nat \<bar>a\<bar> = nat \<bar>b\<bar>"
    using padded_inject by blast
  then show "a = b"
    using \<open>a < 0 \<longleftrightarrow> b < 0\<close> by auto
qed simp

theorem secret_key_identifies_witness:
  "key_source_of 1 \<noteq> key_source_of 2"
  using secret_key_identifies [of 1 2] by simp

text \<open>Beyond that range they need not: only the leading 32 characters of the text are the seed.\<close>

lemma length_to_base_2_ge: "2 ^ k \<le> n \<Longrightarrow> k < length (to_base 2 n)"
proof (induction k arbitrary: n)
  case 0
  then show ?case by simp
next
  case (Suc k)
  then have "2 ^ k \<le> n div 2" and "\<not> n < 2"
    using one_le_power [of "2::nat" k] by (simp_all only: power_Suc) linarith+
  then show ?case
    using Suc.IH [of "n div 2"] by (simp add: to_base.simps [of 2 n])
qed

lemma long_keys_collide:
  assumes "2 ^ 31 \<le> m"
  shows "key_source_of (2 * m) = key_source_of (2 * m + 1)"
proof -
  let ?n = "nat m"
  have "nat (2 * m) = 2 * ?n" "nat (2 * m + 1) = 2 * ?n + 1" "0 < ?n"
    using assms by auto
  moreover have "31 < length (to_base 2 ?n)"
    by (rule length_to_base_2_ge) (use assms in \<open>simp add: le_nat_iff\<close>)
  ultimately show ?thesis
    using assms
    by (simp add: key_source_of_def format_032b_def Let_def to_base.simps [of 2 "2 * ?n"]
        to_base.simps [of 2 "Suc (2 * ?n)"] bytes_of_string_def take_map)
qed

end
