(* ===== verification/Node.thy ===== *)
theory Node
  imports Models Usage Config
begin

text \<open>
  The gateway node and its service registry, \<open>internal/trans_network/node.go\<close>.

  A record \<open>Node\<close> holds the fields of the struct that carry state; connections and channels are
  handles. The registry operations are atomic steps: each holds the node's mutex from its first to
  its last access of the maps, and \<open>Lock\<close> and \<open>Unlock\<close> keep that visible in the model. libp2p
  and the protobuf codec are arguments: what \<open>libp2p.New\<close>, \<open>NewGossipSub\<close>, \<open>Join\<close>,
  \<open>Subscribe\<close>, \<open>Publish\<close> and \<open>ListPeers\<close> return.

  \<open>node_inv\<close> is the invariant: the two maps of the registry have the same keys, a service is
  stored under its own id and never marked deleted, and the mutex is free. \<open>directory\<close> abstracts
  the two maps to one; the locale \<open>service_directory\<close> states the contract of registration, removal
  and lookup that the forwarding services and the management API rely on.
\<close>

type_synonym peer_id = string
type_synonym handle = nat

section \<open>The node\<close>

record Node =
  node_Host :: peer_id
  node_Config :: NodeConfig
  broadcastServiceTopic :: bool
  selfID :: peer_id
  node_mutex :: bool
  services :: "string \<rightharpoonup> ApronService"
  namedServices :: "string \<rightharpoonup> ApronService list"
  servicePeerMapping :: "string \<rightharpoonup> peer_id"
  requestIdChanMapping :: "string \<rightharpoonup> handle"
  clientWsConns :: "string \<rightharpoonup> handle"
  serviceWsConns :: "string \<rightharpoonup> handle"
  clientSocketConns :: "string \<rightharpoonup> handle"
  serviceSocketConns :: "string \<rightharpoonup> handle"
  clientHttpDataChan :: "string \<rightharpoonup> handle"
  serviceUsageRecordManager :: UsageRecordManager

text \<open>
  \<open>NewNode\<close>; \<open>libp2p_New\<close> gives the id of the host it creates from a listening address (nil when
  the address could not be parsed, an error the code ignores) and the source of the private key.
\<close>

definition NewNode ::
  "(string \<Rightarrow> go_error + multiaddr) \<Rightarrow> (multiaddr option \<Rightarrow> key_source \<Rightarrow> go_error + peer_id) \<Rightarrow> NodeConfig \<Rightarrow>
     go_error + Node" where
  "NewNode newMultiaddr libp2p_New config =
     (let sourceMultiAddr = (case newMultiaddr (listen_addr (InternalPort config)) of Inl _ \<Rightarrow> None | Inr a \<Rightarrow> Some a) in
      case libp2p_New sourceMultiAddr (key_source_of (SecretKey config)) of
        Inl err \<Rightarrow> Inl err
      | Inr hostId \<Rightarrow> Inr \<lparr>node_Host = hostId, node_Config = config, broadcastServiceTopic = False, selfID = '''',
          node_mutex = False, services = Map.empty, namedServices = Map.empty,
          servicePeerMapping = Map.empty, requestIdChanMapping = Map.empty,
          clientWsConns = Map.empty, serviceWsConns = Map.empty,
          clientSocketConns = Map.empty, serviceSocketConns = Map.empty,
          clientHttpDataChan = Map.empty, serviceUsageRecordManager = mgr_Init\<rparr>)"

text \<open>
  \<open>SetupServiceBroadcastListener\<close>, with the results of \<open>NewGossipSub\<close>, \<open>Join\<close> and \<open>Subscribe\<close>;
  the goroutine it starts is \<open>broadcast_step\<close>, repeated.
\<close>

definition SetupServiceBroadcastListener ::
  "go_error option \<Rightarrow> go_error option \<Rightarrow> go_error option \<Rightarrow> Node \<Rightarrow> go_stop + Node" where
  "SetupServiceBroadcastListener eSub eJoin eSubscribe n =
     bindP (CheckError eSub) (\<lambda>_.
     bindP (CheckError eJoin) (\<lambda>_.
       let n1 = n\<lparr>broadcastServiceTopic := True\<rparr> in
     bindP (CheckError eSubscribe) (\<lambda>_.
       Inr (n1\<lparr>selfID := node_Host n1\<rparr>))))"

definition Lock :: "Node \<Rightarrow> go_stop + Node" where
  "Lock n = (if node_mutex n then Inl Blocked else Inr (n\<lparr>node_mutex := True\<rparr>))"

definition Unlock :: "Node \<Rightarrow> Node" where
  "Unlock n = n\<lparr>node_mutex := False\<rparr>"

definition RegisterRemoteService :: "peer_id \<Rightarrow> ApronService \<Rightarrow> Node \<Rightarrow> go_stop + Node" where
  "RegisterRemoteService peerId service n =
     bindP (Lock n) (\<lambda>n.
       let n1 = (if svc_IsDeleted service
                 then n\<lparr>services := (services n)(svc_Id service := None),
                        servicePeerMapping := (servicePeerMapping n)(svc_Id service := None)\<rparr>
                 else n\<lparr>services := (services n)(svc_Id service \<mapsto> service),
                        servicePeerMapping := (servicePeerMapping n)(svc_Id service \<mapsto> peerId)\<rparr>)
       in Inr (Unlock n1))"

text \<open>
  What the subscription delivers. \<open>msg_ReceivedFrom\<close> is the neighbour that forwarded the message;
  its author, which libp2p keeps in the message's \<open>From\<close> field, is not looked at.
\<close>

record pubsub_message =
  msg_ReceivedFrom :: peer_id
  msg_Data :: bytes

text \<open>One iteration of \<open>StartListeningOnServiceBroadcast\<close>, on the result of \<open>serviceBroadcastSub.Next\<close>.\<close>

definition broadcast_step ::
  "ApronService unmarshaller \<Rightarrow> go_error + pubsub_message \<Rightarrow> Node \<Rightarrow> go_stop + Node" where
  "broadcast_step unm r n =
     (case r of
        Inl err \<Rightarrow> Inr n
      | Inr msg \<Rightarrow>
          if msg_ReceivedFrom msg = selfID n then Inr n
          else (case unm (msg_Data msg) of
              Inl err \<Rightarrow> Inr n
            | Inr service \<Rightarrow> RegisterRemoteService (msg_ReceivedFrom msg) service n))"

text \<open>\<open>Publish\<close> on the nil topic of a node that is not set up dereferences nil.\<close>

definition BroadcastService ::
  "ApronService marshaller \<Rightarrow> (bytes \<Rightarrow> go_error option) \<Rightarrow> Node \<Rightarrow> ApronService \<Rightarrow>
     go_stop + (go_error + bytes)" where
  "BroadcastService mar publish n service =
     (case mar service of
        Inl err \<Rightarrow> Inr (Inl err)
      | Inr data \<Rightarrow>
          if \<not> broadcastServiceTopic n then Inl PanicNil
          else (case publish data of Some err \<Rightarrow> Inr (Inl err) | None \<Rightarrow> Inr (Inr data)))"

text \<open>The result holds what was published, and the node.\<close>

definition RegisterLocalService ::
  "ApronService marshaller \<Rightarrow> (bytes \<Rightarrow> go_error option) \<Rightarrow> ApronService \<Rightarrow> Node \<Rightarrow>
     go_stop + (bytes \<times> Node)" where
  "RegisterLocalService mar publish service n =
     bindP (Lock n) (\<lambda>n.
       let n1 = (if svc_IsDeleted service
                 then n\<lparr>services := (services n)(svc_Id service := None),
                        servicePeerMapping := (servicePeerMapping n)(svc_Id service := None)\<rparr>
                 else n\<lparr>services := (services n)(svc_Id service \<mapsto> service),
                        servicePeerMapping := (servicePeerMapping n)(svc_Id service \<mapsto> selfID n)\<rparr>);
           n2 = Unlock n1
       in bindP (BroadcastService mar publish n2 service) (\<lambda>r.
            case r of Inl err \<Rightarrow> Inl (PanicErr err) | Inr data \<Rightarrow> Inr (data, n2)))"

definition NodeAddrStr :: "string list \<Rightarrow> Node \<Rightarrow> go_stop + string" where
  "NodeAddrStr addrs n =
     (case addrs of [] \<Rightarrow> Inl PanicIndex | a # _ \<Rightarrow> Inr (a @ ''/p2p/'' @ node_Host n))"

text \<open>
  One tick of \<open>UpdatePeers\<close>: \<open>availablePeers\<close> is what \<open>ListPeers\<close> returns, \<open>ks\<close> the order of the
  range over the peer mapping. The first loop collects, the second deletes.
\<close>

definition invalid_services :: "peer_id list \<Rightarrow> string list \<Rightarrow> Node \<Rightarrow> string list" where
  "invalid_services availablePeers ks n =
     filter (\<lambda>k. case servicePeerMapping n k of
                   None \<Rightarrow> False
                 | Some v \<Rightarrow> v \<noteq> selfID n \<and> \<not> list_ex (\<lambda>p. v = p) availablePeers) ks"

definition UpdatePeers :: "peer_id list \<Rightarrow> string list \<Rightarrow> Node \<Rightarrow> go_stop + Node" where
  "UpdatePeers availablePeers ks n =
     bindP (Lock n) (\<lambda>n.
       let invaildService = invalid_services availablePeers ks n in
       Inr (Unlock (n\<lparr>services := fold (\<lambda>k m. m(k := None)) invaildService (services n),
                      servicePeerMapping :=
                        fold (\<lambda>k m. m(k := None)) invaildService (servicePeerMapping n)\<rparr>)))"

section \<open>The invariant and the directory\<close>

definition node_inv :: "Node \<Rightarrow> bool" where
  "node_inv n \<longleftrightarrow>
     \<not> node_mutex n \<and> dom (services n) = dom (servicePeerMapping n) \<and> finite (dom (services n)) \<and>
     (\<forall>k s. services n k = Some s \<longrightarrow> svc_Id s = k \<and> \<not> svc_IsDeleted s)"

type_synonym directory = "string \<rightharpoonup> peer_id \<times> ApronService"

definition directory :: "Node \<Rightarrow> directory" where
  "directory n k =
     (case (servicePeerMapping n k, services n k) of
        (Some p, Some s) \<Rightarrow> Some (p, s)
      | _ \<Rightarrow> None)"

lemma directory_Some_iff:
  "directory n k = Some (p, s) \<longleftrightarrow> servicePeerMapping n k = Some p \<and> services n k = Some s"
  by (auto simp: directory_def split: option.splits)

lemma node_inv_maps:
  assumes "node_inv n"
  shows "servicePeerMapping n k = map_option fst (directory n k)"
    and "services n k = map_option snd (directory n k)"
proof -
  have "services n k = None \<longleftrightarrow> servicePeerMapping n k = None"
    using assms domIff unfolding node_inv_def by metis
  then show "servicePeerMapping n k = map_option fst (directory n k)"
    and "services n k = map_option snd (directory n k)"
    by (auto simp: directory_def split: option.splits)
qed

datatype registry_event = Announced peer_id ApronService | PeersSeen "peer_id list"

fun dir_step :: "peer_id \<Rightarrow> registry_event \<Rightarrow> directory \<Rightarrow> directory" where
  "dir_step self (Announced p s) d =
     (if svc_IsDeleted s then d(svc_Id s := None) else d(svc_Id s \<mapsto> (p, s)))"
| "dir_step self (PeersSeen ps) d =
     (\<lambda>k. case d k of
            Some (p, s) \<Rightarrow> if p = self \<or> p \<in> set ps then Some (p, s) else None
          | None \<Rightarrow> None)"

text \<open>When is a service in the directory? What the last relevant event said.\<close>

fun concerns :: "peer_id \<Rightarrow> string \<Rightarrow> peer_id \<Rightarrow> registry_event \<Rightarrow> bool" where
  "concerns self k p (Announced p' s) = (svc_Id s = k)"
| "concerns self k p (PeersSeen ps) = (p \<noteq> self \<and> p \<notin> set ps)"

lemma dir_step_keeps:
  "d k = Some (p, s) \<Longrightarrow> \<not> concerns self k p e \<Longrightarrow> dir_step self e d k = Some (p, s)"
  by (cases e) auto

lemma dir_steps_keep:
  "d k = Some (p, s) \<Longrightarrow> \<forall>e \<in> set evs. \<not> concerns self k p e \<Longrightarrow>
    fold (dir_step self) evs d k = Some (p, s)"
  by (induction evs arbitrary: d) (auto simp: dir_step_keeps)

lemma dir_steps_iff:
  "fold (dir_step self) evs Map.empty k = Some (p, s) \<longleftrightarrow>
     (\<exists>evs1 evs2. evs = evs1 @ Announced p s # evs2 \<and> svc_Id s = k \<and> \<not> svc_IsDeleted s \<and>
        (\<forall>e \<in> set evs2. \<not> concerns self k p e))"
proof (induction evs rule: rev_induct)
  case Nil
  then show ?case by simp
next
  case (snoc e evs)
  let ?d = "fold (dir_step self) evs Map.empty"
  have step: "fold (dir_step self) (evs @ [e]) Map.empty k = Some (p, s) \<longleftrightarrow>
      (e = Announced p s \<and> svc_Id s = k \<and> \<not> svc_IsDeleted s) \<or>
      (?d k = Some (p, s) \<and> \<not> concerns self k p e)"
    by (cases e) (auto split: option.splits if_splits)
  show ?case
    unfolding step snoc.IH snoc_split_iff by auto
qed

section \<open>The contract of the registry\<close>

inductive directory_run ::
  "(peer_id \<Rightarrow> ApronService \<Rightarrow> 'n \<Rightarrow> 'n \<Rightarrow> bool) \<Rightarrow> (peer_id list \<Rightarrow> 'n \<Rightarrow> 'n \<Rightarrow> bool) \<Rightarrow>
     'n \<Rightarrow> registry_event list \<Rightarrow> 'n \<Rightarrow> bool"
  for reg and prn where
  dir_start: "directory_run reg prn n [] n"
| dir_announced: "directory_run reg prn n evs n' \<Longrightarrow> reg p s n' n'' \<Longrightarrow>
    directory_run reg prn n (evs @ [Announced p s]) n''"
| dir_pruned: "directory_run reg prn n evs n' \<Longrightarrow> prn ps n' n'' \<Longrightarrow>
    directory_run reg prn n (evs @ [PeersSeen ps]) n''"

locale service_directory =
  fixes register :: "peer_id \<Rightarrow> ApronService \<Rightarrow> 'n \<Rightarrow> 'n \<Rightarrow> bool"
    and prune :: "peer_id list \<Rightarrow> 'n \<Rightarrow> 'n \<Rightarrow> bool"
    and dir :: "'n \<Rightarrow> directory"
    and self :: "'n \<Rightarrow> peer_id"
    and invar :: "'n \<Rightarrow> bool"
  assumes register_step: "invar n \<Longrightarrow> register p s n n' \<Longrightarrow>
      invar n' \<and> self n' = self n \<and> dir n' = dir_step (self n) (Announced p s) (dir n)"
    and prune_step: "invar n \<Longrightarrow> prune ps n n' \<Longrightarrow>
      invar n' \<and> self n' = self n \<and> dir n' = dir_step (self n) (PeersSeen ps) (dir n)"
begin

lemma run_refines:
  assumes "directory_run register prune n evs n'" and "invar n"
  shows "invar n' \<and> self n' = self n \<and> dir n' = fold (dir_step (self n)) evs (dir n)"
  using assms
proof (induction rule: directory_run.induct)
  case (dir_start n)
  then show ?case by simp
next
  case (dir_announced n evs n' p s n'')
  then show ?case using register_step [of n' p s n''] by simp
next
  case (dir_pruned n evs n' ps n'')
  then show ?case using prune_step [of n' ps n''] by simp
qed

lemma run_entry_iff:
  assumes "directory_run register prune n evs n'" and "invar n" and "dir n = Map.empty"
  shows "dir n' k = Some (p, s) \<longleftrightarrow>
     (\<exists>evs1 evs2. evs = evs1 @ Announced p s # evs2 \<and> svc_Id s = k \<and> \<not> svc_IsDeleted s \<and>
        (\<forall>e \<in> set evs2. \<not> concerns (self n) k p e))"
  using run_refines [OF assms(1,2)] assms(3) dir_steps_iff by simp

end

section \<open>The node keeps the contract\<close>

lemma Lock_Inr_iff [go_simps]: "Lock n = Inr n' \<longleftrightarrow> \<not> node_mutex n \<and> n' = n\<lparr>node_mutex := True\<rparr>"
  by (auto simp: Lock_def)

lemma Lock_free [simp]: "\<not> node_mutex n \<Longrightarrow> Lock n = Inr (n\<lparr>node_mutex := True\<rparr>)"
  by (simp add: Lock_def)

text \<open>The update both registration functions make to the maps.\<close>

definition enter_service :: "peer_id \<Rightarrow> ApronService \<Rightarrow> Node \<Rightarrow> Node" where
  "enter_service p s n =
     (if svc_IsDeleted s
      then n\<lparr>services := (services n)(svc_Id s := None),
             servicePeerMapping := (servicePeerMapping n)(svc_Id s := None)\<rparr>
      else n\<lparr>services := (services n)(svc_Id s \<mapsto> s),
             servicePeerMapping := (servicePeerMapping n)(svc_Id s \<mapsto> p)\<rparr>)"

lemma node_inv_free: "node_inv n \<Longrightarrow> \<not> node_mutex n"
  by (simp add: node_inv_def)

lemma enter_service_locked:
  "node_inv n \<Longrightarrow> Unlock (enter_service p s (n\<lparr>node_mutex := True\<rparr>)) = enter_service p s n"
  by (cases n) (simp add: node_inv_def enter_service_def Unlock_def)

lemma RegisterRemoteService_eq:
  assumes "node_inv n"
  shows "RegisterRemoteService p s n = Inr (enter_service p s n)"
  using enter_service_locked [OF assms, of p s] node_inv_free [OF assms]
  by (simp add: RegisterRemoteService_def Let_def flip: enter_service_def)

lemma RegisterLocalService_eq:
  assumes "node_inv n"
  shows "RegisterLocalService mar publish s n =
    bindP (BroadcastService mar publish n s) (\<lambda>r.
      case r of Inl err \<Rightarrow> Inl (PanicErr err) | Inr data \<Rightarrow> Inr (data, enter_service (selfID n) s n))"
proof -
  have "RegisterLocalService mar publish s n =
      bindP (BroadcastService mar publish (Unlock (enter_service (selfID n) s (n\<lparr>node_mutex := True\<rparr>))) s)
        (\<lambda>r. case r of Inl err \<Rightarrow> Inl (PanicErr err)
             | Inr data \<Rightarrow> Inr (data, Unlock (enter_service (selfID n) s (n\<lparr>node_mutex := True\<rparr>))))"
    using node_inv_free [OF assms]
    by (simp add: RegisterLocalService_def Let_def enter_service_def cong: sum.case_cong)
  moreover have "BroadcastService mar publish (enter_service (selfID n) s n) s = BroadcastService mar publish n s"
    by (simp add: BroadcastService_def enter_service_def cong: sum.case_cong)
  ultimately show ?thesis
    unfolding enter_service_locked [OF assms] by simp
qed

lemma enter_service_step:
  assumes "node_inv n"
  shows "node_inv (enter_service p s n)" and "selfID (enter_service p s n) = selfID n"
    and "directory (enter_service p s n) = dir_step self (Announced p s) (directory n)"
proof -
  show "node_inv (enter_service p s n)"
    using assms by (auto simp: node_inv_def enter_service_def)
  show "directory (enter_service p s n) = dir_step self (Announced p s) (directory n)"
    by (rule ext) (simp add: enter_service_def directory_def split: option.split)
qed (simp add: enter_service_def)

definition gone_services :: "peer_id list \<Rightarrow> Node \<Rightarrow> string set" where
  "gone_services ps n = {k. \<exists>v. servicePeerMapping n k = Some v \<and> v \<noteq> selfID n \<and> v \<notin> set ps}"

definition drop_services :: "string set \<Rightarrow> Node \<Rightarrow> Node" where
  "drop_services K n =
     n\<lparr>services := services n |` (- K), servicePeerMapping := servicePeerMapping n |` (- K)\<rparr>"

lemma UpdatePeers_eq:
  assumes "node_inv n" and "range_order (servicePeerMapping n) ks"
  shows "UpdatePeers ps ks n = Inr (drop_services (gone_services ps n) n)"
proof -
  have "set (invalid_services ps ks n') = gone_services ps n"
    if "servicePeerMapping n' = servicePeerMapping n" "selfID n' = selfID n" for n'
    using assms(2) that
    by (auto simp: invalid_services_def range_order_def gone_services_def list_ex_iff split: option.splits)
  then show ?thesis
    using node_inv_free [OF assms(1)]
    by (cases n) (simp add: UpdatePeers_def fold_delete Unlock_def drop_services_def)
qed

lemma drop_services_step:
  assumes "node_inv n"
  shows "node_inv (drop_services K n)" and "selfID (drop_services K n) = selfID n"
    and "directory (drop_services (gone_services ps n) n) =
           dir_step (selfID n) (PeersSeen ps) (directory n)"
proof -
  show "node_inv (drop_services K n)"
    using assms by (auto simp: node_inv_def drop_services_def) (simp_all add: restrict_map_def split: if_splits)
  show "directory (drop_services (gone_services ps n) n) =
      dir_step (selfID n) (PeersSeen ps) (directory n)"
    by (rule ext)
      (auto simp: directory_def drop_services_def gone_services_def restrict_map_def split: option.splits)
qed (simp add: drop_services_def)

lemma RegisterLocalService_Inr_iff:
  assumes "node_inv n"
  shows "RegisterLocalService mar publish s n = Inr (data, n') \<longleftrightarrow>
    BroadcastService mar publish n s = Inr (Inr data) \<and> n' = enter_service (selfID n) s n"
  by (cases "BroadcastService mar publish n s")
    (auto simp: RegisterLocalService_eq [OF assms] split: sum.split)

definition registers :: "peer_id \<Rightarrow> ApronService \<Rightarrow> Node \<Rightarrow> Node \<Rightarrow> bool" where
  "registers p s n n' \<longleftrightarrow>
     RegisterRemoteService p s n = Inr n' \<or>
     p = selfID n \<and> (\<exists>mar publish data. RegisterLocalService mar publish s n = Inr (data, n'))"

definition prunes :: "peer_id list \<Rightarrow> Node \<Rightarrow> Node \<Rightarrow> bool" where
  "prunes ps n n' \<longleftrightarrow>
     (\<exists>ks. range_order (servicePeerMapping n) ks \<and> UpdatePeers ps ks n = Inr n')"

lemma registers_enters: "node_inv n \<Longrightarrow> registers p s n n' \<Longrightarrow> n' = enter_service p s n"
  by (auto simp: registers_def RegisterRemoteService_eq RegisterLocalService_Inr_iff)

interpretation registry: service_directory registers prunes directory selfID node_inv
proof unfold_locales
  fix n n' :: Node and p s
  assume n: "node_inv n" and "registers p s n n'"
  then have "n' = enter_service p s n"
    using registers_enters by blast
  then show "node_inv n' \<and> selfID n' = selfID n \<and>
      directory n' = dir_step (selfID n) (Announced p s) (directory n)"
    using enter_service_step [OF n] by blast
next
  fix n n' :: Node and ps
  assume n: "node_inv n" and "prunes ps n n'"
  then have "n' = drop_services (gone_services ps n) n"
    using UpdatePeers_eq [OF n] by (auto simp: prunes_def)
  then show "node_inv n' \<and> selfID n' = selfID n \<and>
      directory n' = dir_step (selfID n) (PeersSeen ps) (directory n)"
    using drop_services_step [OF n] by blast
qed

section \<open>Runs of a node's registry\<close>

text \<open>What a result of \<open>serviceBroadcastSub.Next\<close> announces to a node, if anything.\<close>

definition heard ::
  "ApronService unmarshaller \<Rightarrow> peer_id \<Rightarrow> go_error + pubsub_message \<Rightarrow> registry_event list" where
  "heard unm self r =
     (case r of
        Inl err \<Rightarrow> []
      | Inr msg \<Rightarrow>
          if msg_ReceivedFrom msg = self then []
          else (case unm (msg_Data msg) of
              Inl err \<Rightarrow> []
            | Inr service \<Rightarrow> [Announced (msg_ReceivedFrom msg) service]))"

inductive node_run ::
  "ApronService marshaller \<Rightarrow> (bytes \<Rightarrow> go_error option) \<Rightarrow> ApronService unmarshaller \<Rightarrow>
     Node \<Rightarrow> registry_event list \<Rightarrow> Node \<Rightarrow> bool"
  for mar publish unm where
  begun: "node_run mar publish unm n [] n"
| local: "node_run mar publish unm n evs n' \<Longrightarrow>
    RegisterLocalService mar publish s n' = Inr (data, n'') \<Longrightarrow>
    node_run mar publish unm n (evs @ [Announced (selfID n') s]) n''"
| received: "node_run mar publish unm n evs n' \<Longrightarrow> broadcast_step unm r n' = Inr n'' \<Longrightarrow>
    node_run mar publish unm n (evs @ heard unm (selfID n') r) n''"
| tick: "node_run mar publish unm n evs n' \<Longrightarrow> range_order (servicePeerMapping n') ks \<Longrightarrow>
    UpdatePeers ps ks n' = Inr n'' \<Longrightarrow>
    node_run mar publish unm n (evs @ [PeersSeen ps]) n''"

lemma node_run_directory_run:
  "node_run mar publish unm n evs n' \<Longrightarrow> directory_run registers prunes n evs n'"
proof (induction rule: node_run.induct)
  case (begun n)
  show ?case by (rule dir_start)
next
  case (local n evs n' s data n'')
  then have "registers (selfID n') s n' n''"
    by (auto simp: registers_def)
  with local.IH show ?case by (rule dir_announced)
next
  case (received n evs n' r n'')
  show ?case
  proof (cases "heard unm (selfID n') r")
    case Nil
    then have "n'' = n'"
      using received.hyps
      by (auto simp: heard_def broadcast_step_def split: sum.splits if_splits)
    then show ?thesis using received.IH Nil by simp
  next
    case (Cons e es)
    then obtain msg s where "r = Inr msg" "e = Announced (msg_ReceivedFrom msg) s" "es = []"
        "registers (msg_ReceivedFrom msg) s n' n''"
      using received.hyps
      by (auto simp: heard_def broadcast_step_def registers_def split: sum.splits if_splits)
    then show ?thesis
      using dir_announced [OF received.IH] Cons by simp
  qed
next
  case (tick n evs n' ks ps n'')
  then have "prunes ps n' n''"
    by (auto simp: prunes_def)
  with tick.IH show ?case by (rule dir_pruned)
qed

definition node_ready :: "Node \<Rightarrow> bool" where
  "node_ready n \<longleftrightarrow>
     (\<exists>newMultiaddr libp2p_New config n0. NewNode newMultiaddr libp2p_New config = Inr n0 \<and>
        SetupServiceBroadcastListener None None None n0 = Inr n)"

lemma NewNode_InrD:
  assumes "NewNode newMultiaddr libp2p_New config = Inr n"
  shows "node_inv n" and "directory n = Map.empty" and "node_Config n = config" and "\<not> broadcastServiceTopic n"
    and "\<exists>addr. libp2p_New addr (key_source_of (SecretKey config)) = Inr (node_Host n)"
proof -
  obtain addr h where h: "libp2p_New addr (key_source_of (SecretKey config)) = Inr h"
      and n: "n = \<lparr>node_Host = h, node_Config = config, broadcastServiceTopic = False, selfID = '''',
          node_mutex = False, services = Map.empty, namedServices = Map.empty,
          servicePeerMapping = Map.empty, requestIdChanMapping = Map.empty,
          clientWsConns = Map.empty, serviceWsConns = Map.empty,
          clientSocketConns = Map.empty, serviceSocketConns = Map.empty,
          clientHttpDataChan = Map.empty, serviceUsageRecordManager = mgr_Init\<rparr>"
    using assms unfolding NewNode_def Let_def
    by (cases "libp2p_New (case newMultiaddr (listen_addr (InternalPort config)) of Inl _ \<Rightarrow> None | Inr a \<Rightarrow> Some a)
        (key_source_of (SecretKey config))") auto
  show "node_inv n" and "directory n = Map.empty" and "node_Config n = config" and "\<not> broadcastServiceTopic n"
    and "\<exists>addr. libp2p_New addr (key_source_of (SecretKey config)) = Inr (node_Host n)"
    using h by (auto simp: n node_inv_def directory_def fun_eq_iff)
qed

lemma SetupServiceBroadcastListener_InrD:
  assumes "SetupServiceBroadcastListener eSub eJoin eSubscribe n = Inr n'"
  shows "n' = n\<lparr>broadcastServiceTopic := True, selfID := node_Host n\<rparr>"
  using assms by (auto simp: SetupServiceBroadcastListener_def bindP_Inr_iff)

lemma node_ready_inv:
  assumes "node_ready n"
  shows "node_inv n" and "directory n = Map.empty" and "broadcastServiceTopic n"
    and "selfID n = node_Host n"
proof -
  obtain n0 where "node_inv n0" "directory n0 = Map.empty"
      "n = n0\<lparr>broadcastServiceTopic := True, selfID := node_Host n0\<rparr>"
    using assms NewNode_InrD(1,2) SetupServiceBroadcastListener_InrD unfolding node_ready_def by metis
  then show "node_inv n" and "directory n = Map.empty" and "broadcastServiceTopic n"
    and "selfID n = node_Host n"
    by (auto simp: node_inv_def directory_def fun_eq_iff)
qed

section \<open>Properties\<close>

text \<open>
  C12. What the registry of a running node knows. After any interleaving of local registrations,
  received broadcasts and peer checks, a service id is mapped to a peer and a service exactly when
  that peer announced that service (the node itself by a local registration), nothing announced
  for the id since then replaced or deleted it, and every later peer check saw the peer (or the
  peer is the node itself). The two maps of the registry agree in every such state.
\<close>

theorem registry_entry_iff:
  assumes "node_ready n" and "node_run mar publish unm n evs n'"
  shows "node_inv n' \<and>
    (servicePeerMapping n' k = Some p \<and> services n' k = Some s \<longleftrightarrow>
       (\<exists>evs1 evs2. evs = evs1 @ Announced p s # evs2 \<and> svc_Id s = k \<and> \<not> svc_IsDeleted s \<and>
          (\<forall>e \<in> set evs2. \<not> concerns (node_Host n) k p e)))"
proof -
  note n = node_ready_inv [OF assms(1)] and run = node_run_directory_run [OF assms(2)]
  show ?thesis
    using registry.run_entry_iff [OF run n(1,2)] registry.run_refines [OF run n(1)] n(4)
    by (simp flip: directory_Some_iff)
qed

definition sample_node :: Node where
  "sample_node = \<lparr>node_Host = ''A'', node_Config = zero_config, broadcastServiceTopic = True, selfID = ''A'',
     node_mutex = False, services = Map.empty, namedServices = Map.empty,
     servicePeerMapping = Map.empty, requestIdChanMapping = Map.empty,
     clientWsConns = Map.empty, serviceWsConns = Map.empty,
     clientSocketConns = Map.empty, serviceSocketConns = Map.empty,
     clientHttpDataChan = Map.empty, serviceUsageRecordManager = mgr_Init\<rparr>"

lemma sample_node_ready: "node_ready sample_node"
  unfolding node_ready_def
  by (rule exI, rule exI [of _ "\<lambda>_ _. Inr ''A''"], rule exI [of _ zero_config], rule exI)
    (auto simp: NewNode_def SetupServiceBroadcastListener_def sample_node_def)

lemmas sample_node_inv = node_ready_inv(1) [OF sample_node_ready]

definition sample_service :: "string \<Rightarrow> ApronService" where
  "sample_service k = empty_service\<lparr>svc_Id := k, svc_Providers := [Some empty_provider]\<rparr>"

lemma sample_service_simps [simp]:
  "svc_Id (sample_service k) = k" "\<not> svc_IsDeleted (sample_service k)"
  "svc_Providers (sample_service k) = [Some empty_provider]"
  by (simp_all add: sample_service_def empty_service_def)

text \<open>A codec that knows the ids of live services only.\<close>

definition sample_mar :: "ApronService marshaller" where
  "sample_mar s = (if s = sample_service (svc_Id s) then Inr (bytes_of_string (svc_Id s))
                   else Inl (ErrMsg ''unsupported''))"

definition sample_unm :: "ApronService unmarshaller" where
  "sample_unm b = Inr (sample_service (string_of_bytes b))"

lemma sample_codec: "codec_ok sample_mar sample_unm"
  by (auto simp: codec_ok_def sample_mar_def sample_unm_def split: if_splits)

lemma sample_local_run:
  "node_run sample_mar (\<lambda>_. None) sample_unm sample_node [Announced ''A'' (sample_service ''s'')]
     (enter_service ''A'' (sample_service ''s'') sample_node)"
proof -
  have "BroadcastService sample_mar (\<lambda>_. None) sample_node (sample_service ''s'') = Inr (Inr (bytes_of_string ''s''))"
    by (simp add: BroadcastService_def sample_mar_def sample_node_def)
  then have "RegisterLocalService sample_mar (\<lambda>_. None) (sample_service ''s'') sample_node =
      Inr (bytes_of_string ''s'', enter_service ''A'' (sample_service ''s'') sample_node)"
    by (simp add: RegisterLocalService_eq [OF sample_node_inv]) (simp add: sample_node_def)
  from node_run.local [OF node_run.begun this] show ?thesis
    by (simp add: sample_node_def)
qed

theorem registry_entry_iff_witness:
  "servicePeerMapping (enter_service ''A'' (sample_service ''s'') sample_node) ''s'' = Some ''A'' \<and>
   services (enter_service ''A'' (sample_service ''s'') sample_node) ''s'' = Some (sample_service ''s'')"
  using registry_entry_iff [OF sample_node_ready sample_local_run, of "''s''" "''A''" "sample_service ''s''"]
  by (auto intro: exI [of _ "[]"])

text \<open>
  C32. A peer check removes exactly the services of peers that left: with the invariant
  \<open>UpdatePeers\<close> completes a tick for every iteration order of the map, keeps the invariant, keeps
  the node's own services and those of peers still listed, and forgets all others, in both maps.
\<close>

theorem update_peers_exact:
  assumes "node_inv n" and "range_order (servicePeerMapping n) ks"
  shows "\<exists>n'. UpdatePeers ps ks n = Inr n' \<and> node_inv n' \<and>
           (\<forall>k. servicePeerMapping n' k =
              (case servicePeerMapping n k of
                 Some p \<Rightarrow> if p = selfID n \<or> p \<in> set ps then Some p else None | None \<Rightarrow> None) \<and>
              services n' k = (if servicePeerMapping n' k = None then None else services n k))"
proof -
  have none: "services n k = None" if "servicePeerMapping n k = None" for k
    using that assms(1) domIff unfolding node_inv_def by metis
  show ?thesis
    using UpdatePeers_eq [OF assms, of ps] drop_services_step(1) [OF assms(1), of "gone_services ps n"] none
    by (auto simp: drop_services_def gone_services_def restrict_map_def split: option.splits)
qed

theorem update_peers_exact_witness:
  "\<exists>n'. UpdatePeers [''C''] [''s'', ''t'', ''u'']
      (enter_service ''C'' (sample_service ''u'') (enter_service ''B'' (sample_service ''t'')
        (enter_service ''A'' (sample_service ''s'') sample_node))) = Inr n' \<and>
     servicePeerMapping n' ''s'' = Some ''A'' \<and> servicePeerMapping n' ''t'' = None \<and>
     services n' ''t'' = None \<and> servicePeerMapping n' ''u'' = Some ''C''"
proof -
  let ?n = "enter_service ''C'' (sample_service ''u'') (enter_service ''B'' (sample_service ''t'')
        (enter_service ''A'' (sample_service ''s'') sample_node))"
  have "node_inv ?n"
    using sample_node_inv enter_service_step(1) by blast
  moreover have "range_order (servicePeerMapping ?n) [''s'', ''t'', ''u'']"
    by (auto simp: range_order_def enter_service_def sample_node_def)
  moreover have "servicePeerMapping ?n = [''s'' \<mapsto> ''A'', ''t'' \<mapsto> ''B'', ''u'' \<mapsto> ''C'']" "selfID ?n = ''A''"
    by (auto simp: enter_service_def sample_node_def)
  ultimately show ?thesis
    using update_peers_exact [of ?n "[''s'', ''t'', ''u'']" "[''C'']"] by force
qed

text \<open>
  Announcements are not checked against ownership: a broadcast received from any other peer
  takes over (or, marked deleted, removes) whatever the node knew under the id, its own services
  included, and requests for the id go to the sender from then on.
\<close>

theorem remote_announcement_overrides:
  assumes "node_inv n" and "msg_ReceivedFrom msg \<noteq> selfID n" and "unm (msg_Data msg) = Inr s"
  shows "\<exists>n'. broadcast_step unm (Inr msg) n = Inr n' \<and>
           servicePeerMapping n' (svc_Id s) =
             (if svc_IsDeleted s then None else Some (msg_ReceivedFrom msg)) \<and>
           services n' (svc_Id s) = (if svc_IsDeleted s then None else Some s) \<and>
           (\<forall>k. k \<noteq> svc_Id s \<longrightarrow>
              servicePeerMapping n' k = servicePeerMapping n k \<and> services n' k = services n k)"
  using assms by (simp add: broadcast_step_def RegisterRemoteService_eq enter_service_def)

theorem remote_announcement_overrides_witness:
  "servicePeerMapping (enter_service ''A'' (sample_service ''s'') sample_node) ''s'' = Some ''A'' \<and>
   (\<exists>n'. broadcast_step sample_unm (Inr \<lparr>msg_ReceivedFrom = ''Eve'', msg_Data = bytes_of_string ''s''\<rparr>)
           (enter_service ''A'' (sample_service ''s'') sample_node) = Inr n' \<and>
         servicePeerMapping n' ''s'' = Some ''Eve'')"
proof -
  let ?n = "enter_service ''A'' (sample_service ''s'') sample_node"
  let ?msg = "\<lparr>msg_ReceivedFrom = ''Eve'', msg_Data = bytes_of_string ''s''\<rparr>"
  have "node_inv ?n"
    by (rule enter_service_step(1) [OF sample_node_inv])
  moreover have "selfID ?n = ''A''" "servicePeerMapping ?n ''s'' = Some ''A''"
    by (simp_all add: enter_service_def sample_node_def)
  ultimately show ?thesis
    using remote_announcement_overrides [of ?n ?msg sample_unm "sample_service ''s''"]
    by (auto simp: sample_unm_def)
qed

end
