(* ===== verification/Gossip.thy ===== *)
theory Gossip
  imports Node
begin

text \<open>
  A network of gateways that exchange service broadcasts, built from the node operations of
  \<open>Node\<close>. \<open>RegisterLocalService\<close> unlocks the node before it publishes, so that other operations can
  come between: \<open>net_store\<close> is the handler up to its unlocking, with what it will publish, and
  \<open>net_publish\<close> the publication, in any order among the handlers of a node.

  libp2p's GossipSub is the environment of the step relation \<open>net_step\<close>: a published message is
  queued for every subscriber, the author included; a queued message is delivered in any order or
  never (\<open>net_lose\<close>), and the neighbour that hands it over, \<open>msg_ReceivedFrom\<close>, is any peer that the
  relation \<open>via\<close> allows. \<open>via_ok\<close> is what libp2p documents of it: a peer gets its own message from
  itself and a foreign one from another peer. A peer check sees any list of peers.

  \<open>net_orderly\<close> is an observation of the run and guards no step: it is true as long as
  the announcements of each service were published in the order in which the service was stored and
  delivered in the order in which they were published, none was lost and every peer check saw
  all gateways.

  A service id is registered at one node only, its \<open>owner\<close>, and without nil providers (\<open>wf_service\<close>).
  An announcement is kept with its author and the id of its service.
\<close>

type_synonym announcement = "peer_id \<times> string \<times> bytes"

record network =
  net_nodes :: "peer_id \<Rightarrow> Node"
  outgoing :: "peer_id \<Rightarrow> (string \<times> bytes) list"
  inbox :: "peer_id \<Rightarrow> announcement list"
  net_orderly :: bool

definition via_ok :: "peer_id set \<Rightarrow> (peer_id \<Rightarrow> peer_id \<Rightarrow> peer_id \<Rightarrow> bool) \<Rightarrow> bool" where
  "via_ok peers via \<longleftrightarrow>
     (\<forall>q p r. via q p r \<longrightarrow> (if p = q then r = q else r \<noteq> q \<and> r \<in> peers))"

inductive net_step ::
  "ApronService marshaller \<Rightarrow> ApronService unmarshaller \<Rightarrow> (string \<Rightarrow> peer_id) \<Rightarrow> peer_id set \<Rightarrow>
     (peer_id \<Rightarrow> peer_id \<Rightarrow> peer_id \<Rightarrow> bool) \<Rightarrow> network \<Rightarrow> network \<Rightarrow> bool"
  for mar unm owner peers via where
  net_store: "p \<in> peers \<Longrightarrow> owner (svc_Id s) = p \<Longrightarrow> wf_service s \<Longrightarrow>
    RegisterLocalService mar (\<lambda>_. None) s (net_nodes N p) = Inr (data, n') \<Longrightarrow>
    net_step mar unm owner peers via N
      (N\<lparr>net_nodes := (net_nodes N)(p := n'), outgoing := (outgoing N)(p := outgoing N p @ [(svc_Id s, data)])\<rparr>)"
| net_publish: "p \<in> peers \<Longrightarrow> outgoing N p = xs @ (k, data) # ys \<Longrightarrow>
    net_step mar unm owner peers via N
      (N\<lparr>outgoing := (outgoing N)(p := xs @ ys), inbox := (\<lambda>q. inbox N q @ [(p, k, data)]),
         net_orderly := (net_orderly N \<and> k \<notin> fst ` set xs)\<rparr>)"
| net_deliver: "q \<in> peers \<Longrightarrow> inbox N q = xs @ (p, k, data) # ys \<Longrightarrow> via q p r \<Longrightarrow>
    broadcast_step unm (Inr \<lparr>msg_ReceivedFrom = r, msg_Data = data\<rparr>) (net_nodes N q) = Inr n' \<Longrightarrow>
    net_step mar unm owner peers via N
      (N\<lparr>net_nodes := (net_nodes N)(q := n'), inbox := (inbox N)(q := xs @ ys),
         net_orderly := (net_orderly N \<and> k \<notin> (fst \<circ> snd) ` set xs)\<rparr>)"
| net_lose: "inbox N q = xs @ m # ys \<Longrightarrow>
    net_step mar unm owner peers via N (N\<lparr>inbox := (inbox N)(q := xs @ ys), net_orderly := False\<rparr>)"
| net_check: "q \<in> peers \<Longrightarrow> range_order (servicePeerMapping (net_nodes N q)) ks \<Longrightarrow>
    UpdatePeers ps ks (net_nodes N q) = Inr n' \<Longrightarrow>
    net_step mar unm owner peers via N
      (N\<lparr>net_nodes := (net_nodes N)(q := n'), net_orderly := (net_orderly N \<and> peers \<subseteq> set ps)\<rparr>)"


section \<open>What is still under way\<close>

text \<open>
  \<open>under_way\<close> are the announcements of one service that a node has not received yet, in order. The
  invariant of an orderly run says that the last of them, or else what the node stores, is what the
  owner stores.
\<close>

definition announced :: "ApronService unmarshaller \<Rightarrow> bytes \<Rightarrow> ApronService option" where
  "announced unm data = (case unm data of Inl _ \<Rightarrow> None | Inr s \<Rightarrow> if svc_IsDeleted s then None else Some s)"


definition known :: "ApronService unmarshaller \<Rightarrow> bytes list \<Rightarrow> ApronService option \<Rightarrow> ApronService option" where
  "known unm ds v = fold (\<lambda>d _. announced unm d) ds v"




lemma services_enter_service:
  "services (enter_service p s n) =
     (services n)(svc_Id s := (if svc_IsDeleted s then None else Some s))"
  "servicePeerMapping (enter_service p s n) =
     (servicePeerMapping n)(svc_Id s := (if svc_IsDeleted s then None else Some p))"
  by (simp_all add: enter_service_def)



lemma known_simps [simp]:
  "known unm [] v = v" "known unm (d # ds) v = known unm ds (announced unm d)"
  "known unm (ds @ [d]) v = announced unm d"
  by (simp_all add: known_def)





lemma drop_services_empty [simp]: "drop_services {} n = n"
  by (cases n) (simp add: drop_services_def restrict_map_def)




lemma net_step_orderly: "net_step mar unm owner peers via N N' \<Longrightarrow> net_orderly N' \<Longrightarrow> net_orderly N"
  by (induction rule: net_step.induct) simp_all


section \<open>A small network\<close>

definition trio :: "peer_id set" where
  "trio = {''A'', ''B'', ''C''}"

definition trio_node :: "peer_id \<Rightarrow> Node" where
  "trio_node p = sample_node\<lparr>node_Host := p, selfID := p\<rparr>"

definition trio_start :: network where
  "trio_start = \<lparr>net_nodes = trio_node, outgoing = (\<lambda>_. []), inbox = (\<lambda>_. []), net_orderly = True\<rparr>"

text \<open>\<open>A\<close> registers a service, \<open>B\<close> hears of it from \<open>A\<close>, and \<open>C\<close> from \<open>r\<close>.\<close>

definition trio_end :: "peer_id \<Rightarrow> network" where
  "trio_end r = \<lparr>net_nodes = trio_node
       (''A'' := enter_service ''A'' (sample_service ''s'') (trio_node ''A''),
        ''B'' := enter_service ''A'' (sample_service ''s'') (trio_node ''B''),
        ''C'' := enter_service r (sample_service ''s'') (trio_node ''C'')),
     outgoing = (\<lambda>_. []), inbox = (\<lambda>_. [(''A'', ''s'', bytes_of_string ''s'')])(''A'' := [], ''B'' := [], ''C'' := []),
     net_orderly = True\<rparr>"

lemma trio_node_ready: "node_ready (trio_node p)"
  unfolding node_ready_def
  by (rule exI, rule exI [of _ "\<lambda>_ _. Inr p"], rule exI [of _ zero_config], rule exI)
    (auto simp: NewNode_def SetupServiceBroadcastListener_def trio_node_def sample_node_def)

lemmas trio_node_inv = node_ready_inv(1) [OF trio_node_ready]

lemma trio_selfID [simp]: "selfID (trio_node p) = p"
  by (simp add: trio_node_def)


lemma trio_hears:
  assumes "p \<noteq> r"
  shows "broadcast_step sample_unm (Inr \<lparr>msg_ReceivedFrom = r, msg_Data = bytes_of_string ''s''\<rparr>) (trio_node p) =
    Inr (enter_service r (sample_service ''s'') (trio_node p))"
  using assms by (simp add: broadcast_step_def sample_unm_def RegisterRemoteService_eq [OF trio_node_inv])

lemma trio_reach:
  assumes "via ''A'' ''A'' ''A''" "via ''B'' ''A'' ''A''" "via ''C'' ''A'' r" "r \<noteq> ''C''"
  shows "(net_step sample_mar sample_unm (\<lambda>_. ''A'') trio via)\<^sup>*\<^sup>* trio_start (trio_end r)"
proof -
  let ?step = "net_step sample_mar sample_unm (\<lambda>_. ''A'') trio via"
  let ?s = "sample_service ''s''" and ?d = "bytes_of_string ''s''"
  let ?A = "enter_service ''A'' ?s (trio_node ''A'')"
  let ?B = "enter_service ''A'' ?s (trio_node ''B'')"
  have "RegisterLocalService sample_mar (\<lambda>_. None) ?s (net_nodes trio_start ''A'') = Inr (?d, ?A)"
    by (simp add: RegisterLocalService_eq [OF trio_node_inv] trio_start_def BroadcastService_def
        sample_mar_def node_ready_inv(3) [OF trio_node_ready])
  note stored = this
  let ?N0 = "\<lparr>net_nodes = trio_node(''A'' := ?A), outgoing = (\<lambda>_. [])(''A'' := [(''s'', ?d)]), inbox = (\<lambda>_. []),
      net_orderly = True\<rparr>"
  have 0: "?step trio_start ?N0"
    using stored net_store [of "''A''" trio "\<lambda>_. ''A''" ?s sample_mar trio_start ?d ?A sample_unm via]
    by (simp add: trio_start_def trio_def wf_service_def)
  let ?N1 = "\<lparr>net_nodes = trio_node(''A'' := ?A), outgoing = (\<lambda>_. []), inbox = (\<lambda>_. [(''A'', ''s'', ?d)]), net_orderly = True\<rparr>"
  let ?N2 = "?N1\<lparr>inbox := (inbox ?N1)(''A'' := [])\<rparr>"
  let ?N3 = "?N2\<lparr>net_nodes := (net_nodes ?N2)(''B'' := ?B), inbox := (inbox ?N2)(''B'' := [])\<rparr>"
  have 1: "?step ?N0 ?N1"
    using net_publish [of "''A''" trio ?N0 "[]" "''s''" ?d "[]" sample_mar sample_unm "\<lambda>_. ''A''" via]
    by (simp add: trio_def fun_upd_idem)
  have "broadcast_step sample_unm (Inr \<lparr>msg_ReceivedFrom = ''A'', msg_Data = ?d\<rparr>) ?A = Inr ?A"
    using enter_service_step(2) [OF trio_node_inv] by (simp add: broadcast_step_def)
  then have 2: "?step ?N1 ?N2"
    using net_deliver [of "''A''" trio ?N1 "[]" "''A''" "''s''" ?d "[]" via "''A''" sample_unm ?A sample_mar "\<lambda>_. ''A''"] assms(1)
    by (simp add: trio_def fun_upd_idem)
  have 3: "?step ?N2 ?N3"
    using net_deliver [of "''B''" trio ?N2 "[]" "''A''" "''s''" ?d "[]" via "''A''" sample_unm ?B sample_mar "\<lambda>_. ''A''"]
      trio_hears [of "''B''" "''A''"] assms(2)
    by (simp add: trio_def)
  have 4: "?step ?N3 (trio_end r)"
    using net_deliver [of "''C''" trio ?N3 "[]" "''A''" "''s''" ?d "[]" via r sample_unm _ sample_mar "\<lambda>_. ''A''"]
      trio_hears [of "''C''" r] assms(3,4)
    by (simp add: trio_def trio_end_def)
  show ?thesis
    using 0 1 2 3 4 by (meson converse_rtranclp_into_rtranclp rtranclp.rtrancl_refl)
qed

section \<open>Properties\<close>





text \<open>
  C39. Routing follows the forwarder, not the author. There is a network of three gateways and a
  reachable state with every broadcast delivered in which \<open>C\<close>, having received the announcement
  of \<open>A\<close>'s service from its neighbour \<open>B\<close>, sends the requests for that service to \<open>B\<close>, although
  \<open>B\<close> itself routes them to \<open>A\<close>.
\<close>

theorem forwarded_announcement_misroutes:
  "\<exists>via N. via_ok trio via \<and>
     (net_step sample_mar sample_unm (\<lambda>_. ''A'') trio via)\<^sup>*\<^sup>* trio_start N \<and>
     inbox N ''A'' = [] \<and> inbox N ''B'' = [] \<and> inbox N ''C'' = [] \<and>
     servicePeerMapping (net_nodes N ''A'') ''s'' = Some ''A'' \<and>
     servicePeerMapping (net_nodes N ''B'') ''s'' = Some ''A'' \<and>
     servicePeerMapping (net_nodes N ''C'') ''s'' = Some ''B''"
proof -
  let ?via = "\<lambda>q p r :: peer_id. p = ''A'' \<and> r = (if q = ''C'' then ''B'' else ''A'')"
  have "via_ok trio ?via"
    by (auto simp: via_ok_def trio_def)
  moreover have "(net_step sample_mar sample_unm (\<lambda>_. ''A'') trio ?via)\<^sup>*\<^sup>* trio_start (trio_end ''B'')"
    by (rule trio_reach) simp_all
  ultimately show ?thesis
    by (intro exI [of _ ?via] exI [of _ "trio_end ''B''"])
      (simp add: trio_end_def services_enter_service)
qed

end
