(* ===== verification/Framing.thy ===== *)
theory Framing
  imports Go_IO
begin

text \<open>
  Length-prefixed framing, \<open>internal/trans_network/network_helper.go\<close>: every message between
  gateways, agents and clients of the socket service is its length as a big-endian \<open>uint64\<close>
  followed by its bytes.

  \<open>WriteBytesViaStream\<close> and \<open>ReadOneFrameDataFromStream\<close> are the two functions of the file, and
  \<open>ReadBytesViaStream\<close> is a number of iterations of its endless reader loop, giving what it
  sends on its two channels.
\<close>

section \<open>The code\<close>

definition WriteBytesViaStream :: "net_out \<Rightarrow> bytes \<Rightarrow> (go_stop + unit) \<times> net_out" where
  "WriteBytesViaStream w data =
     (let msgLenBytes = be_put 8 (word_of_nat (length data) :: uint64) in
      case conn_write w msgLenBytes of (err, w1) \<Rightarrow>
        (case CheckError err of
           Inl p \<Rightarrow> (Inl p, w1)
         | Inr _ \<Rightarrow> (case conn_write w1 data of (err2, w2) \<Rightarrow> (CheckError err2, w2))))"

definition read_frame :: "bufio \<Rightarrow> (go_stop + (go_error + bytes)) \<times> bufio" where
  "read_frame reader =
     (case ReadFull bufio_read 8 reader of
        (Inl err, r1) \<Rightarrow> (Inr (Inl err), r1)
      | (Inr hdr, r1) \<Rightarrow>
          (let msgLen = (be_get hdr :: uint64) in
           case make_bytes (unat msgLen) of
             Inl p \<Rightarrow> (Inl p, r1)
           | Inr dataBuf \<Rightarrow> (case ReadFull bufio_read (length dataBuf) r1 of
                 (res, r2) \<Rightarrow> (Inr res, r2))))"

definition ReadOneFrameDataFromStream ::
  "reader \<Rightarrow> (go_stop + (go_error + bytes)) \<times> reader" where
  "ReadOneFrameDataFromStream rd =
     (case read_frame (bufio_of rd) of (res, b) \<Rightarrow> (res, hand_back rd b))"

text \<open>
  What the reader goroutine sends: \<open>Data\<close> on the data channel, \<open>Err\<close> on the error channel. The
  channels are unbuffered, so the receiver sees the messages in this order. After an error the
  loop falls through and sends the nil slice as data too.
\<close>

datatype chan_msg = Data bytes | Err go_error

fun ReadBytesViaStream :: "nat \<Rightarrow> reader \<Rightarrow> chan_msg list \<times> go_stop option \<times> reader" where
  "ReadBytesViaStream 0 rd = ([], None, rd)"
| "ReadBytesViaStream (Suc k) rd =
     (case ReadOneFrameDataFromStream rd of
        (Inl p, rd') \<Rightarrow> ([], Some p, rd')
      | (Inr res, rd') \<Rightarrow>
          (case ReadBytesViaStream k rd' of (ms, p, rd'') \<Rightarrow>
             ((case res of Inl err \<Rightarrow> [Err err, Data []] | Inr dataBuf \<Rightarrow> [Data dataBuf]) @ ms,
              p, rd'')))"

section \<open>Frames\<close>

definition frame :: "bytes \<Rightarrow> bytes" where
  "frame d = be_put 8 (word_of_nat (length d) :: uint64) @ d"

lemma length_frame [simp]: "length (frame d) = 8 + length d"
  by (simp add: frame_def)

lemma frame_not_Nil [simp]: "frame d \<noteq> []"
  by (metis add_is_0 length_frame list.size(3) zero_neq_numeral)

lemma unat_frame_length:
  "length d \<le> max_alloc \<Longrightarrow> unat (word_of_nat (length d) :: uint64) = length d"
  by (simp add: unat_of_nat take_bit_nat_eq_self max_alloc_def)

lemma WriteBytesViaStream_ok:
  assumes "werrs w = []"
  shows "WriteBytesViaStream w d =
    (Inr (), w\<lparr>sent := sent w @ [be_put 8 (word_of_nat (length d) :: uint64), d]\<rparr>)"
  using assms by (simp add: WriteBytesViaStream_def Let_def)

lemma read_frame_ok:
  assumes ok: "bufio_ok b" and len: "length d \<le> max_alloc"
    and pend: "bufio_pending b = frame d @ rest"
  shows "\<exists>b'. read_frame b = (Inr (Inr d), b') \<and> bufio_pending b' = rest \<and> bufio_ok b' \<and>
           fin (under b') = fin (under b)"
proof -
  let ?h = "be_put 8 (word_of_nat (length d) :: uint64)"
  have p: "bufio_pending b = ?h @ d @ rest"
    using pend by (simp add: frame_def)
  obtain b1 where b1: "ReadFull bufio_read 8 b = (Inr ?h, b1)"
      "bufio_pending b1 = d @ rest" "bufio_ok b1" "fin (under b1) = fin (under b)"
    using buffered.ReadFull_ok [OF ok, of 8] p by auto
  obtain b2 where b2: "ReadFull bufio_read (length d) b1 = (Inr d, b2)"
      "bufio_pending b2 = rest" "bufio_ok b2" "fin (under b2) = fin (under b1)"
    using buffered.ReadFull_ok [OF b1(3), of "length d"] b1(2) by auto
  show ?thesis
    using b1 b2 len by (simp add: read_frame_def make_bytes_def unat_frame_length)
qed


lemma read_frame_end:
  assumes "bufio_ok b" and "bufio_pending b = []"
  shows "\<exists>b'. read_frame b = (Inr (Inl (fin (under b))), b') \<and> bufio_pending b' = [] \<and>
           bufio_ok b' \<and> fin (under b') = fin (under b)"
  using buffered.ReadFull_short [OF assms(1), of 8] assms(2)
  by (auto simp: read_frame_def short_error_def)

text \<open>Whatever it returns, reading a frame uses up bytes, unless there are none.\<close>

lemma read_frame_progress:
  assumes ok: "bufio_ok b" and r: "read_frame b = (Inr res, b')" and "bufio_pending b \<noteq> []"
  shows "length (bufio_pending b') < length (bufio_pending b)" and "fin (under b') = fin (under b)"
proof -
  have "length (bufio_pending b') < length (bufio_pending b) \<and> fin (under b') = fin (under b)"
  proof (cases "ReadFull bufio_read 8 b")
    case (Pair x b1)
    show ?thesis
    proof (cases x)
      case (Inl err)
      then show ?thesis
        using buffered.ReadFull_InlD [OF ok, of 8 err b1] Pair r assms(3) by (auto simp: read_frame_def)
    next
      case (Inr hdr)
      note h = buffered.ReadFull_InrD [OF ok Pair [unfolded Inr]]
      obtain n where n: "ReadFull bufio_read n b1 = (res, b')"
        using r Pair Inr by (auto simp: read_frame_def Let_def split: sum.splits prod.splits)
      have "length (bufio_pending b') \<le> length (bufio_pending b1) \<and> fin (under b') = fin (under b1)"
        using buffered.ReadFull_InlD [OF h(3), of n _ b'] buffered.ReadFull_InrD [OF h(3), of n _ b'] n
        by (cases res) auto
      then show ?thesis
        using h(1,2,4) by simp
    qed
  qed
  then show "length (bufio_pending b') < length (bufio_pending b)" and "fin (under b') = fin (under b)"
    by simp_all
qed

section \<open>A buffer kept across frames delivers every frame\<close>

definition write_all :: "bytes list \<Rightarrow> net_out \<Rightarrow> net_out" where
  "write_all ms w = fold (\<lambda>d w. snd (WriteBytesViaStream w d)) ms w"

lemma write_all_ok:
  "werrs w = [] \<Longrightarrow>
    werrs (write_all ms w) = [] \<and> out_bytes (write_all ms w) = out_bytes w @ concat (map frame ms)"
  by (induction ms arbitrary: w)
    (simp_all add: write_all_def WriteBytesViaStream_ok out_bytes_def frame_def)

lemma ReadBytesViaStream_buffered:
  assumes "bufio_ok b" and "\<forall>d \<in> set ms. length d \<le> max_alloc"
    and "bufio_pending b = concat (map frame ms) @ rest"
  shows "\<exists>b'. ReadBytesViaStream (length ms) (Buffered b) = (map Data ms, None, Buffered b') \<and>
           bufio_pending b' = rest \<and> bufio_ok b'"
  using assms
proof (induction ms arbitrary: b)
  case Nil
  then show ?case by simp
next
  case (Cons d ms)
  obtain b1 where b1: "read_frame b = (Inr (Inr d), b1)"
      "bufio_pending b1 = concat (map frame ms) @ rest" "bufio_ok b1"
    using read_frame_ok [of b d "concat (map frame ms) @ rest"] Cons.prems by auto
  then show ?case
    using Cons.IH [of b1] Cons.prems(2) by (auto simp: ReadOneFrameDataFromStream_def)
qed

text \<open>
  C1. Framing is transparent. Any list of messages written with \<open>WriteBytesViaStream\<close> on a
  connection that accepts the writes is received, complete and in order, by the reader loop
  \<open>ReadBytesViaStream\<close> started on one buffered reader (as the service agent does), however the
  network cuts the bytes into chunks.
\<close>

theorem frames_delivered:
  assumes "\<forall>d \<in> set ms. length d \<le> max_alloc" and "werrs w = []" and "sent w = []"
    and "conn_pending c = out_bytes (write_all ms w)"
  shows "\<exists>b'. ReadBytesViaStream (length ms) (Buffered (NewReader c)) =
           (map Data ms, None, Buffered b') \<and> bufio_pending b' = []"
proof -
  have "bufio_pending (NewReader c) = concat (map frame ms) @ []"
    using write_all_ok [of w ms] assms(2,3,4) by (simp add: out_bytes_def)
  then show ?thesis
    using ReadBytesViaStream_buffered [of "NewReader c" ms "[]"] assms(1) by auto
qed

theorem frames_delivered_witness:
  "\<exists>b'. ReadBytesViaStream 2 (Buffered (NewReader \<lparr>chunks = [[0, 0, 0], [0, 0, 0, 0, 2, 7],
        [9, 0, 0, 0, 0, 0, 0, 0, 1], [5]], fin = EOF\<rparr>)) =
     ([Data [7, 9], Data [5]], None, Buffered b') \<and> bufio_pending b' = []"
proof -
  let ?ms = "[[7, 9], [5]] :: bytes list"
  let ?c = "\<lparr>chunks = [[0, 0, 0], [0, 0, 0, 0, 2, 7], [9, 0, 0, 0, 0, 0, 0, 0, 1], [5]],
              fin = EOF\<rparr> :: net_in"
  let ?w = "\<lparr>sent = [], werrs = []\<rparr> :: net_out"
  have "\<forall>d \<in> set ?ms. length d \<le> max_alloc"
    by (simp add: max_alloc_def)
  moreover have "conn_pending ?c = out_bytes (write_all ?ms ?w)"
    by code_simp
  ultimately have "\<exists>b'. ReadBytesViaStream (length ?ms) (Buffered (NewReader ?c)) =
      (map Data ?ms, None, Buffered b') \<and> bufio_pending b' = []"
    by (intro frames_delivered [where w = ?w]) simp_all
  then show ?thesis by (simp add: numeral_2_eq_2)
qed



section \<open>A new buffer per frame\<close>

text \<open>
  The stream handlers of the gateway and the socket relays call the reader on the raw stream, so
  each frame is read through a buffer of its own. Whether that works depends on the chunks.
\<close>

lemma read_frame_front:
  assumes ok: "front_ok ds b" and len: "length d \<le> max_alloc"
    and pend: "front_pending ds b = frame d @ rest"
  shows "\<exists>b'. read_frame b = (Inr (Inr d), b') \<and> front_pending ds b' = rest \<and> front_ok ds b' \<and>
           fin (under b') = fin (under b)"
proof -
  let ?h = "be_put 8 (word_of_nat (length d) :: uint64)"
  have p: "front_pending ds b = ?h @ d @ rest"
    using pend by (simp add: frame_def)
  obtain b1 where b1: "ReadFull bufio_read 8 b = (Inr ?h, b1)"
      "front_pending ds b1 = d @ rest" "front_ok ds b1" "fin (under b1) = fin (under b)"
    using front.ReadFull_ok [OF ok, of 8] p by auto
  obtain b2 where b2: "ReadFull bufio_read (length d) b1 = (Inr d, b2)"
      "front_pending ds b2 = rest" "front_ok ds b2" "fin (under b2) = fin (under b1)"
    using front.ReadFull_ok [OF b1(3), of "length d"] b1(2) by auto
  show ?thesis
    using b1 b2 len by (simp add: read_frame_def make_bytes_def unat_frame_length)
qed

lemma read_fresh_aligned:
  assumes "chunks c = cs @ ds" and "[] \<notin> set cs" and "concat cs = frame d"
    and "length d \<le> max_alloc"
  shows "ReadOneFrameDataFromStream (Conn c) = (Inr (Inr d), Conn (c\<lparr>chunks := ds\<rparr>))"
proof -
  obtain b' where b': "read_frame (NewReader c) = (Inr (Inr d), b')"
      "front_pending ds b' = []" "front_ok ds b'" "fin (under b') = fin c"
    using read_frame_front [of ds "NewReader c" d "[]"] front_NewReader [of c cs ds] assms by auto
  have "under b' = c\<lparr>chunks := ds\<rparr>"
    using front_done(1) [OF b'(3,2)] b'(4) by (cases "under b'", cases c) simp
  then show ?thesis
    using b'(1) by (simp add: ReadOneFrameDataFromStream_def)
qed

text \<open>The chunks grouped frame by frame.\<close>

definition aligned :: "bytes list list \<Rightarrow> bytes list \<Rightarrow> bool" where
  "aligned css ms \<longleftrightarrow>
     list_all2 (\<lambda>cs d. [] \<notin> set cs \<and> concat cs = frame d \<and> length d \<le> max_alloc) css ms"

lemma aligned_Cons:
  "aligned css (d # ms) \<longleftrightarrow> (\<exists>cs css'. css = cs # css' \<and> [] \<notin> set cs \<and> concat cs = frame d \<and>
     length d \<le> max_alloc \<and> aligned css' ms)"
  by (auto simp: aligned_def list_all2_Cons2)

lemma aligned_Nil [simp]: "aligned css [] \<longleftrightarrow> css = []"
  by (simp add: aligned_def)

lemma ReadBytesViaStream_aligned:
  assumes "aligned css ms" and "chunks c = concat css @ ds"
  shows "ReadBytesViaStream (length ms) (Conn c) = (map Data ms, None, Conn (c\<lparr>chunks := ds\<rparr>))"
  using assms
proof (induction ms arbitrary: c css)
  case Nil
  then show ?case by (cases c) simp
next
  case (Cons d ms)
  then obtain cs css' where cs: "css = cs # css'" "[] \<notin> set cs" "concat cs = frame d"
      "length d \<le> max_alloc" "aligned css' ms"
    by (auto simp: aligned_Cons)
  then have "ReadOneFrameDataFromStream (Conn c) = (Inr (Inr d), Conn (c\<lparr>chunks := concat css' @ ds\<rparr>))"
    using read_fresh_aligned [of c cs "concat css' @ ds" d] Cons.prems by simp
  then show ?case
    using Cons.IH [of css' "c\<lparr>chunks := concat css' @ ds\<rparr>"] cs(5) by simp
qed

text \<open>
  A new buffer per frame is safe when no chunk holds the end of one frame and the start of
  the next: if the chunks can be grouped frame by frame, the reader loop on the raw stream delivers
  every message in order and leaves exactly the chunks that follow.
\<close>

theorem fresh_reader_aligned:
  assumes "list_all2 (\<lambda>cs d. [] \<notin> set cs \<and> concat cs = frame d \<and> length d \<le> max_alloc) css ms"
    and "chunks c = concat css @ ds"
  shows "ReadBytesViaStream (length ms) (Conn c) = (map Data ms, None, Conn (c\<lparr>chunks := ds\<rparr>))"
  using assms by (intro ReadBytesViaStream_aligned) (simp_all add: aligned_def)

theorem fresh_reader_aligned_witness:
  "ReadBytesViaStream 2 (Conn \<lparr>chunks = [[0, 0, 0, 0, 0, 0, 0, 2], [7], [9],
        [0, 0, 0, 0, 0, 0, 0, 1, 5], [3]], fin = EOF\<rparr>) =
     ([Data [7, 9], Data [5]], None, Conn \<lparr>chunks = [[3]], fin = EOF\<rparr>)"
proof -
  let ?c = "\<lparr>chunks = [[0, 0, 0, 0, 0, 0, 0, 2], [7], [9], [0, 0, 0, 0, 0, 0, 0, 1, 5], [3]],
              fin = EOF\<rparr> :: net_in"
  let ?css = "[[[0, 0, 0, 0, 0, 0, 0, 2], [7], [9]], [[0, 0, 0, 0, 0, 0, 0, 1, 5]]]"
  let ?ms = "[[7, 9], [5]] :: bytes list"
  have f: "frame [7, 9] = [0, 0, 0, 0, 0, 0, 0, 2, 7, 9]" "frame [5] = [0, 0, 0, 0, 0, 0, 0, 1, 5]"
    by code_simp+
  have "ReadBytesViaStream (length ?ms) (Conn ?c) =
      (map Data ?ms, None, Conn (?c\<lparr>chunks := [[3]]\<rparr>))"
    by (rule fresh_reader_aligned [where css = ?css]) (simp_all add: f max_alloc_def)
  then show ?thesis by (simp add: numeral_2_eq_2)
qed

text \<open>
  A new buffer per frame loses data when frames arrive together. If one chunk of at most 4096
  bytes holds a frame and more, then reading that frame from the raw stream also takes the bytes
  after it off the stream, and they are gone: the next read starts at the following chunk.
\<close>

theorem fresh_reader_loses_rest:
  assumes "chunks c = (frame d @ rest) # cs" and "length (frame d @ rest) \<le> defaultBufSize"
  shows "ReadOneFrameDataFromStream (Conn c) = (Inr (Inr d), Conn (c\<lparr>chunks := cs\<rparr>))"
proof -
  let ?h = "be_put 8 (word_of_nat (length d) :: uint64)"
  let ?r = "\<lambda>x. \<lparr>bbuf = x, berr = None, under = c\<lparr>chunks := cs\<rparr>\<rparr>"
  have len: "length d \<le> max_alloc"
    using assms(2) by (simp add: max_alloc_def defaultBufSize_def)
  have "0 < defaultBufSize" by (simp add: defaultBufSize_def)
  then have "conn_read c defaultBufSize = (frame d @ rest, None, c\<lparr>chunks := cs\<rparr>)"
    using conn_read_first [of c "frame d @ rest" cs defaultBufSize] assms by simp
  then have r8: "bufio_read (NewReader c) 8 = (?h, None, ?r (d @ rest))"
    by (simp add: bufio_read_def NewReader_def defaultBufSize_def) (simp add: frame_def)
  then have "ReadFull bufio_read 8 (NewReader c) = (Inr ?h, ?r (d @ rest))"
    by (rule ReadFull_one_read) simp_all
  moreover have "ReadFull bufio_read (length d) (?r (d @ rest)) = (Inr d, ?r rest)"
    using ReadFull_from_buffer [of "length d" "?r (d @ rest)"] by simp
  ultimately show ?thesis
    using len
    by (simp add: ReadOneFrameDataFromStream_def read_frame_def make_bytes_def unat_frame_length)
qed

theorem fresh_reader_loses_rest_witness:
  "ReadOneFrameDataFromStream (Conn \<lparr>chunks = [frame [7, 9] @ frame [5], [3]], fin = EOF\<rparr>) =
     (Inr (Inr [7, 9]), Conn \<lparr>chunks = [[3]], fin = EOF\<rparr>)"
  using fresh_reader_loses_rest
    [of "\<lparr>chunks = [frame [7, 9] @ frame [5], [3]], fin = EOF\<rparr>" "[7, 9]" "frame [5]" "[[3]]"]
  by (simp add: defaultBufSize_def)

section \<open>Bad headers and the end of the stream\<close>

text \<open>
  C38. The length in the header is not checked: eight bytes that announce more than the runtime can
  allocate make the reader panic, whatever else is on the stream and however it is chunked.
\<close>

theorem oversized_header_panics:
  assumes "bufio_ok (bufio_of rd)" and "bufio_pending (bufio_of rd) = be_put 8 (v :: uint64) @ rest"
    and "max_alloc < unat v"
  shows "fst (ReadOneFrameDataFromStream rd) = Inl PanicMakeSlice"
proof -
  obtain b1 where "ReadFull bufio_read 8 (bufio_of rd) = (Inr (be_put 8 v), b1)"
    using buffered.ReadFull_ok [OF assms(1), of 8] assms(2) by auto
  then show ?thesis
    using assms(3)
    by (simp add: ReadOneFrameDataFromStream_def read_frame_def make_bytes_def split: prod.splits)
qed

theorem oversized_header_panics_witness:
  "fst (ReadOneFrameDataFromStream
      (Conn \<lparr>chunks = [be_put 8 (- 1 :: uint64)], fin = EOF\<rparr>)) = Inl PanicMakeSlice"
proof -
  have "max_alloc < unat (- 1 :: uint64)"
    by (simp add: max_alloc_def unsigned_minus_1_eq_mask mask_eq_exp_minus_1)
  then show ?thesis
    by (intro oversized_header_panics [where v = "- 1" and rest = "[]"])
      (simp_all add: conn_pending_def)
qed

text \<open>
  At the end of the stream the reader loop does not stop: in every further iteration it sends
  the end-of-stream error and then, on the data channel, an empty message no peer has sent.
\<close>

theorem reader_loop_at_end:
  assumes "conn_pending c = []"
  shows "fst (ReadBytesViaStream k (Conn c)) = concat (replicate k [Err (fin c), Data []])"
  using assms
proof (induction k arbitrary: c)
  case 0
  then show ?case by simp
next
  case (Suc k)
  obtain b where b: "read_frame (NewReader c) = (Inr (Inl (fin c)), b)"
      "bufio_pending b = []" "fin (under b) = fin c"
    using read_frame_end [of "NewReader c"] Suc.prems by auto
  then have "conn_pending (under b) = []"
    by (simp add: bufio_pending_def)
  from Suc.IH [OF this] show ?case
    using b by (cases "ReadBytesViaStream k (Conn (under b))")
      (simp add: ReadOneFrameDataFromStream_def)
qed

theorem reader_loop_at_end_witness:
  "fst (ReadBytesViaStream 2 (Conn \<lparr>chunks = [], fin = EOF\<rparr>)) =
     [Err EOF, Data [], Err EOF, Data []]"
  using reader_loop_at_end [of "\<lparr>chunks = [], fin = EOF\<rparr>" 2]
  by (simp add: conn_pending_def numeral_2_eq_2)

text \<open>
  A frame cut short by the end of the stream is an error, never data: the reader returns
  \<open>EOF\<close> when nothing at all was left and \<open>ErrUnexpectedEOF\<close> inside the header or the body
  (\<open>EOF\<close> again when exactly the header arrived).
\<close>

theorem truncated_frame_is_error:
  assumes "conn_pending c = take k (frame d)" and "k < length (frame d)" and "fin c = EOF"
    and "length d \<le> max_alloc"
  shows "fst (ReadOneFrameDataFromStream (Conn c)) =
           Inr (Inl (if k = 0 \<or> k = 8 then EOF else ErrUnexpectedEOF))"
proof (cases "k < 8")
  case True
  have p: "length (bufio_pending (NewReader c)) < 8" "bufio_pending (NewReader c) = [] \<longleftrightarrow> k = 0"
    using True assms(1) by (simp_all add: frame_def)
  then show ?thesis
    using buffered.ReadFull_short [of "NewReader c" 8] True assms(3)
    by (auto simp: ReadOneFrameDataFromStream_def read_frame_def short_error_def)
next
  case False
  let ?h = "be_put 8 (word_of_nat (length d) :: uint64)"
  have p: "bufio_pending (NewReader c) = ?h @ take (k - 8) d"
    using False assms(1) by (simp add: frame_def)
  obtain b1 where b1: "ReadFull bufio_read 8 (NewReader c) = (Inr ?h, b1)"
      "bufio_pending b1 = take (k - 8) d" "bufio_ok b1" "fin (under b1) = EOF"
    using buffered.ReadFull_ok [of "NewReader c" 8] p assms(3) by auto
  have lt: "length (bufio_pending b1) < length d" and nil: "bufio_pending b1 = [] \<longleftrightarrow> k = 8"
    using assms(2) False b1(2) by auto
  obtain b2 where "ReadFull bufio_read (length d) b1 =
      (Inl (if k = 8 then EOF else ErrUnexpectedEOF), b2)"
    using buffered.ReadFull_short [OF b1(3) lt] nil b1(4) by (auto simp: short_error_def)
  then show ?thesis
    using b1 False assms(4)
    by (simp add: ReadOneFrameDataFromStream_def read_frame_def make_bytes_def unat_frame_length)
qed

theorem truncated_frame_is_error_witness:
  "fst (ReadOneFrameDataFromStream (Conn \<lparr>chunks = [take 9 (frame [7, 9])], fin = EOF\<rparr>)) =
     Inr (Inl ErrUnexpectedEOF)"
  using truncated_frame_is_error
    [of "\<lparr>chunks = [take 9 (frame [7, 9])], fin = EOF\<rparr>" 9 "[7, 9]"]
  by (simp add: conn_pending_def max_alloc_def)

end
