(* ===== verification/Mgmt.thy ===== *)
theory Mgmt
  imports Node
begin

text \<open>
  The management API, \<open>internal/trans_network/node_mgmt_handler.go\<close>: the table of routes and the
  six handlers. The JSON encoder and decoder and \<open>peer.ID.Pretty\<close> are arguments, as is the order
  in which a handler ranges over a map. A handler's result is the response body it writes (none for
  the two that register) and the node.
\<close>

section \<open>The code\<close>

datatype mgmt_handler =
    listService | newOrUpdateService | deleteService | listLocalService | listRemoteService
  | listServicePeer

definition StartMgmtApiServer :: "(string \<times> string \<times> mgmt_handler) list" where
  "StartMgmtApiServer =
     [(''GET'', ''/service/'', listService),
      (''POST'', ''/service/'', newOrUpdateService),
      (''DELETE'', ''/service/'', deleteService),
      (''GET'', ''/service/local'', listLocalService),
      (''GET'', ''/service/remote'', listRemoteService),
      (''GET'', ''/service/peers'', listServicePeer)]"

text \<open>Indexing a map of services with a missing key gives the zero value.\<close>

definition service_at :: "Node \<Rightarrow> string \<Rightarrow> ApronService" where
  "service_at n k = (case services n k of Some s \<Rightarrow> s | None \<Rightarrow> empty_service)"

definition listServiceHandler ::
  "(ApronService list \<Rightarrow> go_error + 'b) \<Rightarrow> string list \<Rightarrow> Node \<Rightarrow> go_stop + ('b \<times> Node)" where
  "listServiceHandler json ks n =
     bindP (Lock n) (\<lambda>n.
       let rslt = map (service_at n) ks; n' = Unlock n in
       bindP (must (json rslt)) (\<lambda>respBody. Inr (respBody, n')))"

definition listServicePeerHandler ::
  "((string \<rightharpoonup> string) \<Rightarrow> go_error + 'b) \<Rightarrow> (peer_id \<Rightarrow> string) \<Rightarrow> string list \<Rightarrow> Node \<Rightarrow>
     go_stop + ('b \<times> Node)" where
  "listServicePeerHandler json pretty ks n =
     bindP (Lock n) (\<lambda>n.
       let rslt = fold (\<lambda>k m. case servicePeerMapping n k of
                                None \<Rightarrow> m | Some v \<Rightarrow> m(k \<mapsto> pretty v)) ks Map.empty;
           n' = Unlock n in
       bindP (must (json rslt)) (\<lambda>respBody. Inr (respBody, n')))"

definition newOrUpdateServiceHandler ::
  "ApronService marshaller \<Rightarrow> (bytes \<Rightarrow> go_error option) \<Rightarrow> ApronService unmarshaller \<Rightarrow> bytes \<Rightarrow>
     Node \<Rightarrow> go_stop + (bytes \<times> Node)" where
  "newOrUpdateServiceHandler mar publish unjson body n =
     bindP (must (unjson body)) (\<lambda>service. RegisterLocalService mar publish service n)"

definition deleteServiceHandler ::
  "ApronService marshaller \<Rightarrow> (bytes \<Rightarrow> go_error option) \<Rightarrow> ApronService unmarshaller \<Rightarrow> bytes \<Rightarrow>
     Node \<Rightarrow> go_stop + (bytes \<times> Node)" where
  "deleteServiceHandler mar publish unjson body n =
     bindP (must (unjson body)) (\<lambda>service.
       RegisterLocalService mar publish (service\<lparr>svc_IsDeleted := True\<rparr>) n)"

definition listLocalServiceHandler ::
  "(ApronService list \<Rightarrow> go_error + 'b) \<Rightarrow> string list \<Rightarrow> Node \<Rightarrow> go_stop + ('b \<times> Node)" where
  "listLocalServiceHandler json ks n =
     bindP (Lock n) (\<lambda>n.
       let rslt = map (service_at n) (filter (\<lambda>k. servicePeerMapping n k = Some (selfID n)) ks);
           n' = Unlock n in
       bindP (must (json rslt)) (\<lambda>respBody. Inr (respBody, n')))"

definition listRemoteServiceHandler ::
  "(ApronService list \<Rightarrow> go_error + 'b) \<Rightarrow> string list \<Rightarrow> Node \<Rightarrow> go_stop + ('b \<times> Node)" where
  "listRemoteServiceHandler json ks n =
     bindP (Lock n) (\<lambda>n.
       let rslt = map (service_at n) (filter (\<lambda>k. servicePeerMapping n k \<noteq> Some (selfID n)) ks);
           n' = Unlock n in
       bindP (must (json rslt)) (\<lambda>respBody. Inr (respBody, n')))"

section \<open>What the listings hold\<close>

lemma unlocked [simp]: "node_inv n \<Longrightarrow> Unlock (n\<lparr>node_mutex := True\<rparr>) = n"
  by (cases n) (simp add: node_inv_def Unlock_def)

lemma service_at_locked [simp]: "service_at (n\<lparr>node_mutex := b\<rparr>) = service_at n"
  by (simp add: service_at_def fun_eq_iff)

lemma list_handlers_eq:
  assumes "node_inv n"
  shows "listServiceHandler json ks n =
           bindP (must (json (map (service_at n) ks))) (\<lambda>b. Inr (b, n))"
    and "listLocalServiceHandler json ks n =
           bindP (must (json (map (service_at n)
             (filter (\<lambda>k. servicePeerMapping n k = Some (selfID n)) ks)))) (\<lambda>b. Inr (b, n))"
    and "listRemoteServiceHandler json ks n =
           bindP (must (json (map (service_at n)
             (filter (\<lambda>k. servicePeerMapping n k \<noteq> Some (selfID n)) ks)))) (\<lambda>b. Inr (b, n))"
  using assms node_inv_free [OF assms]
  by (simp_all add: listServiceHandler_def listLocalServiceHandler_def listRemoteServiceHandler_def Let_def)

lemma listServicePeerHandler_eq:
  assumes "node_inv n" and "range_order (servicePeerMapping n) ks"
  shows "listServicePeerHandler json pretty ks n =
           bindP (must (json (map_option pretty \<circ> servicePeerMapping n))) (\<lambda>b. Inr (b, n))"
proof -
  let ?f = "\<lambda>k m. case servicePeerMapping n k of None \<Rightarrow> m | Some v \<Rightarrow> m(k \<mapsto> pretty v)"
  have "fold ?f ks m = (\<lambda>k. if k \<in> set ks \<and> servicePeerMapping n k \<noteq> None
      then map_option pretty (servicePeerMapping n k) else m k)" for m
    by (induction ks arbitrary: m) (auto simp: fun_eq_iff split: option.splits)
  then have "fold ?f ks Map.empty = map_option pretty \<circ> servicePeerMapping n"
    using assms(2) by (auto simp: range_order_def fun_eq_iff domIff)
  then show ?thesis
    using assms(1) node_inv_free [OF assms(1)] by (simp add: listServicePeerHandler_def Let_def)
qed

lemma listed_ids:
  assumes "node_inv n" and "set ks \<subseteq> dom (services n)"
  shows "map (svc_Id \<circ> service_at n) ks = ks"
proof (rule map_idI)
  fix k
  assume "k \<in> set ks"
  then obtain s where "services n k = Some s"
    using assms(2) by blast
  then show "(svc_Id \<circ> service_at n) k = k"
    using assms(1) by (simp add: node_inv_def service_at_def)
qed

lemma set_listed:
  assumes "node_inv n" and "range_order (servicePeerMapping n) ks"
  shows "service_at n ` set (filter (\<lambda>k. P (servicePeerMapping n k)) ks) =
           {s. \<exists>k p. directory n k = Some (p, s) \<and> P (Some p)}"
proof -
  have "services n k \<noteq> None" if "servicePeerMapping n k = Some p" for k p
    using that assms(1) domIff unfolding node_inv_def by (metis option.discI)
  then show ?thesis
    using assms(2)
    by (fastforce simp: range_order_def directory_Some_iff service_at_def image_iff split: option.splits)
qed

section \<open>Properties\<close>

text \<open>
  C33. The listings of the management API are consistent: in a state of the registry invariant,
  whatever the iteration orders, the full list is the disjoint union of the local and the remote
  one, the local list holds exactly the services routed to the node itself, the remote one exactly
  those routed to another peer, no id is listed twice, and none of the handlers changes the node
  or leaves its mutex locked.
\<close>

theorem listings_partition:
  assumes "node_inv n" and "range_order (services n) ks"
    and "range_order (servicePeerMapping n) ks1" and "range_order (servicePeerMapping n) ks2"
  shows "\<exists>all loc rem.
     listServiceHandler json ks n = bindP (must (json all)) (\<lambda>b. Inr (b, n)) \<and>
     listLocalServiceHandler json ks1 n = bindP (must (json loc)) (\<lambda>b. Inr (b, n)) \<and>
     listRemoteServiceHandler json ks2 n = bindP (must (json rem)) (\<lambda>b. Inr (b, n)) \<and>
     mset all = mset loc + mset rem \<and> distinct (map svc_Id all) \<and>
     set loc = {s. \<exists>k. directory n k = Some (selfID n, s)} \<and>
     set rem = {s. \<exists>k p. directory n k = Some (p, s) \<and> p \<noteq> selfID n}"
proof -
  let ?loc = "\<lambda>k. servicePeerMapping n k = Some (selfID n)"
  have ms: "mset ks1 = mset ks" "mset ks2 = mset ks"
    using assms range_order_mset unfolding range_order_def node_inv_def
    by (metis set_eq_iff_mset_eq_distinct)+
  have "set ks \<subseteq> dom (services n)" "distinct ks"
    using assms(2) by (auto simp: range_order_def)
  then have ids: "distinct (map svc_Id (map (service_at n) ks))"
    using listed_ids [OF assms(1)] by (simp add: comp_def)
  have part: "mset (map (service_at n) ks) =
      mset (map (service_at n) (filter ?loc ks1)) + mset (map (service_at n) (filter (\<lambda>k. \<not> ?loc k) ks2))"
    by (simp add: ms flip: image_mset_union multiset_partition)
  have sets: "set (map (service_at n) (filter ?loc ks1)) = {s. \<exists>k. directory n k = Some (selfID n, s)}"
    "set (map (service_at n) (filter (\<lambda>k. \<not> ?loc k) ks2)) =
       {s. \<exists>k p. directory n k = Some (p, s) \<and> p \<noteq> selfID n}"
    using set_listed [OF assms(1,3), of "\<lambda>x. x = Some (selfID n)"]
      set_listed [OF assms(1,4), of "\<lambda>x. x \<noteq> Some (selfID n)"] by simp_all
  show ?thesis
    by (rule exI, rule exI, rule exI,
        intro conjI, rule list_handlers_eq(1) [OF assms(1)], rule list_handlers_eq(2) [OF assms(1)],
        rule list_handlers_eq(3) [OF assms(1)], rule part, rule ids, rule sets(1), rule sets(2))
qed

theorem listings_partition_witness:
  "\<exists>all loc rem.
     listServiceHandler Inr [''t'', ''s''] (enter_service ''B'' (sample_service ''t'')
       (enter_service ''A'' (sample_service ''s'') sample_node)) = Inr (all, enter_service ''B''
         (sample_service ''t'') (enter_service ''A'' (sample_service ''s'') sample_node)) \<and>
     mset all = mset loc + mset rem \<and> sample_service ''s'' \<in> set loc \<and> sample_service ''t'' \<in> set rem"
proof -
  let ?n = "enter_service ''B'' (sample_service ''t'') (enter_service ''A'' (sample_service ''s'') sample_node)"
  have m: "services ?n = [''s'' \<mapsto> sample_service ''s'', ''t'' \<mapsto> sample_service ''t'']"
    "servicePeerMapping ?n = [''s'' \<mapsto> ''A'', ''t'' \<mapsto> ''B'']" "selfID ?n = ''A''"
    by (simp_all add: enter_service_def sample_node_def)
  have inv: "node_inv ?n"
    using enter_service_step(1) sample_node_inv by blast
  have ord: "range_order (services ?n) [''t'', ''s'']" "range_order (servicePeerMapping ?n) [''s'', ''t'']"
    by (auto simp: range_order_def m)
  have "directory ?n ''s'' = Some (''A'', sample_service ''s'')"
    "directory ?n ''t'' = Some (''B'', sample_service ''t'')"
    by (simp_all add: directory_Some_iff m)
  then have "sample_service ''s'' \<in> {s. \<exists>k. directory ?n k = Some (selfID ?n, s)}"
    "sample_service ''t'' \<in> {s. \<exists>k p. directory ?n k = Some (p, s) \<and> p \<noteq> selfID ?n}"
    unfolding m(3) by blast+
  moreover obtain all loc rem where
    "listServiceHandler Inr [''t'', ''s''] ?n = Inr (all, ?n)" "mset all = mset loc + mset rem"
    "set loc = {s. \<exists>k. directory ?n k = Some (selfID ?n, s)}"
    "set rem = {s. \<exists>k p. directory ?n k = Some (p, s) \<and> p \<noteq> selfID ?n}"
    using listings_partition [OF inv ord ord(2), where json = Inr] by (elim exE conjE) simp
  ultimately show ?thesis
    by (intro exI [of _ all] exI [of _ loc] exI [of _ rem] conjI) (simp_all only:)
qed

text \<open>
  C34. Registering and deleting through the API. A service posted to a running node is afterwards
  listed as its own and has been published; a delete request with the same id, whatever else its
  body says, removes it from both maps again and leaves every other entry as it was.
\<close>

theorem post_then_delete:
  assumes "node_inv n" and "broadcastServiceTopic n" and "\<forall>d. publish d = None"
    and "unjson body = Inr s" and "\<not> svc_IsDeleted s" and "mar s = Inr data"
    and "unjson body' = Inr s'" and "svc_Id s' = svc_Id s"
    and "mar (s'\<lparr>svc_IsDeleted := True\<rparr>) = Inr data'"
  shows "\<exists>n1 n2. newOrUpdateServiceHandler mar publish unjson body n = Inr (data, n1) \<and>
     directory n1 = (directory n)(svc_Id s \<mapsto> (selfID n, s)) \<and>
     deleteServiceHandler mar publish unjson body' n1 = Inr (data', n2) \<and>
     directory n2 = (directory n)(svc_Id s := None) \<and> node_inv n2"
proof -
  let ?n1 = "enter_service (selfID n) s n" and ?d = "s'\<lparr>svc_IsDeleted := True\<rparr>"
  note e1 = enter_service_step [OF assms(1), of "selfID n" s]
  note e2 = enter_service_step [OF e1(1), of "selfID ?n1" ?d]
  have "newOrUpdateServiceHandler mar publish unjson body n = Inr (data, ?n1)"
    using assms(1-4,6)
    by (simp add: newOrUpdateServiceHandler_def RegisterLocalService_Inr_iff BroadcastService_def)
  moreover have "deleteServiceHandler mar publish unjson body' ?n1 =
      Inr (data', enter_service (selfID ?n1) ?d ?n1)"
    using assms(2,3,7,9) e1(1)
    by (simp add: deleteServiceHandler_def RegisterLocalService_Inr_iff BroadcastService_def)
      (simp add: enter_service_def)
  ultimately show ?thesis
    using e1(3) e2(1) e2(3) assms(5,8) by (intro exI conjI) simp_all
qed

definition plain_json :: "ApronService unmarshaller" where
  "plain_json b = Inr (sample_service (string_of_bytes b))"

theorem post_then_delete_witness:
  "\<exists>n1 n2. newOrUpdateServiceHandler (\<lambda>s. Inr (bytes_of_string (svc_Id s))) (\<lambda>_. None) plain_json
       (bytes_of_string ''s'') sample_node = Inr (bytes_of_string ''s'', n1) \<and>
     directory n1 ''s'' = Some (''A'', sample_service ''s'') \<and>
     deleteServiceHandler (\<lambda>s. Inr (bytes_of_string (svc_Id s))) (\<lambda>_. None) plain_json
       (bytes_of_string ''s'') n1 = Inr (bytes_of_string ''s'', n2) \<and> directory n2 ''s'' = None"
proof -
  have "broadcastServiceTopic sample_node" "selfID sample_node = ''A''"
    by (simp_all add: sample_node_def)
  then show ?thesis
    using post_then_delete [OF sample_node_inv, of "\<lambda>_. None" plain_json "bytes_of_string ''s''"
        "sample_service ''s''" "\<lambda>s. Inr (bytes_of_string (svc_Id s))" "bytes_of_string ''s''"
        "bytes_of_string ''s''" "sample_service ''s''" "bytes_of_string ''s''"]
    by (auto simp: plain_json_def)
qed

end
