(* ===== verification/Http_Proxy.thy ===== *)
theory Http_Proxy
  imports Framing Node Request_Detail Mgmt Go_Net
begin

text \<open>
  Forwarding of HTTP and WebSocket requests: the client side gateway (\<open>csgw_http.go\<close>), the
  service side handlers for requests and for WebSocket data and the client side handler for
  responses (\<open>node_proxy_handler.go\<close>), and the request built for the service
  (\<open>RecoverClientRequest\<close>, \<open>BuildHttpRequestToService\<close> of \<open>internal/models/helper.go\<close>).

  What the repository does not contain is an argument: the marshallers, fasthttp's request dump
  and parser, \<open>peer.ID\<close>'s string form and decoder, \<open>url.Parse\<close>, opening a libp2p stream, dialling
  and writing a WebSocket, performing an HTTP request. A handler started on a stream receives the
  messages that \<open>ReadBytesViaStream\<close> of \<open>Framing\<close> sends on its channels.
\<close>

section \<open>Shared pieces\<close>

fun err_string :: "go_error \<Rightarrow> string" where
  "err_string EOF = ''EOF''"
| "err_string ErrUnexpectedEOF = ''unexpected EOF''"
| "err_string (ErrMsg s) = s"

text \<open>The state after a write, unless it panicked.\<close>

definition commit :: "('e + unit) \<times> 's \<Rightarrow> 'e + 's" where
  "commit r = (case fst r of Inl p \<Rightarrow> Inl p | Inr _ \<Rightarrow> Inr (snd r))"

lemma commit_Inr_iff: "commit r = Inr s \<longleftrightarrow> r = (Inr (), s)"
  by (cases r) (auto simp: commit_def split: sum.splits)

definition ProxyHttpInitReq :: string where "ProxyHttpInitReq = ''/proxy_req/1.0''"
definition ProxyWsDataFromClientSide :: string where "ProxyWsDataFromClientSide = ''/proxy_client_ws_data''"
definition ProxyWsDataFromServiceSide :: string where "ProxyWsDataFromServiceSide = ''/proxy_service_ws_data''"
definition ProxyHttpRespFromServiceSide :: string where "ProxyHttpRespFromServiceSide = ''/proxy_service_http_data''"
definition ProxySocketInitReq :: string where "ProxySocketInitReq = ''/proxy_client_socket_init''"
definition ProxySocketDataFromClientSide :: string where "ProxySocketDataFromClientSide = ''/proxy_client_socket_data''"
definition ProxySocketDataFromServiceSide :: string where "ProxySocketDataFromServiceSide = ''/proxy_service_socket_data''"

lemmas protocol_defs = ProxyHttpInitReq_def ProxyWsDataFromClientSide_def ProxyWsDataFromServiceSide_def
  ProxyHttpRespFromServiceSide_def ProxySocketInitReq_def ProxySocketDataFromClientSide_def
  ProxySocketDataFromServiceSide_def

datatype stream_handler =
    ProxyHttpInitRequest | ProxyWsData | ProxyHttpResp | ProxySocketInit | ProxySocketData

definition SetProxyStreamHandlers :: "string \<rightharpoonup> stream_handler" where
  "SetProxyStreamHandlers =
     [ProxyHttpInitReq \<mapsto> ProxyHttpInitRequest,
      ProxyWsDataFromClientSide \<mapsto> ProxyWsData,
      ProxyWsDataFromServiceSide \<mapsto> ProxyWsData,
      ProxyHttpRespFromServiceSide \<mapsto> ProxyHttpResp,
      ProxySocketInitReq \<mapsto> ProxySocketInit,
      ProxySocketDataFromClientSide \<mapsto> ProxySocketData,
      ProxySocketDataFromServiceSide \<mapsto> ProxySocketData]"

text \<open>
  The body of all four forwarding loops: a piece of data is wrapped with its request id,
  marshalled and written to the stream as a frame.
\<close>

definition forward_data ::
  "ApronServiceData marshaller \<Rightarrow> string \<Rightarrow> bytes \<Rightarrow> net_out \<Rightarrow> (go_stop + unit) \<times> net_out" where
  "forward_data mar requestId msgBytes stream =
     (case mar \<lparr>dat_RequestId = requestId, dat_RawData = msgBytes\<rparr> of
        Inl err \<Rightarrow> (Inl (PanicErr err), stream)
      | Inr forwardDataBytes \<Rightarrow> WriteBytesViaStream stream forwardDataBytes)"

section \<open>The client side gateway (csgw_http.go)\<close>

record http_ctx =
  ctx_status :: nat
  ctx_body :: bytes

definition new_ctx :: http_ctx where
  "new_ctx = \<lparr>ctx_status = 200, ctx_body = []\<rparr>"

text \<open>\<open>ctx.Error\<close> replaces the response, \<open>ctx.Write\<close> appends to its body.\<close>

definition ctx_Error :: "string \<Rightarrow> nat \<Rightarrow> http_ctx \<Rightarrow> http_ctx" where
  "ctx_Error msg code ctx = \<lparr>ctx_status = code, ctx_body = bytes_of_string msg\<rparr>"

definition ctx_Write :: "bytes \<Rightarrow> http_ctx \<Rightarrow> http_ctx" where
  "ctx_Write d ctx = ctx\<lparr>ctx_body := ctx_body ctx @ d\<rparr>"

text \<open>
  How the handler of \<open>StartForwardService\<close> leaves: with an answer to the client, or with the
  request written to a stream to the peer, after which \<open>serveWebsocketRequest\<close> or
  \<open>serveHttpRequest\<close> goes on.
\<close>

datatype forward_outcome =
    Answered http_ctx
  | Forwarded http_ctx peer_id ApronServiceRequest net_out

definition StartForwardService ::
  "ApronServiceRequest marshaller \<Rightarrow> (peer_id \<Rightarrow> string) \<Rightarrow> (peer_id \<Rightarrow> string \<Rightarrow> go_error + net_out) \<Rightarrow>
     go_error + bytes \<Rightarrow> http_request \<Rightarrow> bool \<Rightarrow> string \<Rightarrow> handle \<Rightarrow> Node \<Rightarrow>
     go_stop + (forward_outcome \<times> Node)" where
  "StartForwardService mar id_string newStream dump req isWs uuid msgCh n =
     bindP (must dump) (\<lambda>rawReq.
       case ExtractRequestDetailFromFasthttpRequest req zero_detail of (err, clientReqDetail) \<Rightarrow>
       let ctx = (case err of
                    None \<Rightarrow> new_ctx
                  | Some e \<Rightarrow> ctx_Error (''ClientSideGateway: extract service name error: '' @ err_string e)
                      500 new_ctx);
           serviceNameStr = det_ServiceName clientReqDetail in
       bindP (Lock n) (\<lambda>n.
         case servicePeerMapping n serviceNameStr of
           None \<Rightarrow> Inr (Answered (ctx_Error ''ClientSideGateway: Service not found'' 404 ctx), Unlock n)
         | Some servicePeerId \<Rightarrow>
             (case services n serviceNameStr of
                None \<Rightarrow> Inr (Answered
                  (ctx_Error ''ClientSideGateway: Service data missing, contract help'' 500 ctx), Unlock n)
              | Some service \<Rightarrow>
                  let n = Unlock n in
                  if length (svc_Providers service) < 1
                  then Inr (Answered
                    (ctx_Error ''ClientSideGateway: Service data error, contract help'' 500 ctx), n)
                  else
                    let requestId = make_request_id (det_UserKey clientReqDetail) (GetId (Some service)) uuid;
                        request = \<lparr>req_ServiceId = GetId (Some service), req_RequestId = requestId,
                          req_PeerId = id_string (node_Host n), req_IsWsRequest = isWs,
                          req_RawRequest = rawReq\<rparr>;
                        n = n\<lparr>requestIdChanMapping := (requestIdChanMapping n)(requestId \<mapsto> msgCh)\<rparr> in
                    (case newStream servicePeerId ProxyHttpInitReq of
                       Inl e \<Rightarrow> Inr (Answered (ctx_Error (err_string e) 500 ctx), n)
                     | Inr s \<Rightarrow>
                         bindP (must (mar request)) (\<lambda>reqBytes.
                         bindP (commit (WriteBytesViaStream s reqBytes)) (\<lambda>s'.
                           Inr (Forwarded ctx servicePeerId request s', n)))))))"

text \<open>
  \<open>serveHttpRequest\<close> in the two steps between which it waits: making the response channel, and
  writing what was received on it.
\<close>

definition serveHttpRequest_wait :: "ApronServiceRequest \<Rightarrow> handle \<Rightarrow> Node \<Rightarrow> Node" where
  "serveHttpRequest_wait req ch n =
     n\<lparr>clientHttpDataChan := (clientHttpDataChan n)(req_RequestId req \<mapsto> ch)\<rparr>"

definition serveHttpRequest_done :: "ApronServiceRequest \<Rightarrow> bytes \<Rightarrow> http_ctx \<Rightarrow> Node \<Rightarrow> http_ctx \<times> Node" where
  "serveHttpRequest_done req respData ctx n =
     (ctx_Write respData ctx,
      n\<lparr>clientHttpDataChan := (clientHttpDataChan n)(req_RequestId req := None)\<rparr>)"

text \<open>
  \<open>serveWebsocketRequest\<close> registers the upgraded connection and forwards the client's messages
  until one cannot be read. The goroutine recovers from panics, so a failing marshaller or write
  ends it quietly. The stream for them is opened first, and an error of \<open>NewStream\<close> is overwritten:
  the nil stream panics at the first use, recovered as well. The result is the node and what was
  written to the data stream.
\<close>

type_synonym ws_message = "nat \<times> bytes"

definition TextMessage :: nat where "TextMessage = 1"
definition BinaryMessage :: nat where "BinaryMessage = 2"

fun ws_client_loop ::
  "ApronServiceData marshaller \<Rightarrow> string \<Rightarrow> (go_error + ws_message) list \<Rightarrow> net_out \<Rightarrow> net_out" where
  "ws_client_loop mar rid [] stream = stream"
| "ws_client_loop mar rid (Inl err # ms) stream = stream"
| "ws_client_loop mar rid (Inr (_, msgBytes) # ms) stream =
     (case forward_data mar rid msgBytes stream of
        (Inl p, stream') \<Rightarrow> stream'
      | (Inr _, stream') \<Rightarrow> ws_client_loop mar rid ms stream')"

definition serveWebsocketRequest ::
  "ApronServiceData marshaller \<Rightarrow> (peer_id \<Rightarrow> string \<Rightarrow> go_error + net_out) \<Rightarrow> go_error + handle \<Rightarrow> peer_id \<Rightarrow>
     ApronServiceRequest \<Rightarrow> (go_error + ws_message) list \<Rightarrow> Node \<Rightarrow> go_stop + (net_out option \<times> Node)" where
  "serveWebsocketRequest mar newStream upgrade peerId req msgs n =
     (let dataStream = newStream peerId ProxyWsDataFromClientSide in
      bindP (must upgrade) (\<lambda>clientWsConn.
        let n' = n\<lparr>clientWsConns := (clientWsConns n)(req_RequestId req \<mapsto> clientWsConn)\<rparr> in
        case dataStream of
          Inl err \<Rightarrow> Inr (None, n')
        | Inr s \<Rightarrow> Inr (Some (ws_client_loop mar (req_RequestId req) msgs s), n')))"

section \<open>The request to the service (helper.go)\<close>

text \<open>\<open>path.Clean\<close> and \<open>path.Join\<close> of two elements.\<close>

fun split_slash :: "string \<Rightarrow> string list" where
  "split_slash [] = [[]]"
| "split_slash (c # cs) =
     (if c = CHR ''/'' then [] # split_slash cs
      else (case split_slash cs of s # ss \<Rightarrow> (c # s) # ss | [] \<Rightarrow> [[c]]))"

definition clean_step :: "bool \<Rightarrow> string list \<Rightarrow> string \<Rightarrow> string list" where
  "clean_step rooted st e =
     (if e = '''' \<or> e = ''.'' then st
      else if e = ''..'' then
        (if st \<noteq> [] \<and> last st \<noteq> ''..'' then butlast st else if rooted then st else st @ [e])
      else st @ [e])"

definition path_Clean :: "string \<Rightarrow> string" where
  "path_Clean p =
     (let rooted = (take 1 p = ''/'');
          segs = foldl (clean_step rooted) [] (split_slash p) in
      if rooted then ''/'' @ join ''/'' segs
      else if segs = [] then ''.'' else join ''/'' segs)"

definition path_Join :: "string \<Rightarrow> string \<Rightarrow> string" where
  "path_Join a b =
     (let elems = filter (\<lambda>e. e \<noteq> '''') [a, b] in
      if elems = [] then '''' else path_Clean (join ''/'' elems))"

text \<open>
  The outgoing request. \<open>url_parse\<close> is \<open>url.Parse\<close>: the path of the URL and how the URL prints with
  another path in its place; \<open>uri_args\<close> are the query arguments fasthttp finds in a URI.
\<close>

record service_request =
  sr_URI :: string
  sr_QueryArgs :: "(string \<times> string) list"
  sr_Method :: string
  sr_Headers :: "(string \<times> string) list"
  sr_Body :: bytes

type_synonym url_parser = "string \<Rightarrow> go_error + (string \<times> (string \<Rightarrow> string))"

definition BuildHttpRequestToService ::
  "url_parser \<Rightarrow> (string \<Rightarrow> (string \<times> string) list) \<Rightarrow> RequestDetail \<Rightarrow> http_request \<Rightarrow> ApronService \<Rightarrow>
     go_stop + (go_error + service_request)" where
  "BuildHttpRequestToService url_parse uri_args reqDetail httpReq serviceDetail =
     (case svc_Providers serviceDetail of
        [] \<Rightarrow> Inl PanicIndex
      | provider # _ \<Rightarrow>
          (case url_parse (GetSchema provider @ ''://'' @ GetBaseUrl provider) of
             Inl err \<Rightarrow> Inr (Inl err)
           | Inr (urlPath, urlString) \<Rightarrow>
               let clientSideQueryArgs = hr_QueryArgs httpReq;
                   uri = urlString (path_Join urlPath (det_ProxyRequestPath reqDetail)) in
               Inr (Inr \<lparr>sr_URI = uri, sr_QueryArgs = uri_args uri @ clientSideQueryArgs,
                 sr_Method = hr_Method httpReq, sr_Headers = hr_Headers httpReq,
                 sr_Body = hr_Body httpReq\<rparr>)))"

text \<open>\<open>read\<close> is \<open>Request.Read\<close> of fasthttp.\<close>

definition RecoverClientRequest ::
  "(bytes \<Rightarrow> go_error + http_request) \<Rightarrow> ApronServiceRequest \<Rightarrow> go_error + http_request" where
  "RecoverClientRequest read svrReq = bindP (read (req_RawRequest svrReq)) (\<lambda>httpReq. Inr httpReq)"

lemma RecoverClientRequest_eq [simp]: "RecoverClientRequest read r = read (req_RawRequest r)"
  by (cases "read (req_RawRequest r)") (simp_all add: RecoverClientRequest_def)

section \<open>The service side gateway (node_proxy_handler.go)\<close>

record ssgw_env =
  env_unm_req :: "ApronServiceRequest unmarshaller"
  env_mar_data :: "ApronServiceData marshaller"
  env_recover :: "bytes \<Rightarrow> go_error + http_request"
  env_peer_decode :: "string \<Rightarrow> go_error + peer_id"
  env_url_parse :: url_parser
  env_uri_args :: "string \<Rightarrow> (string \<times> string) list"
  env_newStream :: "peer_id \<Rightarrow> string \<Rightarrow> go_error + net_out"
  env_http_do :: "service_request \<Rightarrow> go_error + bytes"
  env_ws_dial :: "string \<Rightarrow> go_error + (handle \<times> (go_error + ws_message) list)"

text \<open>
  The goroutine that forwards the service's WebSocket messages; here nothing recovers, so an error
  of any step is a panic. It also ends the process when the service closes the connection.
\<close>

fun ws_service_loop ::
  "ApronServiceData marshaller \<Rightarrow> string \<Rightarrow> (go_error + ws_message) list \<Rightarrow> net_out \<Rightarrow>
     go_stop option \<times> net_out" where
  "ws_service_loop mar rid [] stream = (None, stream)"
| "ws_service_loop mar rid (Inl err # ms) stream = (Some (PanicErr err), stream)"
| "ws_service_loop mar rid (Inr (_, msgBytes) # ms) stream =
     (case forward_data mar rid msgBytes stream of
        (Inl p, stream') \<Rightarrow> (Some p, stream')
      | (Inr _, stream') \<Rightarrow> ws_service_loop mar rid ms stream')"

datatype ssgw_outcome =
    HttpAnswered peer_id net_out
  | WsServed peer_id "go_stop option" net_out

definition ProxyHttpInitRequestHandler ::
  "ssgw_env \<Rightarrow> chan_msg \<Rightarrow> Node \<Rightarrow> go_stop + (ssgw_outcome \<times> Node)" where
  "ProxyHttpInitRequestHandler env msg n =
     (case msg of
        Err errMsg \<Rightarrow> Inl (PanicLog ''read data stream error'')
      | Data proxyReqBytes \<Rightarrow>
          bindP (must (env_unm_req env proxyReqBytes)) (\<lambda>proxyReq.
          bindP (must (RecoverClientRequest (env_recover env) proxyReq)) (\<lambda>httpReq.
            let clientReqDetail = snd (ExtractRequestDetailFromFasthttpRequest httpReq zero_detail) in
          bindP (must (env_peer_decode env (req_PeerId proxyReq))) (\<lambda>peerId.
            let serviceDetail = service_at n (req_ServiceId proxyReq) in
          bindP (BuildHttpRequestToService (env_url_parse env) (env_uri_args env) clientReqDetail httpReq
                   serviceDetail) (\<lambda>r.
          bindP (must r) (\<lambda>reqToService.
            if req_IsWsRequest proxyReq then
              bindP (must (env_newStream env peerId ProxyWsDataFromServiceSide)) (\<lambda>respStream.
              bindP (must (env_ws_dial env (sr_URI reqToService))) (\<lambda>(serviceWsConn, msgs).
                let n' = n\<lparr>serviceWsConns := (serviceWsConns n)(req_RequestId proxyReq \<mapsto> serviceWsConn)\<rparr> in
                case ws_service_loop (env_mar_data env) (req_RequestId proxyReq) msgs respStream of
                  (p, respStream') \<Rightarrow> Inr (WsServed peerId p respStream', n')))
            else
              bindP (must (env_newStream env peerId ProxyHttpRespFromServiceSide)) (\<lambda>respStream.
              bindP (must (env_http_do env reqToService)) (\<lambda>respBody.
              bindP (commit (forward_data (env_mar_data env) (req_RequestId proxyReq) respBody respStream))
                (\<lambda>respStream'. Inr (HttpAnswered peerId respStream', n))))))))))"

text \<open>
  One message of \<open>ProxyWsDataHandler\<close> on a stream of protocol \<open>proto\<close>: the WebSocket write it makes.
  A missing connection is a nil pointer, whose \<open>WriteMessage\<close> panics.
\<close>

definition ProxyWsDataHandler ::
  "ApronServiceData unmarshaller \<Rightarrow> (handle \<Rightarrow> ws_message \<Rightarrow> go_error option) \<Rightarrow> string \<Rightarrow> chan_msg \<Rightarrow> Node \<Rightarrow>
     go_stop + (handle \<times> ws_message)" where
  "ProxyWsDataHandler unm writeMessage proto msg n =
     (case msg of
        Err errMsg \<Rightarrow> Inl (PanicLog ''read data stream error'')
      | Data proxyDataBytes \<Rightarrow>
          bindP (must (unm proxyDataBytes)) (\<lambda>proxyData.
            let write = (\<lambda>conns. case conns (dat_RequestId proxyData) of
                  None \<Rightarrow> Inl PanicNil
                | Some conn \<Rightarrow> bindP (CheckError (writeMessage conn (TextMessage, dat_RawData proxyData)))
                    (\<lambda>_. Inr (conn, (TextMessage, dat_RawData proxyData)))) in
            if proto = ProxyWsDataFromClientSide then write (serviceWsConns n)
            else if proto = ProxyWsDataFromServiceSide then write (clientWsConns n)
            else Inl (PanicErr (ErrMsg (''wrong protocol: '' @ proto)))))"

text \<open>One message of \<open>ProxyHttpRespHandler\<close>: the send on a response channel. A nil channel blocks for ever.\<close>

definition ProxyHttpRespHandler ::
  "ApronServiceData unmarshaller \<Rightarrow> chan_msg \<Rightarrow> Node \<Rightarrow> go_stop + (handle \<times> bytes)" where
  "ProxyHttpRespHandler unm msg n =
     (case msg of
        Err errMsg \<Rightarrow> Inl (PanicLog ''read data stream error'')
      | Data proxyDataBytes \<Rightarrow>
          bindP (must (unm proxyDataBytes)) (\<lambda>proxyData.
            case clientHttpDataChan n (dat_RequestId proxyData) of
              None \<Rightarrow> Inl Blocked
            | Some ch \<Rightarrow> Inr (ch, dat_RawData proxyData)))"

section \<open>One frame over a stream\<close>

lemma one_frame:
  assumes "werrs s = []" and "sent s = []" and "length d \<le> max_alloc"
    and "conn_pending c = out_bytes (snd (WriteBytesViaStream s d))"
  shows "\<exists>c'. ReadBytesViaStream 1 (Conn c) = ([Data d], None, Conn c')"
proof -
  have "bufio_pending (NewReader c) = frame d @ []"
    using assms by (simp add: WriteBytesViaStream_ok out_bytes_def frame_def)
  then obtain b where "read_frame (NewReader c) = (Inr (Inr d), b)"
    using read_frame_ok [of "NewReader c" d "[]"] assms(3) by auto
  then show ?thesis
    by (simp add: ReadOneFrameDataFromStream_def)
qed

lemma commit_write: "werrs s = [] \<Longrightarrow> commit (WriteBytesViaStream s d) = Inr (snd (WriteBytesViaStream s d))"
  by (simp add: WriteBytesViaStream_ok commit_def)

section \<open>What the forwarding handler does\<close>

definition first_ctx :: "go_error option \<Rightarrow> http_ctx" where
  "first_ctx err = (case err of None \<Rightarrow> new_ctx
     | Some e \<Rightarrow> ctx_Error (''ClientSideGateway: extract service name error: '' @ err_string e) 500 new_ctx)"

definition client_request_for ::
  "(peer_id \<Rightarrow> string) \<Rightarrow> bytes \<Rightarrow> bool \<Rightarrow> string \<Rightarrow> RequestDetail \<Rightarrow> ApronService \<Rightarrow> Node \<Rightarrow> ApronServiceRequest" where
  "client_request_for id_string raw isWs uuid d s n =
     \<lparr>req_ServiceId = svc_Id s, req_RequestId = make_request_id (det_UserKey d) (svc_Id s) uuid,
      req_PeerId = id_string (node_Host n), req_IsWsRequest = isWs, req_RawRequest = raw\<rparr>"

definition note_request :: "string \<Rightarrow> handle \<Rightarrow> Node \<Rightarrow> Node" where
  "note_request rid ch n = n\<lparr>requestIdChanMapping := (requestIdChanMapping n)(rid \<mapsto> ch)\<rparr>"

lemma note_request_simps [simp]:
  "node_inv (note_request rid ch n) = node_inv n" "directory (note_request rid ch n) = directory n"
  "clientHttpDataChan (note_request rid ch n) = clientHttpDataChan n"
  "node_Host (note_request rid ch n) = node_Host n"
  by (auto simp: note_request_def node_inv_def directory_def fun_eq_iff)

text \<open>
  In a state of the registry invariant one lookup decides; the branch "service data missing" is
  never taken.
\<close>

lemma StartForwardService_eq:
  assumes "node_inv n" and ex: "ExtractRequestDetailFromFasthttpRequest req zero_detail = (err, d)"
  shows "StartForwardService mar id_string newStream (Inr raw) req isWs uuid ch n =
    (case directory n (det_ServiceName d) of
       None \<Rightarrow> Inr (Answered (ctx_Error ''ClientSideGateway: Service not found'' 404 (first_ctx err)), n)
     | Some (p, s) \<Rightarrow>
         if svc_Providers s = []
         then Inr (Answered (ctx_Error ''ClientSideGateway: Service data error, contract help'' 500 (first_ctx err)), n)
         else
           let request = client_request_for id_string raw isWs uuid d s n;
               n' = note_request (req_RequestId request) ch n in
           (case newStream p ProxyHttpInitReq of
              Inl e \<Rightarrow> Inr (Answered (ctx_Error (err_string e) 500 (first_ctx err)), n')
            | Inr st \<Rightarrow> bindP (must (mar request)) (\<lambda>reqBytes.
                bindP (commit (WriteBytesViaStream st reqBytes)) (\<lambda>st'.
                  Inr (Forwarded (first_ctx err) p request st', n')))))"
proof -
  let ?k = "det_ServiceName d"
  have free: "\<not> node_mutex n" and unl: "Unlock (n\<lparr>node_mutex := True\<rparr>) = n"
    using assms(1) by (simp_all add: node_inv_free)
  show ?thesis
  proof (cases "directory n ?k")
    case None
    then have "servicePeerMapping n ?k = None"
      using node_inv_maps(1) [OF assms(1), of ?k] by simp
    then show ?thesis
      using None free unl ex by (simp add: StartForwardService_def first_ctx_def Let_def)
  next
    case (Some ps)
    obtain p s where ps: "ps = (p, s)" by fastforce
    then have m: "servicePeerMapping n ?k = Some p" "services n ?k = Some s"
      using node_inv_maps [OF assms(1), of ?k] Some by simp_all
    show ?thesis
      using Some ps m free unl ex
      by (simp add: StartForwardService_def first_ctx_def Let_def client_request_for_def note_request_def
          less_Suc_eq_0_disj Suc_le_eq cong: sum.case_cong prod.case_cong)
  qed
qed

section \<open>Properties\<close>

text \<open>
  C23. Requests are forwarded where the registry says, and attributed to their user: whenever the
  client side gateway forwards a request, the peer and the service are the registry's entry for
  the service id in the path, the request names that service and this gateway, what went out is
  one frame with the marshalled request, the accounting extracts the user key and the service id
  from the request id (when they have no dots), and the registry is unchanged with its mutex free.
\<close>

theorem forward_sound:
  assumes "node_inv n" and "ExtractRequestDetailFromFasthttpRequest req zero_detail = (err, d)"
    and "StartForwardService mar id_string newStream (Inr raw) req isWs uuid ch n =
           Inr (Forwarded ctx p request st, n')"
  shows "\<exists>s reqBytes st0. servicePeerMapping n (det_ServiceName d) = Some p \<and>
     services n (det_ServiceName d) = Some s \<and> svc_Providers s \<noteq> [] \<and>
     req_ServiceId request = svc_Id s \<and> req_PeerId request = id_string (node_Host n) \<and>
     req_RawRequest request = raw \<and> req_IsWsRequest request = isWs \<and>
     mar request = Inr reqBytes \<and> newStream p ProxyHttpInitReq = Inr st0 \<and>
     WriteBytesViaStream st0 reqBytes = (Inr (), st) \<and>
     (no_dot (det_UserKey d) \<and> no_dot (svc_Id s) \<longrightarrow>
        ExtractServiceInfoFromRequestID (req_RequestId request) = Inr (det_UserKey d, svc_Id s)) \<and>
     node_inv n' \<and> directory n' = directory n"
proof -
  obtain s where s: "directory n (det_ServiceName d) = Some (p, s)" "svc_Providers s \<noteq> []"
      "request = client_request_for id_string raw isWs uuid d s n"
      "n' = note_request (req_RequestId request) ch n"
    and "\<exists>st0 b. newStream p ProxyHttpInitReq = Inr st0 \<and> mar request = Inr b \<and>
           WriteBytesViaStream st0 b = (Inr (), st)"
    using assms(3) StartForwardService_eq [OF assms(1,2), of mar id_string newStream raw isWs uuid ch]
    by (auto simp: Let_def bindP_Inr_iff must_Inr_iff commit_Inr_iff
        split: option.splits if_splits sum.splits prod.splits)
  then show ?thesis
    using assms(1) Extract_ok [of "det_UserKey d" "svc_Id s" uuid]
    by (auto simp: client_request_for_def directory_Some_iff make_request_id_def)
qed

definition sample_req :: http_request where
  "sample_req = \<lparr>hr_Host = ''gw'', hr_Path = ''/v1/httpbin_01alice/get'', hr_Method = ''GET'',
     hr_Headers = [], hr_QueryArgs = [(''q'', ''1'')], hr_Body = []\<rparr>"

definition sample_csgw :: Node where
  "sample_csgw = enter_service ''B'' (sample_service ''httpbin_01'') sample_node"

definition no_stream :: net_out where
  "no_stream = \<lparr>sent = [], werrs = []\<rparr>"

definition sample_mar_req :: "ApronServiceRequest marshaller" where
  "sample_mar_req r = Inr (bytes_of_string (req_RequestId r))"

lemma sample_extract:
  "fst (ExtractRequestDetailFromFasthttpRequest sample_req zero_detail) = None"
  "det_ServiceName (snd (ExtractRequestDetailFromFasthttpRequest sample_req zero_detail)) = ''httpbin_01''"
  "det_UserKey (snd (ExtractRequestDetailFromFasthttpRequest sample_req zero_detail)) = ''alice''"
  "det_ProxyRequestPath (snd (ExtractRequestDetailFromFasthttpRequest sample_req zero_detail)) = ''get''"
  by code_simp+

lemma sample_csgw_facts:
  "node_inv sample_csgw" "directory sample_csgw ''httpbin_01'' = Some (''B'', sample_service ''httpbin_01'')"
  "node_Host sample_csgw = ''A''" "clientHttpDataChan sample_csgw = Map.empty"
proof -
  show "node_inv sample_csgw"
    unfolding sample_csgw_def by (rule enter_service_step(1) [OF sample_node_inv])
qed (simp_all add: sample_csgw_def directory_Some_iff enter_service_def sample_node_def)

definition sample_request :: ApronServiceRequest where
  "sample_request = \<lparr>req_ServiceId = ''httpbin_01'', req_RequestId = ''alice.httpbin_01.77'',
     req_PeerId = ''A'', req_IsWsRequest = False, req_RawRequest = [1]\<rparr>"

lemma sample_client_request:
  assumes "ExtractRequestDetailFromFasthttpRequest sample_req zero_detail = (err, d)"
  shows "client_request_for id [1] False ''77'' d (sample_service ''httpbin_01'') sample_csgw = sample_request"
  using sample_extract(3) assms sample_csgw_facts(3)
  by (simp add: client_request_for_def sample_request_def make_request_id_def)

lemma sample_forward:
  "StartForwardService sample_mar_req id (\<lambda>_ _. Inr no_stream) (Inr [1]) sample_req False ''77'' 3 sample_csgw =
     Inr (Forwarded new_ctx ''B'' sample_request
            (snd (WriteBytesViaStream no_stream (bytes_of_string ''alice.httpbin_01.77''))),
          note_request ''alice.httpbin_01.77'' 3 sample_csgw)"
proof -
  obtain err d where e: "ExtractRequestDetailFromFasthttpRequest sample_req zero_detail = (err, d)"
    by fastforce
  have "commit (WriteBytesViaStream no_stream x) = Inr (snd (WriteBytesViaStream no_stream x))" for x
    by (rule commit_write) (simp add: no_stream_def)
  moreover have "sample_mar_req sample_request = Inr (bytes_of_string ''alice.httpbin_01.77'')"
    "req_RequestId sample_request = ''alice.httpbin_01.77''"
    by (simp_all add: sample_mar_req_def sample_request_def)
  ultimately show ?thesis
    using StartForwardService_eq [OF sample_csgw_facts(1) e] sample_client_request [OF e]
      sample_extract(1,2) sample_csgw_facts(2)
    by (simp add: e first_ctx_def Let_def)
qed

theorem forward_sound_witness:
  "\<exists>s. servicePeerMapping sample_csgw ''httpbin_01'' = Some ''B'' \<and> services sample_csgw ''httpbin_01'' = Some s \<and>
     ExtractServiceInfoFromRequestID (req_RequestId sample_request) = Inr (''alice'', svc_Id s)"
proof -
  obtain err d where e: "ExtractRequestDetailFromFasthttpRequest sample_req zero_detail = (err, d)"
    by fastforce
  have "det_ServiceName d = ''httpbin_01''" "det_UserKey d = ''alice''"
    using sample_extract(2,3) e by simp_all
  then show ?thesis
    using forward_sound [OF sample_csgw_facts(1) e sample_forward]
      sample_csgw_facts(2) by (auto simp: directory_Some_iff no_dot_def)
qed

text \<open>
  A request with a malformed path is answered with 404: the handler writes an error with
  status 500 first but does not return, goes on with the empty service name and replaces the
  answer (as long as no service is registered under the empty id).
\<close>

theorem malformed_path_gets_404:
  assumes "node_inv n" and "ExtractRequestDetailFromFasthttpRequest req zero_detail = (Some e, d)"
    and "services n '''' = None"
  shows "\<exists>ctx. StartForwardService mar id_string newStream (Inr raw) req isWs uuid ch n = Inr (Answered ctx, n) \<and>
           ctx_status ctx = 404 \<and> ctx_body ctx = bytes_of_string ''ClientSideGateway: Service not found''"
proof -
  have "det_ServiceName d = ''''"
    using assms(2)
    by (auto simp: ExtractRequestDetailFromFasthttpRequest_def Let_def zero_detail_def
        split: list.splits sum.splits prod.splits)
  moreover have "directory n '''' = None"
    using assms(3) by (simp add: directory_def split: option.split)
  ultimately show ?thesis
    using StartForwardService_eq [OF assms(1,2), of mar id_string newStream raw isWs uuid ch]
    by (simp add: ctx_Error_def)
qed

theorem malformed_path_gets_404_witness:
  "\<exists>ctx. StartForwardService sample_mar_req id (\<lambda>_ _. Inr no_stream) (Inr [1])
       (sample_req\<lparr>hr_Path := ''/index.html''\<rparr>) False ''77'' 3 sample_csgw = Inr (Answered ctx, sample_csgw) \<and>
     ctx_status ctx = 404 \<and> ctx_body ctx = bytes_of_string ''ClientSideGateway: Service not found''"
proof -
  have "fst (ExtractRequestDetailFromFasthttpRequest (sample_req\<lparr>hr_Path := ''/index.html''\<rparr>) zero_detail) =
      Some (ErrMsg ''invalid path format'')"
    by code_simp
  then obtain d where "ExtractRequestDetailFromFasthttpRequest (sample_req\<lparr>hr_Path := ''/index.html''\<rparr>) zero_detail =
      (Some (ErrMsg ''invalid path format''), d)"
    by (metis prod.collapse)
  moreover have "services sample_csgw '''' = None"
    by (simp add: sample_csgw_def enter_service_def sample_node_def)
  ultimately show ?thesis
    by (rule malformed_path_gets_404 [OF sample_csgw_facts(1)])
qed

text \<open>
  C2. An HTTP request makes the round trip. Let the client side gateway know the service, the
  streams accept what is written, the codecs and fasthttp reproduce what they serialised, and the
  service side gateway, which has the service registered, get a response from it. Then the request
  arrives at the service side gateway as one message for every segmentation of the stream, the
  gateway answers towards the client side gateway with one frame, that frame arrives as one
  message again, and once \<open>serveHttpRequest\<close> waits for it, the body the service returned is the
  body of the client's response, with status 200, and the response channel is forgotten.
\<close>

theorem http_end_to_end:
  assumes "node_inv nC" and "ExtractRequestDetailFromFasthttpRequest req zero_detail = (None, d)"
    and "directory nC (det_ServiceName d) = Some (pS, s)" and "svc_Providers s \<noteq> []"
    and "newStream pS ProxyHttpInitReq = Inr no_stream"
    and rq: "request = client_request_for id_string raw False uuid d s nC"
    and "mar request = Inr reqBytes" and "length reqBytes \<le> max_alloc" and "codec_ok mar (env_unm_req env)"
    and "env_recover env raw = Inr req"
    and "env_peer_decode env (id_string (node_Host nC)) = Inr pC"
    and "services nS (svc_Id s) = Some s'"
    and "BuildHttpRequestToService (env_url_parse env) (env_uri_args env) d req s' = Inr (Inr out)"
    and "env_newStream env pC ProxyHttpRespFromServiceSide = Inr no_stream"
    and "env_http_do env out = Inr body"
    and "env_mar_data env \<lparr>dat_RequestId = req_RequestId request, dat_RawData = body\<rparr> = Inr respBytes"
    and "length respBytes \<le> max_alloc" and "codec_ok (env_mar_data env) unm"
    and "conn_pending cReq = out_bytes (snd (WriteBytesViaStream no_stream reqBytes))"
    and "conn_pending cResp = out_bytes (snd (WriteBytesViaStream no_stream respBytes))"
  shows "\<exists>st1 st2 nC' c1' c2'.
    StartForwardService mar id_string newStream (Inr raw) req False uuid ch nC =
      Inr (Forwarded new_ctx pS request st1, nC') \<and> out_bytes st1 = conn_pending cReq \<and>
    ReadBytesViaStream 1 (Conn cReq) = ([Data reqBytes], None, Conn c1') \<and>
    ProxyHttpInitRequestHandler env (Data reqBytes) nS = Inr (HttpAnswered pC st2, nS) \<and>
    out_bytes st2 = conn_pending cResp \<and>
    ReadBytesViaStream 1 (Conn cResp) = ([Data respBytes], None, Conn c2') \<and>
    ProxyHttpRespHandler unm (Data respBytes) (serveHttpRequest_wait request chResp nC') = Inr (chResp, body) \<and>
    (\<exists>n''. serveHttpRequest_done request body new_ctx (serveHttpRequest_wait request chResp nC') =
        (\<lparr>ctx_status = 200, ctx_body = body\<rparr>, n'') \<and>
       clientHttpDataChan n'' (req_RequestId request) = None)"
proof -
  have w: "commit (WriteBytesViaStream no_stream x) = Inr (snd (WriteBytesViaStream no_stream x))" for x
    by (rule commit_write) (simp add: no_stream_def)
  have u1: "env_unm_req env reqBytes = Inr request" and
    u2: "unm respBytes = Inr \<lparr>dat_RequestId = req_RequestId request, dat_RawData = body\<rparr>"
    by (rule codec_okD [OF assms(9,7)], rule codec_okD [OF assms(18,16)])
  obtain c1' c2' where r: "ReadBytesViaStream 1 (Conn cReq) = ([Data reqBytes], None, Conn c1')"
      "ReadBytesViaStream 1 (Conn cResp) = ([Data respBytes], None, Conn c2')"
    using one_frame [OF _ _ assms(8,19)] one_frame [OF _ _ assms(17,20)]
    by (metis net_out.select_convs no_stream_def)
  have fwd: "StartForwardService mar id_string newStream (Inr raw) req False uuid ch nC =
      Inr (Forwarded new_ctx pS request (snd (WriteBytesViaStream no_stream reqBytes)),
           note_request (req_RequestId request) ch nC)"
    using StartForwardService_eq [OF assms(1,2), of mar id_string newStream raw False uuid ch]
      assms(3,4,5) assms(7) [unfolded rq] w [of reqBytes]
    by (simp add: first_ctx_def Let_def rq)
  have "req_RawRequest request = raw" "req_PeerId request = id_string (node_Host nC)"
    "req_ServiceId request = svc_Id s" "\<not> req_IsWsRequest request"
    by (simp_all add: rq client_request_for_def)
  then have srv: "ProxyHttpInitRequestHandler env (Data reqBytes) nS =
      Inr (HttpAnswered pC (snd (WriteBytesViaStream no_stream respBytes)), nS)"
    using u1 assms(2,10-16) w [of respBytes]
    by (simp add: ProxyHttpInitRequestHandler_def service_at_def forward_data_def)
  show ?thesis
    by (rule exI, rule exI, rule exI, rule exI, rule exI, intro conjI, rule fwd, rule assms(19) [symmetric],
        rule r(1), rule srv, rule assms(20) [symmetric], rule r(2))
      (simp_all add: ProxyHttpRespHandler_def serveHttpRequest_wait_def serveHttpRequest_done_def
        ctx_Write_def new_ctx_def u2)
qed

text \<open>
  The response can come too early. The request is written to the stream before
  \<open>serveHttpRequest\<close> makes the response channel; a response that arrives in between finds no
  channel, and its handler blocks on the nil channel for ever, with the client still waiting.
\<close>

theorem early_response_blocks:
  assumes "node_inv n" and "clientHttpDataChan n (req_RequestId request) = None"
    and "StartForwardService mar id_string newStream (Inr raw) req False uuid ch n =
           Inr (Forwarded ctx p request st, n')"
    and "unm b = Inr \<lparr>dat_RequestId = req_RequestId request, dat_RawData = body\<rparr>"
  shows "ProxyHttpRespHandler unm (Data b) n' = Inl Blocked"
proof -
  obtain err d where e: "ExtractRequestDetailFromFasthttpRequest req zero_detail = (err, d)"
    by fastforce
  have "clientHttpDataChan n' = clientHttpDataChan n"
    using assms(3) StartForwardService_eq [OF assms(1) e, of mar id_string newStream raw False uuid ch]
    by (auto simp: Let_def bindP_Inr_iff split: option.splits if_splits sum.splits)
  then show ?thesis
    using assms(2,4) by (simp add: ProxyHttpRespHandler_def)
qed

theorem early_response_blocks_witness:
  "ProxyHttpRespHandler (\<lambda>b. Inr \<lparr>dat_RequestId = ''alice.httpbin_01.77'', dat_RawData = b\<rparr>) (Data [7])
     (note_request ''alice.httpbin_01.77'' 3 sample_csgw) = Inl Blocked"
  by (rule early_response_blocks [OF sample_csgw_facts(1) _ sample_forward, where body = "[7]"])
    (simp_all add: sample_csgw_facts(4) sample_request_def)

text \<open>
  A peer can stop a gateway with one request: a request message for a service that the
  receiving gateway does not know, or knows without providers, makes its handler index an empty
  provider list and panic, whether the request is HTTP or WebSocket.
\<close>

theorem unknown_service_panics:
  assumes "env_unm_req env b = Inr request" and "env_recover env (req_RawRequest request) = Inr req"
    and "env_peer_decode env (req_PeerId request) = Inr p"
    and "\<forall>s. services n (req_ServiceId request) = Some s \<longrightarrow> svc_Providers s = []"
  shows "ProxyHttpInitRequestHandler env (Data b) n = Inl PanicIndex"
proof -
  have "svc_Providers (service_at n (req_ServiceId request)) = []"
    using assms(4) by (simp add: service_at_def empty_service_def split: option.split)
  then show ?thesis
    using assms(1-3) by (simp add: ProxyHttpInitRequestHandler_def BuildHttpRequestToService_def Let_def)
qed

text \<open>
  WebSocket data is written to the connection of its request on the other side: data from the
  client side to the service's, data from the service side to the client's, always as text.
\<close>

lemma ws_data_routed:
  assumes "unm b = Inr \<lparr>dat_RequestId = rid, dat_RawData = d\<rparr>" and "\<forall>x. writeMessage conn x = None"
  shows "serviceWsConns n rid = Some conn \<Longrightarrow>
      ProxyWsDataHandler unm writeMessage ProxyWsDataFromClientSide (Data b) n = Inr (conn, TextMessage, d)"
    and "clientWsConns n rid = Some conn \<Longrightarrow>
      ProxyWsDataHandler unm writeMessage ProxyWsDataFromServiceSide (Data b) n = Inr (conn, TextMessage, d)"
  using assms by (simp_all add: ProxyWsDataHandler_def protocol_defs)

section \<open>A sample environment\<close>

definition sample_env :: ssgw_env where
  "sample_env = \<lparr>env_unm_req = (\<lambda>b. if b = bytes_of_string ''alice.httpbin_01.77'' then Inr sample_request
       else Inl (ErrMsg ''bad request'')),
     env_mar_data = (\<lambda>x. if dat_RequestId x = ''alice.httpbin_01.77'' then Inr (dat_RawData x)
       else Inl (ErrMsg ''unsupported'')),
     env_recover = (\<lambda>b. Inr sample_req), env_peer_decode = Inr,
     env_url_parse = (\<lambda>u. Inr (''/base'', \<lambda>p. ''http://host'' @ p)), env_uri_args = (\<lambda>_. []),
     env_newStream = (\<lambda>_ _. Inr no_stream), env_http_do = (\<lambda>r. Inr (bytes_of_string (sr_URI r))),
     env_ws_dial = (\<lambda>_. Inl EOF)\<rparr>"

definition sample_mar_one :: "ApronServiceRequest marshaller" where
  "sample_mar_one r = (if r = sample_request then Inr (bytes_of_string ''alice.httpbin_01.77'')
     else Inl (ErrMsg ''unsupported''))"

theorem unknown_service_panics_witness:
  "ProxyHttpInitRequestHandler sample_env (Data (bytes_of_string ''alice.httpbin_01.77'')) sample_node = Inl PanicIndex"
  by (rule unknown_service_panics) (simp_all add: sample_env_def sample_node_def)

theorem http_end_to_end_witness:
  "\<exists>st n1 n2. StartForwardService sample_mar_one id (\<lambda>_ _. Inr no_stream) (Inr [1]) sample_req False ''77'' 3
       sample_csgw = Inr (Forwarded new_ctx ''B'' sample_request st, n1) \<and>
     serveHttpRequest_done sample_request (bytes_of_string ''http://host/base/get'') new_ctx
       (serveHttpRequest_wait sample_request 9 n1) =
     (\<lparr>ctx_status = 200, ctx_body = bytes_of_string ''http://host/base/get''\<rparr>, n2)"
proof -
  obtain err d where "ExtractRequestDetailFromFasthttpRequest sample_req zero_detail = (err, d)"
    by fastforce
  then have e: "ExtractRequestDetailFromFasthttpRequest sample_req zero_detail = (None, d)"
    and d: "det_ServiceName d = ''httpbin_01''" "det_ProxyRequestPath d = ''get''"
    using sample_extract by simp_all
  let ?b1 = "bytes_of_string ''alice.httpbin_01.77''" and ?b2 = "bytes_of_string ''http://host/base/get''"
  let ?unm = "\<lambda>b. Inr \<lparr>dat_RequestId = ''alice.httpbin_01.77'', dat_RawData = b\<rparr>"
  let ?s = "sample_service ''httpbin_01''" and ?w = "\<lambda>b. out_bytes (snd (WriteBytesViaStream no_stream b))"
  let ?out = "\<lparr>sr_URI = ''http://host/base/get'', sr_QueryArgs = [(''q'', ''1'')], sr_Method = ''GET'',
        sr_Headers = [], sr_Body = []\<rparr>"
  have path: "path_Join ''/base'' ''get'' = ''/base/get''"
    by code_simp
  have build: "BuildHttpRequestToService (env_url_parse sample_env) (env_uri_args sample_env) d sample_req ?s =
      Inr (Inr ?out)"
    using d path by (simp add: BuildHttpRequestToService_def sample_env_def sample_req_def Let_def)
  have cod: "codec_ok sample_mar_one (env_unm_req sample_env)" "codec_ok (env_mar_data sample_env) ?unm"
    by (auto simp: codec_ok_def sample_mar_one_def sample_env_def split: if_splits)
  have len: "length ?b1 \<le> max_alloc" "length ?b2 \<le> max_alloc"
    by (simp_all add: max_alloc_def)
  have srv: "services (enter_service ''B'' ?s sample_node) (svc_Id ?s) = Some ?s"
    by (simp add: enter_service_def)
  have dir: "directory sample_csgw (det_ServiceName d) = Some (''B'', ?s)"
    using sample_csgw_facts(2) d by simp
  have "svc_Providers ?s \<noteq> []" by simp
  note http_end_to_end [OF sample_csgw_facts(1) e dir this _
      sample_client_request [OF e, symmetric] _ len(1) cod(1) _ _ srv build _ _ _ len(2) cod(2), 
      where newStream = "\<lambda>_ _. Inr no_stream" and pC = "''A''" and body = ?b2 and
      cReq = "\<lparr>chunks = [?w ?b1], fin = EOF\<rparr>" and cResp = "\<lparr>chunks = [?w ?b2], fin = EOF\<rparr>" and ch = 3 and chResp = 9]
  then show ?thesis
    by (force simp: sample_mar_one_def sample_env_def sample_csgw_facts(3) sample_request_def conn_pending_def)
qed

end
