(* ===== verification/Report.thy ===== *)
theory Report
  imports Usage Http_Proxy Flags
begin

text \<open>
  Uploading and reading usage reports: the upload task (\<open>node_user_report.go\<close>), the two IPFS agents
  (\<open>internal/ipfs_agent\<close>) and the report generator (\<open>cmd/report_generator\<close>). The file system is a
  map from paths to contents; the outcomes of its calls, the HTTP exchange with Pinata and the
  codecs are arguments. \<open>log.Fatal\<close> ends the process and is a \<open>PanicLog\<close>.
\<close>

type_synonym files = "string \<rightharpoonup> bytes"

section \<open>The local file agent\<close>

record LocalFileAgent =
  lfa_APIKey :: string
  lfa_APISecret :: string
  storageBase :: string

definition prepareStorage :: "go_error option \<Rightarrow> LocalFileAgent \<Rightarrow> go_stop + LocalFileAgent" where
  "prepareStorage mkdir agent =
     (let a1 = (if lfa_APIKey agent = '''' then agent\<lparr>lfa_APIKey := ''agTestKey''\<rparr> else agent);
          a2 = (if lfa_APISecret a1 = '''' then a1\<lparr>lfa_APISecret := ''agTestSecret''\<rparr> else a1);
          a3 = a2\<lparr>storageBase := ''/tmp/'' @ lfa_APIKey a2 @ ''/'' @ lfa_APISecret a2\<rparr> in
      case mkdir of Some err \<Rightarrow> Inl (PanicErr err) | None \<Rightarrow> Inr a3)"

text \<open>
  \<open>PinContent\<close>; \<open>temp\<close> is the random suffix that \<open>ioutil.TempFile\<close> chooses, or its error, and \<open>wr\<close> the
  error of the write, if any.
\<close>

definition local_PinContent ::
  "go_error option \<Rightarrow> go_error + string \<Rightarrow> go_error option \<Rightarrow> bytes \<Rightarrow> LocalFileAgent \<Rightarrow> files \<Rightarrow>
     go_stop + ((go_error + string) \<times> LocalFileAgent \<times> files)" where
  "local_PinContent mkdir temp wr data agent fs =
     bindP (prepareStorage mkdir agent) (\<lambda>agent'.
       case temp of
         Inl err \<Rightarrow> Inl (PanicLog (err_string err))
       | Inr suffix \<Rightarrow>
           let name = storageBase agent' @ ''/apron-'' @ suffix in
           (case wr of
              Some err \<Rightarrow> Inl (PanicLog (err_string err))
            | None \<Rightarrow> Inr (Inr name, agent', fs(name \<mapsto> data))))"

definition local_PinFile ::
  "go_error option \<Rightarrow> go_error + string \<Rightarrow> go_error option \<Rightarrow> string \<Rightarrow> LocalFileAgent \<Rightarrow> files \<Rightarrow>
     go_stop + ((go_error + string) \<times> LocalFileAgent \<times> files)" where
  "local_PinFile mkdir temp wr filepath agent fs =
     (case fs filepath of
        None \<Rightarrow> Inl (PanicLog (''open '' @ filepath @ '': no such file or directory''))
      | Some data \<Rightarrow> local_PinContent mkdir temp wr data agent fs)"

section \<open>The Pinata agent\<close>

record PinataService =
  pin_APIKey :: string
  pin_APISecret :: string

definition PIN_FILE_ENDPOINT :: string where
  "PIN_FILE_ENDPOINT = ''https://api.pinata.cloud/pinning/pinFileToIPFS''"

text \<open>\<open>filepath.Base\<close>: the last element of a path.\<close>

definition fp_Base :: "string \<Rightarrow> string" where
  "fp_Base path =
     (let stripped = rev (dropWhile (\<lambda>c. c = CHR ''/'') (rev path));
          base = rev (takeWhile (\<lambda>c. c \<noteq> CHR ''/'') (rev stripped)) in
      if path = '''' then ''.'' else if base = '''' then ''/'' else base)"

record pinata_post =
  post_url :: string
  post_secret :: string
  post_key :: string
  post_filename :: string
  post_content :: bytes

text \<open>
  \<open>PinFile\<close>; a missing file is the one error of \<open>os.Open\<close>. \<open>exchange\<close> posts the multipart form and
  returns the body of the response, \<open>unjson\<close> gives the string fields of a JSON object, \<open>errorf\<close> is
  \<open>fmt.Errorf\<close> of a format without arguments, which is not the identity on a text with a percent
  sign.
\<close>

definition pinata_PinFile ::
  "(pinata_post \<Rightarrow> go_error + bytes) \<Rightarrow> (bytes \<Rightarrow> go_error + (string \<rightharpoonup> string)) \<Rightarrow> (string \<Rightarrow> go_error) \<Rightarrow>
     PinataService \<Rightarrow> string \<Rightarrow> files \<Rightarrow> go_error + string" where
  "pinata_PinFile exchange unjson errorf p filepath fs =
     (case fs filepath of
        None \<Rightarrow> Inl (ErrMsg (''open '' @ filepath @ '': no such file or directory''))
      | Some content \<Rightarrow>
          bindP (exchange \<lparr>post_url = PIN_FILE_ENDPOINT, post_secret = pin_APISecret p, post_key = pin_APIKey p,
            post_filename = fp_Base filepath, post_content = content\<rparr>) (\<lambda>data.
          bindP (unjson data) (\<lambda>json_data.
            case json_data ''error'' of
              Some out \<Rightarrow> Inl (errorf out)
            | None \<Rightarrow> (case json_data ''IpfsHash'' of
                  Some hash \<Rightarrow> Inr hash
                | None \<Rightarrow> Inl (ErrMsg ''pinata pin file failure'')))))"

definition pinata_PinContent ::
  "(pinata_post \<Rightarrow> go_error + bytes) \<Rightarrow> (bytes \<Rightarrow> go_error + (string \<rightharpoonup> string)) \<Rightarrow> (string \<Rightarrow> go_error) \<Rightarrow>
     go_error + string \<Rightarrow> go_error option \<Rightarrow> PinataService \<Rightarrow> bytes \<Rightarrow> files \<Rightarrow> (go_error + string) \<times> files" where
  "pinata_PinContent exchange unjson errorf temp wr p content fs =
     (case temp of
        Inl err \<Rightarrow> (Inl (ErrMsg ''pinata pin content create tempfile failure''), fs)
      | Inr name \<Rightarrow>
          (case wr of
             Some err \<Rightarrow> (Inl (ErrMsg ''pinata pin content write failure''), fs(name := None))
           | None \<Rightarrow>
               let fs1 = fs(name \<mapsto> content) in
               (pinata_PinFile exchange unjson errorf p name fs1, fs1(name := None))))"

section \<open>The upload task\<close>

text \<open>
  One round of \<open>StartUploadUsageReportTask\<close> with an agent whose \<open>PinContent\<close> is \<open>pin\<close>. The result is
  the pinned file's name, if anything was pinned.
\<close>

definition upload_round ::
  "NodeReport marshaller \<Rightarrow> (bytes \<Rightarrow> 'f \<Rightarrow> go_stop + ((go_error + string) \<times> 'f)) \<Rightarrow> string \<Rightarrow>
     (string \<Rightarrow> int64) \<Rightarrow> string list \<Rightarrow> UsageRecordManager \<Rightarrow> 'f \<Rightarrow>
     go_stop + (string option \<times> UsageRecordManager \<times> 'f)" where
  "upload_round mar pin selfIdString clock ks m f =
     bindP (ExportAllUsage selfIdString clock ks m) (\<lambda>(nodeReport, m').
       if length (rep_Records nodeReport) \<noteq> 0 then
         bindP (must (mar nodeReport)) (\<lambda>reportBytes.
         bindP (pin reportBytes f) (\<lambda>(r, f').
           case r of
             Inl err \<Rightarrow> Inl (PanicLog (err_string err))
           | Inr fileHash \<Rightarrow> Inr (Some fileHash, m', f')))
       else Inr (None, m', f))"

section \<open>The report generator\<close>

definition baseDir :: "string \<Rightarrow> string \<Rightarrow> string" where
  "baseDir apiKey apiSecret = ''/tmp/'' @ apiKey @ ''/'' @ apiSecret"

text \<open>
  What \<open>filepath.Walk\<close> calls the function with, in its order: a path whose status cannot be read
  (then the file info is nil), a directory, or a file with the result of reading it. The result is
  what is printed per file, the node id and the records, and how the program ended early.
\<close>

datatype walk_entry = WalkError go_error | WalkDir | WalkFile "go_error + bytes"

fun walk_reports ::
  "NodeReport unmarshaller \<Rightarrow> walk_entry list \<Rightarrow> (string \<times> ApronUsageRecord list) list \<times> startup_failure option" where
  "walk_reports unm [] = ([], None)"
| "walk_reports unm (WalkError err # es) = ([], Some (Stopped PanicNil))"
| "walk_reports unm (WalkDir # es) = walk_reports unm es"
| "walk_reports unm (WalkFile (Inl err) # es) = ([], Some (ExitStatus 1))"
| "walk_reports unm (WalkFile (Inr content) # es) =
     (case unm content of
        Inl err \<Rightarrow> ([], Some (ExitStatus 1))
      | Inr report \<Rightarrow>
          (case walk_reports unm es of (out, e) \<Rightarrow>
             ((if length (rep_Records report) \<noteq> 0 then [(rep_NodeId report, rep_Records report)] else []) @ out, e)))"

definition report_flag_set :: "string \<rightharpoonup> (string \<times> string) setter" where
  "report_flag_set =
     [''ipfs-key'' \<mapsto> string_flag (\<lambda>f (k, s). (f k, s)),
      ''ipfs-secret'' \<mapsto> string_flag (\<lambda>f (k, s). (k, f s))]"

definition report_main ::
  "NodeReport unmarshaller \<Rightarrow> (string \<Rightarrow> walk_entry list) \<Rightarrow> string list \<Rightarrow>
     (string \<times> ApronUsageRecord list) list \<times> startup_failure option" where
  "report_main unm walk args =
     (case must_Parse report_flag_set args ('''', '''') of
        Inl e \<Rightarrow> ([], Some e)
      | Inr ((apiKey, apiSecret), _) \<Rightarrow> walk_reports unm (walk (baseDir apiKey apiSecret)))"

lemma report_main_flags:
  "report_main unm walk [''-ipfs-key'', k, ''-ipfs-secret'', s] = walk_reports unm (walk (baseDir k s))"
proof -
  have "flag_Parse report_flag_set (concat [[''-ipfs-key'', k], [''-ipfs-secret'', s]]) ('''', '''') = Inr ((k, s), [])"
    by (rule flag_Parse_settings [where kvs = "[(''ipfs-key'', k), (''ipfs-secret'', s)]"])
      (auto simp: report_flag_set_def string_flag_def spelled_def flag_name_ok_def split: if_splits)
  then show ?thesis
    by (simp add: report_main_def must_Parse_def)
qed

text \<open>When the directory does not exist, the program dereferences the nil file info instead of reporting the error.\<close>

lemma missing_directory_panics:
  assumes "walk (baseDir k s) = [WalkError err]"
  shows "report_main unm walk [''-ipfs-key'', k, ''-ipfs-secret'', s] = ([], Some (Stopped PanicNil))"
  using assms by (simp add: report_main_flags)

section \<open>The agent interface (agent.go)\<close>

text \<open>
  What the upload task relies on: content that was pinned is stored under the name returned, and
  nothing else changes. The local file agent, the one \<open>main\<close> uses, is an instance.
\<close>

locale ipfs_agent =
  fixes pin :: "bytes \<Rightarrow> 'f \<Rightarrow> go_stop + ((go_error + string) \<times> 'f)"
    and stored :: "'f \<Rightarrow> string \<rightharpoonup> bytes"
  assumes pin_stores: "pin b f = Inr (Inr name, f') \<Longrightarrow> stored f' = (stored f)(name \<mapsto> b)"
begin

lemma uploaded:
  assumes "usage_inv m" and "range_order (mgr_locks m) ks" and "mgr_records m \<noteq> Map.empty"
    and mar: "mar \<lparr>rep_NodeId = nodeId, rep_Records = map (\<lambda>k. (the (mgr_records m k))\<lparr>rec_EndTs := clock k\<rparr>) ks\<rparr> = Inr b"
    and pin: "pin b f = Inr (Inr name, f')"
  shows "upload_round mar pin nodeId clock ks m f = Inr (Some name, mgr_Init, f')"
    and "stored f' = (stored f)(name \<mapsto> b)"
proof -
  have "set ks = dom (mgr_records m)"
    using assms(1,2) by (auto simp: range_order_def usage_inv_def)
  then have "ks \<noteq> []"
    using assms(3) by (metis dom_eq_empty_conv empty_set)
  then show "upload_round mar pin nodeId clock ks m f = Inr (Some name, mgr_Init, f')"
    using mar pin by (simp add: upload_round_def ExportAllUsage_ok [OF assms(1,2)])
  show "stored f' = (stored f)(name \<mapsto> b)"
    by (rule pin_stores [OF pin])
qed

end

interpretation local_agent: ipfs_agent "\<lambda>b (a, fs). local_PinContent mkdir temp wr b a fs" snd for mkdir temp wr
  by unfold_locales
    (cases temp; cases wr; auto simp: local_PinContent_def bindP_Inr_iff Let_def split: prod.splits)

lemma local_PinContent_ok:
  assumes "lfa_APIKey agent \<noteq> ''''" and "lfa_APISecret agent \<noteq> ''''"
  shows "\<exists>agent'. local_PinContent None (Inr suffix) None b agent fs =
    Inr (Inr (baseDir (lfa_APIKey agent) (lfa_APISecret agent) @ ''/apron-'' @ suffix), agent',
      fs(baseDir (lfa_APIKey agent) (lfa_APISecret agent) @ ''/apron-'' @ suffix \<mapsto> b))"
  using assms by (simp add: local_PinContent_def prepareStorage_def baseDir_def Let_def)

section \<open>Properties\<close>

text \<open>
  C21. Usage that was recorded can be read back from the uploaded report. In a state of the manager's
  invariant with at least one record, when the report can be marshalled, a round of the upload task
  with the local file agent writes one new file in the agent's directory and empties the manager,
  and the report generator, started with the agent's key and secret, finds that file and prints the
  node's id with records that show for every user and service exactly what the manager held.
\<close>

theorem report_read_back:
  assumes "usage_inv m" and "range_order (mgr_locks m) ks" and "mgr_records m \<noteq> Map.empty"
    and "codec_ok mar unm"
    and "mar \<lparr>rep_NodeId = nodeId, rep_Records = map (\<lambda>k. (the (mgr_records m k))\<lparr>rec_EndTs := clock k\<rparr>) ks\<rparr> = Inr b"
    and "lfa_APIKey agent \<noteq> ''''" and "lfa_APISecret agent \<noteq> ''''"
  shows "\<exists>name content agent' records.
     upload_round mar (\<lambda>b (a, fs). local_PinContent None (Inr suffix) None b a fs) nodeId clock ks m (agent, fs) =
       Inr (Some name, mgr_Init, agent', fs(name \<mapsto> content)) \<and>
     name = baseDir (lfa_APIKey agent) (lfa_APISecret agent) @ ''/apron-'' @ suffix \<and>
     (\<forall>walk. walk (baseDir (lfa_APIKey agent) (lfa_APISecret agent)) = [WalkDir, WalkFile (Inr content)] \<longrightarrow>
        report_main unm walk [''-ipfs-key'', lfa_APIKey agent, ''-ipfs-secret'', lfa_APISecret agent] =
          ([(nodeId, records)], None)) \<and>
     (\<forall>us f. reported records us f = held m us f)"
proof -
  let ?rs = "map (\<lambda>k. (the (mgr_records m k))\<lparr>rec_EndTs := clock k\<rparr>) ks"
  have ks: "distinct ks" "set ks = dom (mgr_records m)"
    using assms(1,2) by (auto simp: range_order_def usage_inv_def)
  then have "walk_reports unm [WalkDir, WalkFile (Inr b)] = ([(nodeId, ?rs)], None)"
    using codec_okD [OF assms(4,5)] assms(3) by (auto simp flip: dom_eq_empty_conv)
  moreover obtain agent' name where "local_PinContent None (Inr suffix) None b agent fs = Inr (Inr name, agent', fs(name \<mapsto> b))"
      "name = baseDir (lfa_APIKey agent) (lfa_APISecret agent) @ ''/apron-'' @ suffix"
    using local_PinContent_ok [OF assms(6,7)] by blast
  moreover from this(1) have "upload_round mar (\<lambda>b (a, fs). local_PinContent None (Inr suffix) None b a fs) nodeId clock ks m (agent, fs) =
      Inr (Some name, mgr_Init, agent', fs(name \<mapsto> b))"
    using local_agent.uploaded(1) [where mar = mar and clock = clock, OF assms(1-3,5), of None "Inr suffix" None "(agent, fs)"] by simp
  ultimately show ?thesis
    using reported_export [OF assms(1) ks] by (intro exI [of _ name] exI [of _ b] exI [of _ agent'] exI [of _ ?rs])
      (simp add: report_main_flags del: walk_reports.simps)
qed

theorem report_read_back_witness:
  "\<exists>name content agent' records.
     upload_round (\<lambda>r. if r = \<lparr>rep_NodeId = ''n'', rep_Records = [(sample_record 3)\<lparr>rec_EndTs := 9\<rparr>]\<rparr> then Inr [1] else Inl EOF)
       (\<lambda>b (a, fs). local_PinContent None (Inr ''1'') None b a fs) ''n'' (\<lambda>_. 9) [''s.u'']
       (sample_manager (sample_record 3)) (\<lparr>lfa_APIKey = ''k'', lfa_APISecret = ''s'', storageBase = ''''\<rparr>, Map.empty) =
       Inr (Some name, mgr_Init, agent', [name \<mapsto> content]) \<and>
     name = ''/tmp/k/s/apron-1'' \<and>
     (\<forall>us f. reported records us f = held (sample_manager (sample_record 3)) us f)"
proof -
  let ?m = "sample_manager (sample_record 3)"
  let ?r = "\<lparr>rep_NodeId = ''n'', rep_Records = [(sample_record 3)\<lparr>rec_EndTs := 9\<rparr>]\<rparr>"
  let ?mar = "\<lambda>r. if r = ?r then Inr [1] else Inl EOF"
  have "range_order (mgr_locks ?m) [''s.u'']" "mgr_records ?m \<noteq> Map.empty"
    by (simp_all add: range_order_def sample_manager_def)
  moreover have "codec_ok ?mar (\<lambda>_. Inr ?r)"
    by (simp add: codec_ok_def)
  moreover have "?mar \<lparr>rep_NodeId = ''n'', rep_Records = map (\<lambda>k. (the (mgr_records ?m k))\<lparr>rec_EndTs := (\<lambda>_. 9) k\<rparr>) [''s.u'']\<rparr> = Inr [1]"
    by (simp add: sample_manager_def)
  ultimately show ?thesis
    using report_read_back [OF sample_inv, of 3 "[''s.u'']" ?mar "\<lambda>_. Inr ?r" "''n''" "\<lambda>_. 9" "[1]"
        "\<lparr>lfa_APIKey = ''k'', lfa_APISecret = ''s'', storageBase = ''''\<rparr>" "''1''" Map.empty]
    by (simp add: baseDir_def) blast
qed

text \<open>
  With no key and secret given the agent and the report generator use different directories: the
  agent writes below the test key and secret, the generator walks the directory for empty ones.
\<close>

lemma default_directories_differ:
  "\<exists>agent'. prepareStorage None \<lparr>lfa_APIKey = '''', lfa_APISecret = '''', storageBase = ''''\<rparr> = Inr agent' \<and>
     storageBase agent' = ''/tmp/agTestKey/agTestSecret'' \<and> baseDir '''' '''' = ''/tmp//''"
  by (simp add: prepareStorage_def baseDir_def)


text \<open>
  Pinning with Pinata uses its temporary file only: the files are as before, the content is what is
  posted, and the result is the hash exactly when the service answers with a hash and no error.
\<close>

lemma pinata_PinContent_result:
  assumes "fs name = None"
  shows "snd (pinata_PinContent exchange unjson errorf (Inr name) wr p content fs) = fs"
    and "fst (pinata_PinContent exchange unjson errorf (Inr name) None p content fs) = Inr hash \<longleftrightarrow>
      (\<exists>data js. exchange \<lparr>post_url = PIN_FILE_ENDPOINT, post_secret = pin_APISecret p, post_key = pin_APIKey p,
         post_filename = fp_Base name, post_content = content\<rparr> = Inr data \<and> unjson data = Inr js \<and>
         js ''error'' = None \<and> js ''IpfsHash'' = Some hash)"
  using assms
  by (auto simp: pinata_PinContent_def Let_def fun_eq_iff split: option.splits)
    (auto simp: pinata_PinFile_def bindP_def split: option.splits sum.splits)

end
