(* ===== verification/Loops.thy ===== *)
theory Loops
  imports Framing Go_Net
begin

text \<open>
  Relay loops. The gateways and agents run many loops of the same kind: receive a unit of data from
  a connection, pass it on, start over. Some receive a frame through a new reader, some a piece of
  up to 40960 bytes. The locale \<open>relay_loop\<close> is the contract of one iteration on received data and
  gives what a whole sequence of units does; \<open>frame_loop\<close> is the contract of a loop that receives
  frames, on whatever it receives, and shows that it ends. Each loop is an interpretation, in the
  theory that defines it.
\<close>

datatype loop_state = Running | Finished | Panicked go_stop

section \<open>Sequences of steps\<close>

fun chain :: "('s \<Rightarrow> 'd \<Rightarrow> 's \<Rightarrow> bool) \<Rightarrow> 's \<Rightarrow> 'd list \<Rightarrow> 's \<Rightarrow> bool" where
  "chain R s [] s' = (s = s')"
| "chain R s (d # ds) s' = (\<exists>t. R s d t \<and> chain R t ds s')"

text \<open>Steps that each append something to an observation append the concatenation.\<close>

lemma chain_append:
  assumes "chain R s ds s'" and "\<And>s d s'. d \<in> set ds \<Longrightarrow> R s d s' \<Longrightarrow> obs s' = obs s @ f d"
  shows "obs s' = obs s @ concat (map f ds)"
  using assms by (induction ds arbitrary: s) (simp, fastforce)

section \<open>Receiving\<close>

definition receive_frame :: "net_in \<Rightarrow> bytes \<Rightarrow> net_in \<Rightarrow> bool" where
  "receive_frame c d c' \<longleftrightarrow> (\<exists>r. read_frame (NewReader c) = (Inr (Inr d), r) \<and> c' = under r)"

definition receive_piece :: "net_in \<Rightarrow> bytes \<Rightarrow> net_in \<Rightarrow> bool" where
  "receive_piece c d c' \<longleftrightarrow> Read 40960 (NewReader c) = (Inr d, NewReader c')"

lemma aligned_frames:
  "aligned css ms \<Longrightarrow> chunks c = concat css @ ds \<Longrightarrow> chain receive_frame c ms (c\<lparr>chunks := ds\<rparr>)"
proof (induction ms arbitrary: c css)
  case Nil
  then show ?case by (cases c) simp
next
  case (Cons d ms)
  then obtain cs css' where cs: "css = cs # css'" "[] \<notin> set cs" "concat cs = frame d" "length d \<le> max_alloc" "aligned css' ms"
    by (auto simp: aligned_Cons)
  let ?c = "c\<lparr>chunks := concat css' @ ds\<rparr>"
  have "ReadOneFrameDataFromStream (Conn c) = (Inr (Inr d), Conn ?c)"
    using cs Cons.prems(2) by (intro read_fresh_aligned) simp_all
  then have "receive_frame c d ?c"
    by (auto simp: ReadOneFrameDataFromStream_def receive_frame_def split: prod.splits)
  then show ?case
    using Cons.IH [OF cs(5), of ?c] by auto
qed

lemma whole_pieces:
  "chunks c = ds @ cs \<Longrightarrow> \<forall>d \<in> set ds. d \<noteq> [] \<and> length d \<le> 40960 \<Longrightarrow> chain receive_piece c ds (c\<lparr>chunks := cs\<rparr>)"
proof (induction ds arbitrary: c)
  case Nil
  then show ?case by (cases c) simp
next
  case (Cons d ds)
  then have "receive_piece c d (c\<lparr>chunks := ds @ cs\<rparr>)"
    unfolding receive_piece_def by (intro Read_piece) simp_all
  then show ?case
    using Cons.IH [of "c\<lparr>chunks := ds @ cs\<rparr>"] Cons.prems(2) by auto
qed

lemma read_frame_closed:
  assumes "conn_pending c = []"
  shows "\<exists>r. read_frame (NewReader c) = (Inr (Inl (fin c)), r)"
  using read_frame_end [of "NewReader c"] assms by auto

section \<open>What a loop does with the data it receives\<close>

locale relay_loop =
  fixes receive :: "net_in \<Rightarrow> bytes \<Rightarrow> net_in \<Rightarrow> bool"
    and loop :: "nat \<Rightarrow> net_in \<Rightarrow> 's \<Rightarrow> 'r"
    and invar :: "'s \<Rightarrow> bool"
    and good :: "bytes \<Rightarrow> bool"
    and effect :: "'s \<Rightarrow> bytes \<Rightarrow> 's \<Rightarrow> bool"
  assumes iteration:
    "invar s \<Longrightarrow> good d \<Longrightarrow> receive c d c' \<Longrightarrow> \<exists>s'. loop (Suc k) c s = loop k c' s' \<and> effect s d s' \<and> invar s'"
begin

lemma relayed:
  assumes "invar s" and "\<forall>d \<in> set ds. good d" and "chain receive c ds c'"
  shows "\<exists>s'. loop (length ds + k) c s = loop k c' s' \<and> chain effect s ds s' \<and> invar s'"
  using assms
proof (induction ds arbitrary: c s)
  case Nil
  then show ?case by simp
next
  case (Cons d ds)
  then obtain c1 where c1: "receive c d c1" "chain receive c1 ds c'" by auto
  obtain s1 where "loop (Suc (length ds + k)) c s = loop (length ds + k) c1 s1" "effect s d s1" "invar s1"
    using iteration [OF Cons.prems(1) _ c1(1)] Cons.prems(2) by fastforce
  then show ?case
    using Cons.IH [of s1 c1] Cons.prems(2) c1(2) by auto
qed

end

section \<open>Loops over frames end\<close>

locale frame_loop =
  fixes loop :: "nat \<Rightarrow> net_in \<Rightarrow> 's \<Rightarrow> loop_state \<times> 's"
  assumes on_panic: "read_frame (NewReader c) = (Inl p, r) \<Longrightarrow> fst (loop (Suc k) c s) \<noteq> Running"
    and on_eof: "read_frame (NewReader c) = (Inr (Inl EOF), r) \<Longrightarrow> fst (loop (Suc k) c s) \<noteq> Running"
    and otherwise: "read_frame (NewReader c) = (Inr res, r) \<Longrightarrow>
      fst (loop (Suc k) c s) \<noteq> Running \<or> (\<exists>s'. loop (Suc k) c s = loop k (under r) s')"
begin

lemma ends: "fin c = EOF \<Longrightarrow> length (conn_pending c) \<le> k \<Longrightarrow> fst (loop (Suc k) c s) \<noteq> Running"
proof (induction k arbitrary: c s)
  case 0
  then show ?case
    using read_frame_closed [of c] on_eof by auto
next
  case (Suc k)
  obtain x r where x: "read_frame (NewReader c) = (x, r)" by fastforce
  show ?case
  proof (cases "conn_pending c = [] \<or> (\<exists>p. x = Inl p)")
    case True
    then show ?thesis
      using read_frame_closed [of c] on_eof on_panic x Suc.prems(1) by auto
  next
    case False
    then obtain res where res: "x = Inr res" by (cases x) auto
    have "length (bufio_pending r) < length (conn_pending c)" "fin (under r) = EOF"
      using read_frame_progress [of "NewReader c" res r] x res False Suc.prems(1) by auto
    then have "length (conn_pending (under r)) \<le> k" "fin (under r) = EOF"
      using Suc.prems(2) by (simp_all add: bufio_pending_def)
    then show ?thesis
      using otherwise [of c res r "Suc k" s] Suc.IH [of "under r"] x res by auto
  qed
qed

end

end
