(* ===== verification/Socket_Proxy.thy ===== *)
theory Socket_Proxy
  imports Http_Proxy Loops
begin

text \<open>
  Forwarding of socket connections: the client side gateway's listener (\<open>csgw_socket.go\<close>) and the
  two socket handlers of \<open>node_proxy_handler.go\<close>.

  A client opens a connection with one frame that holds an \<open>ApronSocketInitRequest\<close>; afterwards
  its frames are wrapped and sent to the service side gateway, which unwraps them and writes them
  to the service's connection, framed again. What the service sends is read in pieces, wrapped,
  and written to the client as one frame per piece. The endless loops are modelled by their first
  \<open>k\<close> iterations.
\<close>

section \<open>The client side gateway (csgw_socket.go)\<close>

text \<open>
  How the handler of a new connection leaves its set-up: refusing (with what it wrote to the
  client, possibly nothing), or with the two streams opened, and the connection as the data loop
  will read it. The reader used for the init request is local, so what it had read ahead is not
  in that connection any more.
\<close>

datatype socket_outcome =
    Refused string
  | Opened peer_id ApronSocketServiceRequest net_out net_out net_in

definition read_init_request ::
  "ApronSocketInitRequest unmarshaller \<Rightarrow> net_in \<Rightarrow> go_stop + (ApronSocketInitRequest \<times> net_in)" where
  "read_init_request unm conn =
     (case ReadFull bufio_read 8 (NewReader conn) of
        (Inl err, _) \<Rightarrow> Inl (PanicErr err)
      | (Inr hdr, r) \<Rightarrow>
          bindP (make_bytes (unat (be_get hdr :: uint64))) (\<lambda>initRequestBytes.
            case bufio_read r (length initRequestBytes) of (d, err, r2) \<Rightarrow>
              bindP (CheckError err) (\<lambda>_.
              bindP (must (unm (filled initRequestBytes d))) (\<lambda>initRequest.
                Inr (initRequest, under r2)))))"

definition StartSocketForwardService ::
  "ApronSocketInitRequest unmarshaller \<Rightarrow> ApronSocketServiceRequest marshaller \<Rightarrow> (peer_id \<Rightarrow> string) \<Rightarrow>
     (peer_id \<Rightarrow> string \<Rightarrow> go_error + net_out) \<Rightarrow> string \<Rightarrow> handle \<Rightarrow> handle \<Rightarrow> net_in \<Rightarrow> Node \<Rightarrow>
     go_stop + (socket_outcome \<times> Node)" where
  "StartSocketForwardService unm mar id_string newStream uuid msgCh connHandle conn n =
     bindP (read_init_request unm conn) (\<lambda>(initRequest, conn').
     bindP (Lock n) (\<lambda>n.
       case servicePeerMapping n (init_ServiceId initRequest) of
         None \<Rightarrow> Inr (Refused ''ClientSideGateway: Service not found'', Unlock n)
       | Some servicePeerId \<Rightarrow>
           (case services n (init_ServiceId initRequest) of
              None \<Rightarrow> Inr (Refused ''ClientSideGateway: Service data missing, contract help'', Unlock n)
            | Some service \<Rightarrow>
                let n = Unlock n in
                if length (svc_Providers service) < 1
                then Inr (Refused ''ClientSideGateway: Service data error, contract help'', n)
                else
                  let requestId = make_request_id (init_UserId initRequest) (GetId (Some service)) uuid;
                      req = \<lparr>sreq_ServiceId = GetId (Some service), sreq_RequestId = requestId,
                             sreq_PeerId = id_string (node_Host n)\<rparr>;
                      n = n\<lparr>requestIdChanMapping := (requestIdChanMapping n)(requestId \<mapsto> msgCh)\<rparr> in
                  (case newStream servicePeerId ProxySocketInitReq of
                     Inl err \<Rightarrow> Inr (Refused '''', n)
                   | Inr initSocketConnStream \<Rightarrow>
                       bindP (must (mar req)) (\<lambda>reqBytes.
                       bindP (commit (WriteBytesViaStream initSocketConnStream reqBytes)) (\<lambda>initStream'.
                         case newStream servicePeerId ProxySocketDataFromClientSide of
                           Inl err \<Rightarrow> Inr (Refused '''', n)
                         | Inr clientSocketDataStream \<Rightarrow>
                             Inr (Opened servicePeerId req initStream' clientSocketDataStream conn',
                               n\<lparr>clientSocketConns := (clientSocketConns n)(requestId \<mapsto> connHandle)\<rparr>)))))))"

text \<open>
  The data loop. A new reader is put before the connection for every frame; an error that reads
  \<open>EOF\<close> closes the connection and leaves the loop, any other error starts over.
\<close>

fun csgw_socket_loop ::
  "nat \<Rightarrow> ApronServiceData marshaller \<Rightarrow> string \<Rightarrow> net_in \<Rightarrow> net_out \<Rightarrow> loop_state \<times> net_out" where
  "csgw_socket_loop 0 mar requestId conn stream = (Running, stream)"
| "csgw_socket_loop (Suc k) mar requestId conn stream =
     (case read_frame (NewReader conn) of
        (Inl p, _) \<Rightarrow> (Panicked p, stream)
      | (Inr (Inl err), r) \<Rightarrow>
          if err_string err = ''EOF'' then (Finished, stream)
          else csgw_socket_loop k mar requestId (under r) stream
      | (Inr (Inr data), r) \<Rightarrow>
          (case forward_data mar requestId data stream of
             (Inl p, stream') \<Rightarrow> (Panicked p, stream')
           | (Inr _, stream') \<Rightarrow> csgw_socket_loop k mar requestId (under r) stream'))"

section \<open>The service side gateway (node_proxy_handler.go)\<close>

text \<open>
  The loop that forwards what the service sends: one \<open>Read\<close> into a buffer of 40960 bytes per
  iteration. \<open>respStream\<close> is \<open>None\<close> when \<open>NewStream\<close> had failed: its error is not checked, and the
  first write dereferences nil.
\<close>

fun socket_service_loop ::
  "nat \<Rightarrow> ApronServiceData marshaller \<Rightarrow> string \<Rightarrow> bufio \<Rightarrow> net_out option \<Rightarrow>
     loop_state \<times> net_out option" where
  "socket_service_loop 0 mar requestId serverReader respStream = (Running, respStream)"
| "socket_service_loop (Suc k) mar requestId serverReader respStream =
     (case Read 40960 serverReader of
        (Inl err, _) \<Rightarrow> (Panicked (PanicErr err), respStream)
      | (Inr d, r) \<Rightarrow>
          (case respStream of
             None \<Rightarrow> (case mar \<lparr>dat_RequestId = requestId, dat_RawData = d\<rparr> of
                 Inl err \<Rightarrow> (Panicked (PanicErr err), None)
               | Inr _ \<Rightarrow> (Panicked PanicNil, None))
           | Some s \<Rightarrow>
               (case forward_data mar requestId d s of
                  (Inl p, s') \<Rightarrow> (Panicked p, Some s')
                | (Inr _, s') \<Rightarrow> socket_service_loop k mar requestId r (Some s'))))"

text \<open>\<open>dial\<close> gives the handle of the new connection and what the service will send on it.\<close>

definition ProxySocketInitReqHandler ::
  "ApronSocketInitRequest unmarshaller \<Rightarrow> (string \<Rightarrow> go_error + peer_id) \<Rightarrow>
     (string \<Rightarrow> go_error + (handle \<times> net_in)) \<Rightarrow> (peer_id \<Rightarrow> string \<Rightarrow> go_error + net_out) \<Rightarrow>
     net_in \<Rightarrow> Node \<Rightarrow>
     go_stop + (ApronSocketInitRequest \<times> bufio \<times> net_out option \<times> Node)" where
  "ProxySocketInitReqHandler unm peer_decode dial newStream s n =
     bindP (fst (ReadOneFrameDataFromStream (Conn s))) (\<lambda>res.
     bindP (must res) (\<lambda>dataBuf.
     bindP (must (unm dataBuf)) (\<lambda>socketInitReq.
     bindP (must (peer_decode (init_PeerId socketInitReq))) (\<lambda>csgwPeerId.
       case svc_Providers (service_at n (init_ServiceId socketInitReq)) of
         [] \<Rightarrow> Inl PanicIndex
       | provider # _ \<Rightarrow>
           bindP (must (dial (GetBaseUrl provider))) (\<lambda>(serviceSocketConn, fromService).
             let n' = n\<lparr>serviceSocketConns :=
                          (serviceSocketConns n)(init_RequestId socketInitReq \<mapsto> serviceSocketConn)\<rparr>;
                 respStream = (case newStream csgwPeerId ProxySocketDataFromServiceSide of
                                 Inl err \<Rightarrow> None | Inr st \<Rightarrow> Some st) in
             Inr (socketInitReq, NewReader fromService, respStream, n'))))))"

text \<open>
  One message of \<open>ProxySocketDataHandler\<close>: a frame written to the connection of its request;
  \<open>outs\<close> are the sending sides of the connections. A missing connection is a nil interface.
\<close>

definition ProxySocketDataHandler ::
  "ApronServiceData unmarshaller \<Rightarrow> string \<Rightarrow> chan_msg \<Rightarrow> Node \<Rightarrow> (handle \<Rightarrow> net_out) \<Rightarrow>
     go_stop + (handle \<Rightarrow> net_out)" where
  "ProxySocketDataHandler unm proto msg n outs =
     (case msg of
        Err errMsg \<Rightarrow> Inl (PanicLog ''read data stream error'')
      | Data proxyDataBytes \<Rightarrow>
          bindP (must (unm proxyDataBytes)) (\<lambda>proxyData.
            let write = (\<lambda>conns. case conns (dat_RequestId proxyData) of
                  None \<Rightarrow> Inl PanicNil
                | Some h \<Rightarrow> bindP (commit (WriteBytesViaStream (outs h) (dat_RawData proxyData)))
                    (\<lambda>w. Inr (outs(h := w)))) in
            if proto = ProxySocketDataFromClientSide then write (serviceSocketConns n)
            else if proto = ProxySocketDataFromServiceSide then write (clientSocketConns n)
            else Inl (PanicErr (ErrMsg (''wrong protocol: '' @ proto)))))"

fun socket_data_loop ::
  "ApronServiceData unmarshaller \<Rightarrow> string \<Rightarrow> chan_msg list \<Rightarrow> Node \<Rightarrow> (handle \<Rightarrow> net_out) \<Rightarrow>
     go_stop + (handle \<Rightarrow> net_out)" where
  "socket_data_loop unm proto [] n outs = Inr outs"
| "socket_data_loop unm proto (msg # msgs) n outs =
     bindP (ProxySocketDataHandler unm proto msg n outs) (\<lambda>outs'. socket_data_loop unm proto msgs n outs')"

section \<open>Frames through the loops\<close>

lemma forward_data_ok:
  assumes "mar \<lparr>dat_RequestId = rid, dat_RawData = d\<rparr> = Inr b" and "werrs s = []"
  shows "\<exists>s'. forward_data mar rid d s = (Inr (), s') \<and> werrs s' = [] \<and> out_bytes s' = out_bytes s @ frame b"
  using assms by (simp add: forward_data_def WriteBytesViaStream_ok out_bytes_def frame_def)

interpretation csgw_data: relay_loop receive_frame "\<lambda>k c s. csgw_socket_loop k mar rid c s" "\<lambda>s. werrs s = []"
  "\<lambda>d. mar \<lparr>dat_RequestId = rid, dat_RawData = d\<rparr> = Inr (enc d)" "\<lambda>s d s'. out_bytes s' = out_bytes s @ frame (enc d)"
  for mar rid enc
proof unfold_locales
  fix s :: net_out and d c c' k
  assume "werrs s = []" "mar \<lparr>dat_RequestId = rid, dat_RawData = d\<rparr> = Inr (enc d)" and c: "receive_frame c d c'"
  then obtain s' where "forward_data mar rid d s = (Inr (), s')" "werrs s' = []" "out_bytes s' = out_bytes s @ frame (enc d)"
    using forward_data_ok by blast
  then show "\<exists>s'. csgw_socket_loop (Suc k) mar rid c s = csgw_socket_loop k mar rid c' s' \<and>
      out_bytes s' = out_bytes s @ frame (enc d) \<and> werrs s' = []"
    using c by (auto simp: receive_frame_def)
qed

interpretation csgw_frames: frame_loop "\<lambda>k c s. csgw_socket_loop k mar rid c s" for mar rid
  by unfold_locales (auto split: sum.splits prod.splits)

interpretation ssgw_data: relay_loop receive_piece "\<lambda>k c s. socket_service_loop k mar rid (NewReader c) (Some s)" "\<lambda>s. werrs s = []"
  "\<lambda>d. mar \<lparr>dat_RequestId = rid, dat_RawData = d\<rparr> = Inr (enc d)" "\<lambda>s d s'. out_bytes s' = out_bytes s @ frame (enc d)"
  for mar rid enc
proof unfold_locales
  fix s :: net_out and d c c' k
  assume "werrs s = []" "mar \<lparr>dat_RequestId = rid, dat_RawData = d\<rparr> = Inr (enc d)" and c: "receive_piece c d c'"
  then obtain s' where "forward_data mar rid d s = (Inr (), s')" "werrs s' = []" "out_bytes s' = out_bytes s @ frame (enc d)"
    using forward_data_ok by blast
  then show "\<exists>s'. socket_service_loop (Suc k) mar rid (NewReader c) (Some s) = socket_service_loop k mar rid (NewReader c') (Some s') \<and>
      out_bytes s' = out_bytes s @ frame (enc d) \<and> werrs s' = []"
    using c by (auto simp: receive_piece_def)
qed

lemma csgw_socket_loop_aligned:
  assumes "aligned css ms" and "chunks c = concat css" and "fin c = EOF" and "werrs s = []"
    and "\<forall>d \<in> set ms. mar \<lparr>dat_RequestId = rid, dat_RawData = d\<rparr> = Inr (enc d)"
  shows "\<exists>s'. csgw_socket_loop (Suc (length ms)) mar rid c s = (Finished, s') \<and>
           out_bytes s' = out_bytes s @ concat (map (frame \<circ> enc) ms)"
proof -
  obtain s' where s': "csgw_socket_loop (length ms + 1) mar rid c s = csgw_socket_loop 1 mar rid (c\<lparr>chunks := []\<rparr>) s'"
      "chain (\<lambda>s d s'. out_bytes s' = out_bytes s @ frame (enc d)) s ms s'"
    using csgw_data.relayed [OF assms(4,5) aligned_frames [OF assms(1), of c "[]"], of 1] assms(2) by auto
  obtain r where "read_frame (NewReader (c\<lparr>chunks := []\<rparr>)) = (Inr (Inl EOF), r)"
    using read_frame_closed [of "c\<lparr>chunks := []\<rparr>"] assms(3) by (auto simp: conn_pending_def)
  then show ?thesis
    using s'(1) chain_append [OF s'(2), of out_bytes "frame \<circ> enc"] by simp
qed

lemma socket_service_loop_pieces:
  assumes "chunks c = ds" and "\<forall>d \<in> set ds. d \<noteq> [] \<and> length d \<le> 40960" and "werrs s = []"
    and "\<forall>d \<in> set ds. mar \<lparr>dat_RequestId = rid, dat_RawData = d\<rparr> = Inr (enc d)"
  shows "\<exists>s'. socket_service_loop (length ds) mar rid (NewReader c) (Some s) = (Running, Some s') \<and>
           out_bytes s' = out_bytes s @ concat (map (frame \<circ> enc) ds)"
proof -
  obtain s' where "socket_service_loop (length ds + 0) mar rid (NewReader c) (Some s) =
      socket_service_loop 0 mar rid (NewReader (c\<lparr>chunks := []\<rparr>)) (Some s')"
      "chain (\<lambda>s d s'. out_bytes s' = out_bytes s @ frame (enc d)) s ds s'"
    using ssgw_data.relayed [OF assms(3,4) whole_pieces [of c ds "[]"], of 0] assms(1,2) by auto
  then show ?thesis
    using chain_append [of _ s ds s' out_bytes "frame \<circ> enc"] by auto
qed

text \<open>The connections that the handler of a protocol writes to.\<close>

definition socket_conns :: "string \<Rightarrow> Node \<Rightarrow> string \<rightharpoonup> handle" where
  "socket_conns proto n =
     (if proto = ProxySocketDataFromClientSide then serviceSocketConns n
      else if proto = ProxySocketDataFromServiceSide then clientSocketConns n else Map.empty)"

lemma ProxySocketDataHandler_write:
  assumes "unm b = Inr \<lparr>dat_RequestId = rid, dat_RawData = d\<rparr>"
    and "socket_conns proto n rid = Some h" and "werrs (outs h) = []"
  shows "ProxySocketDataHandler unm proto (Data b) n outs = Inr (outs(h := snd (WriteBytesViaStream (outs h) d)))"
  using assms commit_write [of "outs h" d]
  by (auto simp: ProxySocketDataHandler_def socket_conns_def Let_def split: if_splits)

lemma socket_data_loop_ok:
  assumes "\<forall>d \<in> set ms. unm (enc d) = Inr \<lparr>dat_RequestId = rid, dat_RawData = d\<rparr>"
    and "socket_conns proto n rid = Some h" and "werrs (outs h) = []"
  shows "\<exists>outs'. socket_data_loop unm proto (map (Data \<circ> enc) ms) n outs = Inr outs' \<and>
           out_bytes (outs' h) = out_bytes (outs h) @ concat (map frame ms) \<and>
           (\<forall>h'. h' \<noteq> h \<longrightarrow> outs' h' = outs h')"
  using assms
proof (induction ms arbitrary: outs)
  case Nil
  then show ?case by simp
next
  case (Cons d ms)
  let ?w = "snd (WriteBytesViaStream (outs h) d)"
  have w: "werrs ?w = []" "out_bytes ?w = out_bytes (outs h) @ frame d"
    using Cons.prems(3) by (simp_all add: WriteBytesViaStream_ok out_bytes_def frame_def)
  have "ProxySocketDataHandler unm proto (Data (enc d)) n outs = Inr (outs(h := ?w))"
    using Cons.prems by (intro ProxySocketDataHandler_write) simp_all
  then show ?case
    using Cons.IH [of "outs(h := ?w)"] Cons.prems(1,2) w
    by (simp add: fun_upd_def)
qed

text \<open>
  The way of a client's messages to the service, and of the service's pieces to the client, when no
  network piece joins the end of a frame with what follows it.
\<close>

lemma aligned_pending: "aligned css ms \<Longrightarrow> chunks c = concat css \<Longrightarrow> conn_pending c = concat (map frame ms)"
  unfolding conn_pending_def
proof (induction ms arbitrary: css c)
  case (Cons d ms)
  then obtain cs css' where "css = cs # css'" "concat cs = frame d" "aligned css' ms"
    by (auto simp: aligned_Cons)
  then show ?case
    using Cons.IH [of css' "c\<lparr>chunks := concat css'\<rparr>"] Cons.prems(2) by simp
qed simp

lemma socket_data_carried:
  assumes "aligned css ms" and "chunks c = concat css" and "fin c = EOF"
    and "\<forall>d \<in> set ms. mar \<lparr>dat_RequestId = rid, dat_RawData = d\<rparr> = Inr (enc d)" and "codec_ok mar unm"
    and "aligned css' (map enc ms)" and "chunks c' = concat css'"
    and "serviceSocketConns n rid = Some h" and "werrs (outs h) = []"
  shows "\<exists>st outs'. csgw_socket_loop (Suc (length ms)) mar rid c no_stream = (Finished, st) \<and>
     out_bytes st = concat (map (frame \<circ> enc) ms) \<and>
     fst (ReadBytesViaStream (length ms) (Conn c')) = map (Data \<circ> enc) ms \<and>
     socket_data_loop unm ProxySocketDataFromClientSide (map (Data \<circ> enc) ms) n outs = Inr outs' \<and>
     out_bytes (outs' h) = out_bytes (outs h) @ concat (map frame ms) \<and>
     (\<forall>h'. h' \<noteq> h \<longrightarrow> outs' h' = outs h')"
proof -
  obtain st where "csgw_socket_loop (Suc (length ms)) mar rid c no_stream = (Finished, st)"
      "out_bytes st = concat (map (frame \<circ> enc) ms)"
    using csgw_socket_loop_aligned [OF assms(1-3) _ assms(4), of no_stream]
    by (auto simp: no_stream_def out_bytes_def)
  moreover have "fst (ReadBytesViaStream (length ms) (Conn c')) = map (Data \<circ> enc) ms"
    using ReadBytesViaStream_aligned [OF assms(6), of c' "[]"] assms(7) by simp
  moreover have "\<forall>d \<in> set ms. unm (enc d) = Inr \<lparr>dat_RequestId = rid, dat_RawData = d\<rparr>"
    using assms(4) codec_okD [OF assms(5)] by blast
  ultimately show ?thesis
    using socket_data_loop_ok [where outs = outs and proto = ProxySocketDataFromClientSide, OF _ _ assms(9)] assms(8)
    by (auto simp: socket_conns_def)
qed

lemma service_data_carried:
  assumes "chunks c = ds" and "\<forall>d \<in> set ds. d \<noteq> [] \<and> length d \<le> 40960"
    and "\<forall>d \<in> set ds. mar \<lparr>dat_RequestId = rid, dat_RawData = d\<rparr> = Inr (enc d)" and "codec_ok mar unm"
    and "aligned css (map enc ds)" and "chunks c' = concat css"
    and "clientSocketConns n rid = Some h" and "werrs (outs h) = []"
  shows "\<exists>st outs'. socket_service_loop (length ds) mar rid (NewReader c) (Some no_stream) = (Running, Some st) \<and>
     out_bytes st = concat (map (frame \<circ> enc) ds) \<and>
     fst (ReadBytesViaStream (length ds) (Conn c')) = map (Data \<circ> enc) ds \<and>
     socket_data_loop unm ProxySocketDataFromServiceSide (map (Data \<circ> enc) ds) n outs = Inr outs' \<and>
     out_bytes (outs' h) = out_bytes (outs h) @ concat (map frame ds) \<and>
     (\<forall>h'. h' \<noteq> h \<longrightarrow> outs' h' = outs h')"
proof -
  obtain st where "socket_service_loop (length ds) mar rid (NewReader c) (Some no_stream) = (Running, Some st)"
      "out_bytes st = concat (map (frame \<circ> enc) ds)"
    using socket_service_loop_pieces [of c ds no_stream mar rid enc] assms(1-3)
    by (auto simp: no_stream_def out_bytes_def)
  moreover have "fst (ReadBytesViaStream (length ds) (Conn c')) = map (Data \<circ> enc) ds"
    using ReadBytesViaStream_aligned [OF assms(5), of c' "[]"] assms(6) by simp
  moreover have "\<forall>d \<in> set ds. unm (enc d) = Inr \<lparr>dat_RequestId = rid, dat_RawData = d\<rparr>"
    using assms(3) codec_okD [OF assms(4)] by blast
  moreover have "socket_conns ProxySocketDataFromServiceSide n rid = Some h"
    using assms(7) by (simp add: socket_conns_def protocol_defs)
  ultimately show ?thesis
    using socket_data_loop_ok [where outs = outs, OF _ _ assms(8)] by blast
qed

section \<open>Properties\<close>

text \<open>
  C13. Socket data reaches the service. Let a client send any messages as frames, no network piece
  holding parts of two frames, and close. Then the client side gateway's loop ends after forwarding
  one wrapped message per frame; if the pieces on the stream between the gateways respect frames
  too, the service side gateway's handler receives them all and writes exactly the client's frames
  to the service's connection, and to no other.
\<close>

theorem socket_data_end_to_end:
  assumes "aligned css ms" and "chunks c = concat css" and "fin c = EOF"
    and "\<forall>d \<in> set ms. mar \<lparr>dat_RequestId = rid, dat_RawData = d\<rparr> = Inr (enc d)" and "codec_ok mar unm"
    and "aligned css' (map enc ms)" and "chunks c' = concat css'"
    and "serviceSocketConns n rid = Some h" and "werrs (outs h) = []"
  shows "\<exists>st outs'. csgw_socket_loop (Suc (length ms)) mar rid c no_stream = (Finished, st) \<and>
     out_bytes st = concat (map (frame \<circ> enc) ms) \<and>
     fst (ReadBytesViaStream (length ms) (Conn c')) = map (Data \<circ> enc) ms \<and>
     socket_data_loop unm ProxySocketDataFromClientSide (map (Data \<circ> enc) ms) n outs = Inr outs' \<and>
     out_bytes (outs' h) = out_bytes (outs h) @ concat (map frame ms) \<and>
     (\<forall>h'. h' \<noteq> h \<longrightarrow> outs' h' = outs h')"
  using assms by (rule socket_data_carried)

theorem socket_data_end_to_end_witness:
  "\<exists>outs'. socket_data_loop (\<lambda>b. Inr \<lparr>dat_RequestId = ''r'', dat_RawData = b\<rparr>) ProxySocketDataFromClientSide
       [Data [7, 9], Data [5]] (sample_node\<lparr>serviceSocketConns := [''r'' \<mapsto> 4]\<rparr>) (\<lambda>_. no_stream) = Inr outs' \<and>
     out_bytes (outs' 4) = [0, 0, 0, 0, 0, 0, 0, 2, 7, 9, 0, 0, 0, 0, 0, 0, 0, 1, 5]"
proof -
  let ?mar = "\<lambda>x. if dat_RequestId x = ''r'' then Inr (dat_RawData x) else Inl EOF"
  let ?unm = "\<lambda>b. Inr \<lparr>dat_RequestId = ''r'', dat_RawData = b\<rparr>"
  let ?ms = "[[7, 9], [5]] :: bytes list" and ?css = "[[[0, 0, 0, 0, 0, 0, 0, 2], [7, 9]], [[0, 0, 0, 0, 0, 0, 0, 1], [5]]]"
  let ?c = "\<lparr>chunks = concat ?css, fin = EOF\<rparr> :: net_in"
  have f: "frame [7, 9] = [0, 0, 0, 0, 0, 0, 0, 2, 7, 9]" "frame [5] = [0, 0, 0, 0, 0, 0, 0, 1, 5]"
    by code_simp+
  have "aligned ?css ?ms" "aligned ?css (map id ?ms)"
    by (simp_all add: aligned_def f max_alloc_def)
  moreover have "codec_ok ?mar ?unm"
    by (auto simp: codec_ok_def split: if_splits)
  ultimately show ?thesis
    using socket_data_end_to_end [of ?css ?ms ?c ?mar "''r''" id ?unm ?css ?c
        "sample_node\<lparr>serviceSocketConns := [''r'' \<mapsto> 4]\<rparr>" 4 "\<lambda>_. no_stream"]
    by (auto simp: f no_stream_def out_bytes_def)
qed

lemma read_init_one_chunk:
  assumes "chunks c = (frame d @ extra) # cs" and "length (frame d @ extra) \<le> defaultBufSize"
    and "unm d = Inr init"
  shows "read_init_request unm c = Inr (init, c\<lparr>chunks := cs\<rparr>)"
proof -
  let ?h = "be_put 8 (word_of_nat (length d) :: uint64)"
  let ?r = "\<lambda>x. \<lparr>bbuf = x, berr = None, under = c\<lparr>chunks := cs\<rparr>\<rparr>"
  have len: "length d \<le> max_alloc"
    using assms(2) by (simp add: max_alloc_def defaultBufSize_def)
  have "0 < defaultBufSize" by (simp add: defaultBufSize_def)
  then have "conn_read c defaultBufSize = (frame d @ extra, None, c\<lparr>chunks := cs\<rparr>)"
    using conn_read_first [of c "frame d @ extra" cs defaultBufSize] assms by simp
  then have "bufio_read (NewReader c) 8 = (?h, None, ?r (d @ extra))"
    by (simp add: bufio_read_def NewReader_def defaultBufSize_def) (simp add: frame_def)
  then have h: "ReadFull bufio_read 8 (NewReader c) = (Inr ?h, ?r (d @ extra))"
    by (rule ReadFull_one_read) simp_all
  have "\<exists>x. bufio_read (?r (d @ extra)) (length d) = (d, None, ?r x)"
    by (cases "d = []") (simp_all add: bufio_read_def)
  then show ?thesis
    using h len assms(3)
    by (auto simp: read_init_request_def make_bytes_def unat_frame_length filled_def)
qed

lemma StartSocketForwardService_eq:
  assumes "node_inv n" and "read_init_request unm c = Inr (init, c')"
    and "directory n (init_ServiceId init) = Some (p, s)" and "svc_Providers s \<noteq> []"
    and "\<forall>proto. newStream p proto = Inr no_stream"
    and "mar \<lparr>sreq_ServiceId = svc_Id s, sreq_RequestId = make_request_id (init_UserId init) (svc_Id s) uuid,
             sreq_PeerId = id_string (node_Host n)\<rparr> = Inr b"
  shows "\<exists>n'. StartSocketForwardService unm mar id_string newStream uuid ch h c n =
     Inr (Opened p \<lparr>sreq_ServiceId = svc_Id s, sreq_RequestId = make_request_id (init_UserId init) (svc_Id s) uuid,
             sreq_PeerId = id_string (node_Host n)\<rparr> (snd (WriteBytesViaStream no_stream b)) no_stream c', n') \<and>
     clientSocketConns n' (make_request_id (init_UserId init) (svc_Id s) uuid) = Some h \<and>
     directory n' = directory n \<and> node_inv n'"
proof -
  have m: "servicePeerMapping n (init_ServiceId init) = Some p" "services n (init_ServiceId init) = Some s"
    using assms(3) by (simp_all add: directory_Some_iff)
  have "commit (WriteBytesViaStream no_stream b) = Inr (snd (WriteBytesViaStream no_stream b))"
    by (rule commit_write) (simp add: no_stream_def)
  then show ?thesis
    using assms m node_inv_free [OF assms(1)] unlocked [OF assms(1)]
    by (auto simp: StartSocketForwardService_def Let_def less_Suc_eq_0_disj Suc_le_eq directory_def fun_eq_iff
        node_inv_def split: option.split)
qed

text \<open>
  Data sent together with the init request is lost. If the piece that brings the client's init
  request also holds bytes after it, the connection is set up as usual, but the data loop starts
  reading behind that piece: nobody will ever see those bytes.
\<close>

theorem pipelined_data_lost:
  assumes "node_inv n" and "chunks c = (frame d @ extra) # cs"
    and "length (frame d @ extra) \<le> defaultBufSize" and "unm d = Inr init"
    and "directory n (init_ServiceId init) = Some (p, s)" and "svc_Providers s \<noteq> []"
    and "\<forall>proto. newStream p proto = Inr no_stream" and "\<forall>r. \<exists>b. mar r = Inr b"
  shows "\<exists>req st n'. StartSocketForwardService unm mar id_string newStream uuid ch h c n =
     Inr (Opened p req st no_stream (c\<lparr>chunks := cs\<rparr>), n') \<and>
     sreq_ServiceId req = svc_Id s \<and> clientSocketConns n' (sreq_RequestId req) = Some h \<and>
     conn_pending c = frame d @ extra @ conn_pending (c\<lparr>chunks := cs\<rparr>)"
proof -
  have i: "read_init_request unm c = Inr (init, c\<lparr>chunks := cs\<rparr>)"
    using read_init_one_chunk [where unm = unm, OF assms(2-4)] .
  obtain b where b: "mar \<lparr>sreq_ServiceId = svc_Id s, sreq_RequestId = make_request_id (init_UserId init) (svc_Id s) uuid,
      sreq_PeerId = id_string (node_Host n)\<rparr> = Inr b"
    using assms(8) by blast
  show ?thesis
    using StartSocketForwardService_eq [where newStream = newStream and mar = mar and id_string = id_string
        and uuid = uuid and s = s, OF assms(1) i assms(5-7) b, of ch h] assms(2)
    by (auto simp: conn_pending_def)
qed

definition sample_init :: ApronSocketInitRequest where
  "sample_init = \<lparr>init_ServiceId = ''httpbin_01'', init_RequestId = '''', init_PeerId = '''', init_UserId = ''u''\<rparr>"

theorem pipelined_data_lost_witness:
  "\<exists>req st n'. StartSocketForwardService (\<lambda>_. Inr sample_init) (\<lambda>_. Inr [1]) id (\<lambda>_ _. Inr no_stream) ''9'' 1 2
      \<lparr>chunks = [frame [8] @ frame [7, 7], [3]], fin = EOF\<rparr> sample_csgw =
     Inr (Opened ''B'' req st no_stream \<lparr>chunks = [[3]], fin = EOF\<rparr>, n')"
proof -
  let ?c = "\<lparr>chunks = [frame [8] @ frame [7, 7], [3]], fin = EOF\<rparr> :: net_in"
  have "directory sample_csgw (init_ServiceId sample_init) = Some (''B'', sample_service ''httpbin_01'')"
    using sample_csgw_facts(2) by (simp add: sample_init_def)
  then show ?thesis
    using pipelined_data_lost [OF sample_csgw_facts(1), of ?c "[8]" "frame [7, 7]" "[[3]]" "\<lambda>_. Inr sample_init"
        sample_init "''B''" "sample_service ''httpbin_01''" "\<lambda>_ _. Inr no_stream" "\<lambda>_. Inr [1]" id "''9''" 1 2]
    by (auto simp: defaultBufSize_def)
qed

lemma socket_service_loop_all:
  assumes "bufio_ok b" and "werrs s = []" and "length (bufio_pending b) \<le> k"
    and "\<forall>d. mar \<lparr>dat_RequestId = rid, dat_RawData = d\<rparr> = Inr (enc d)"
  shows "\<exists>ds s'. socket_service_loop (Suc k) mar rid b (Some s) =
             (Panicked (PanicErr (fin (under b))), Some s') \<and>
           concat ds = bufio_pending b \<and> (\<forall>d \<in> set ds. d \<noteq> [] \<and> length d \<le> 40960) \<and>
           out_bytes s' = out_bytes s @ concat (map (frame \<circ> enc) ds)"
  using assms
proof (induction k arbitrary: b s)
  case 0
  then obtain b' where "bufio_read b 40960 = ([], Some (fin (under b)), b')"
    using bufio_read_end [of b 40960] by auto
  then show ?case
    using 0 by (auto simp: Read_def intro: exI [of _ "[]"])
next
  case (Suc k)
  show ?case
  proof (cases "bufio_pending b = []")
    case True
    then obtain b' where "bufio_read b 40960 = ([], Some (fin (under b)), b')"
      using bufio_read_end [of b 40960] Suc.prems(1) by auto
    then show ?thesis
      using True by (auto simp: Read_def intro: exI [of _ "[]"])
  next
    case False
    then obtain d b1 where d: "Read 40960 b = (Inr d, b1)" "d \<noteq> []" "length d \<le> 40960"
        "bufio_pending b = d @ bufio_pending b1" "bufio_ok b1" "fin (under b1) = fin (under b)"
      using Read_ok [OF Suc.prems(1), of 40960] by auto
    obtain s1 where s1: "forward_data mar rid d s = (Inr (), s1)" "werrs s1 = []"
        "out_bytes s1 = out_bytes s @ frame (enc d)"
      using forward_data_ok [of mar rid d "enc d" s] Suc.prems(2,4) by auto
    have "length (bufio_pending b1) \<le> k"
      using d(2,4) Suc.prems(3) by (cases d) auto
    then obtain ds s' where "socket_service_loop (Suc k) mar rid b1 (Some s1) =
          (Panicked (PanicErr (fin (under b1))), Some s')"
        "concat ds = bufio_pending b1" "\<forall>d \<in> set ds. d \<noteq> [] \<and> length d \<le> 40960"
        "out_bytes s' = out_bytes s1 @ concat (map (frame \<circ> enc) ds)"
      using Suc.IH [OF d(5) s1(2) _ Suc.prems(4)] by blast
    moreover have "socket_service_loop (Suc (Suc k)) mar rid b (Some s) =
        socket_service_loop (Suc k) mar rid b1 (Some s1)"
      using d(1) s1(1) by (subst socket_service_loop.simps(2)) simp
    ultimately show ?thesis
      using d s1(3) by (intro exI [of _ "d # ds"] exI [of _ s'])
        (simp add: comp_def del: socket_service_loop.simps(2))
  qed
qed

text \<open>
  C14. Socket data of the service reaches the client. When a service's messages arrive at the service
  side gateway as one piece each, of at most 40960 bytes, the gateway forwards one wrapped message
  per piece; if the pieces on the stream between the gateways respect frames, the client side
  gateway's handler receives them all and writes exactly one frame per message to the client's
  connection, and to no other.
\<close>

theorem service_data_end_to_end:
  assumes "chunks c = ds" and "\<forall>d \<in> set ds. d \<noteq> [] \<and> length d \<le> 40960"
    and "\<forall>d \<in> set ds. mar \<lparr>dat_RequestId = rid, dat_RawData = d\<rparr> = Inr (enc d)" and "codec_ok mar unm"
    and "aligned css (map enc ds)" and "chunks c' = concat css"
    and "clientSocketConns n rid = Some h" and "werrs (outs h) = []"
  shows "\<exists>st outs'. socket_service_loop (length ds) mar rid (NewReader c) (Some no_stream) = (Running, Some st) \<and>
     out_bytes st = concat (map (frame \<circ> enc) ds) \<and>
     fst (ReadBytesViaStream (length ds) (Conn c')) = map (Data \<circ> enc) ds \<and>
     socket_data_loop unm ProxySocketDataFromServiceSide (map (Data \<circ> enc) ds) n outs = Inr outs' \<and>
     out_bytes (outs' h) = out_bytes (outs h) @ concat (map frame ds) \<and>
     (\<forall>h'. h' \<noteq> h \<longrightarrow> outs' h' = outs h')"
  using assms by (rule service_data_carried)

theorem service_data_end_to_end_witness:
  "\<exists>outs'. socket_data_loop (\<lambda>b. Inr \<lparr>dat_RequestId = ''r'', dat_RawData = b\<rparr>) ProxySocketDataFromServiceSide
       [Data [7, 9], Data [5]] (sample_node\<lparr>clientSocketConns := [''r'' \<mapsto> 4]\<rparr>) (\<lambda>_. no_stream) = Inr outs' \<and>
     out_bytes (outs' 4) = [0, 0, 0, 0, 0, 0, 0, 2, 7, 9, 0, 0, 0, 0, 0, 0, 0, 1, 5]"
proof -
  let ?mar = "\<lambda>x. if dat_RequestId x = ''r'' then Inr (dat_RawData x) else Inl EOF"
  let ?unm = "\<lambda>b. Inr \<lparr>dat_RequestId = ''r'', dat_RawData = b\<rparr>"
  let ?ds = "[[7, 9], [5]] :: bytes list" and ?css = "[[[0, 0, 0, 0, 0, 0, 0, 2], [7, 9]], [[0, 0, 0, 0, 0, 0, 0, 1], [5]]]"
  have f: "frame [7, 9] = [0, 0, 0, 0, 0, 0, 0, 2, 7, 9]" "frame [5] = [0, 0, 0, 0, 0, 0, 0, 1, 5]"
    by code_simp+
  have "aligned ?css (map id ?ds)"
    by (simp add: aligned_def f max_alloc_def)
  moreover have "codec_ok ?mar ?unm"
    by (auto simp: codec_ok_def split: if_splits)
  ultimately show ?thesis
    using service_data_end_to_end [of "\<lparr>chunks = ?ds, fin = EOF\<rparr>" ?ds ?mar "''r''" id ?unm ?css "\<lparr>chunks = concat ?css, fin = EOF\<rparr>"
        "sample_node\<lparr>clientSocketConns := [''r'' \<mapsto> 4]\<rparr>" 4 "\<lambda>_. no_stream"]
    by (auto simp: f no_stream_def out_bytes_def)
qed

text \<open>
  C30. What the service sends is passed on completely, and its closing the connection stops the
  service side gateway. For every way the service's bytes arrive, the forwarding loop sends
  non-empty wrapped pieces of at most 40960 bytes whose concatenation is exactly those bytes, and
  then, on the error that ends the stream, \<open>EOF\<close> included, panics.
\<close>

theorem service_stream_forwarded:
  assumes "length (conn_pending c) \<le> k"
    and "\<forall>d. mar \<lparr>dat_RequestId = rid, dat_RawData = d\<rparr> = Inr (enc d)"
  shows "\<exists>ds st. socket_service_loop (Suc k) mar rid (NewReader c) (Some no_stream) =
             (Panicked (PanicErr (fin c)), Some st) \<and>
           concat ds = conn_pending c \<and> (\<forall>d \<in> set ds. d \<noteq> [] \<and> length d \<le> 40960) \<and>
           out_bytes st = concat (map (frame \<circ> enc) ds)"
  using socket_service_loop_all [of "NewReader c" no_stream k mar rid enc] assms
  by (simp add: no_stream_def out_bytes_def)

theorem service_stream_forwarded_witness:
  "\<exists>ds st. socket_service_loop 4 (\<lambda>x. Inr (dat_RawData x)) ''r'' (NewReader \<lparr>chunks = [[1, 2], [3]], fin = EOF\<rparr>)
       (Some no_stream) = (Panicked (PanicErr EOF), Some st) \<and>
     concat ds = [1, 2, 3] \<and> out_bytes st = concat (map (frame \<circ> id) ds)"
  using service_stream_forwarded [of "\<lparr>chunks = [[1, 2], [3]], fin = EOF\<rparr>" 3 "\<lambda>x. Inr (dat_RawData x)" "''r''" id]
  by (auto simp: conn_pending_def numeral_eq_Suc simp del: socket_service_loop.simps)

end
