(* ===== verification/Gateway.thy ===== *)
theory Gateway
  imports Report Socket_Proxy
begin

text \<open>
  The gateway program: joining the DHT (\<open>dht.go\<close>), peer discovery (\<open>discover.go\<close>) and \<open>main\<close>
  (\<open>cmd/gateway/main.go\<close>), which reads the command line, creates the node and starts its servers
  and tasks. libp2p is a parameter: \<open>gateway_env\<close> collects what its calls return.
\<close>

section \<open>The DHT (dht.go)\<close>

text \<open>
  \<open>addrInfo\<close> is \<open>AddrInfoFromP2pAddr\<close>, nil (\<open>None\<close>) for an address without a peer id, whose error
  the code ignores; \<open>connect\<close> is \<open>host.Connect\<close>. The connecting goroutines have all finished when
  \<open>NewKDHT\<close> returns; one that panics ends the process.
\<close>

record kdht =
  kd_ModeServer :: bool
  kd_connected :: "peer_id list"

fun connect_all ::
  "(multiaddr \<Rightarrow> peer_id option) \<Rightarrow> (peer_id \<Rightarrow> go_error option) \<Rightarrow> AddrList \<Rightarrow> go_stop + peer_id list" where
  "connect_all addrInfo connect [] = Inr []"
| "connect_all addrInfo connect (peerAddr # addrs) =
     (case addrInfo peerAddr of
        None \<Rightarrow> Inl PanicNil
      | Some peerInfo \<Rightarrow>
          bindP (connect_all addrInfo connect addrs) (\<lambda>ps.
            Inr (case connect peerInfo of Some err \<Rightarrow> ps | None \<Rightarrow> peerInfo # ps)))"

definition NewKDHT ::
  "(bool \<Rightarrow> go_error option) \<Rightarrow> go_error option \<Rightarrow> (multiaddr \<Rightarrow> peer_id option) \<Rightarrow> (peer_id \<Rightarrow> go_error option) \<Rightarrow>
     AddrList \<Rightarrow> go_stop + (go_error + kdht)" where
  "NewKDHT dht_New bootstrap addrInfo connect bootstrapPeers =
     (let modeServer = (length bootstrapPeers = 0) in
      bindP (CheckError (dht_New modeServer)) (\<lambda>_.
        case bootstrap of
          Some err \<Rightarrow> Inr (Inl err)
        | None \<Rightarrow> bindP (connect_all addrInfo connect bootstrapPeers) (\<lambda>ps.
            Inr (Inr \<lparr>kd_ModeServer = modeServer, kd_connected = ps\<rparr>))))"

lemma connect_all_ok:
  "\<forall>a \<in> set addrs. addrInfo a \<noteq> None \<Longrightarrow>
    connect_all addrInfo connect addrs = Inr (filter (\<lambda>p. connect p = None) (map (the \<circ> addrInfo) addrs))"
  by (induction addrs) (auto split: option.splits)

lemma connect_all_bad: "\<exists>a \<in> set addrs. addrInfo a = None \<Longrightarrow> connect_all addrInfo connect addrs = Inl PanicNil"
  by (induction addrs) (fastforce split: option.splits)+

section \<open>Discovery (discover.go)\<close>

text \<open>
  The loop of \<open>Discover\<close> over the events its \<open>select\<close> receives. The peers found are looked at and
  nothing is done with them.
\<close>

datatype discover_event = CtxDone | Tick "go_error + peer_id list"

fun Discover :: "discover_event list \<Rightarrow> loop_state" where
  "Discover [] = Running"
| "Discover (CtxDone # es) = Finished"
| "Discover (Tick (Inl err) # es) = Panicked (PanicErr err)"
| "Discover (Tick (Inr peers) # es) = Discover es"

section \<open>The command line (cmd/gateway)\<close>

record gateway_flags =
  gf_config :: NodeConfig
  gf_apiKey :: string
  gf_apiSecret :: string

definition gateway_defaults :: gateway_flags where
  "gateway_defaults =
     \<lparr>gf_config = zero_config\<lparr>InternalPort := 2145, ForwardServiceAddr := '':8080'',
        SocketForwardServiceAddr := ''localhost:9980'', MgmtAddr := '':8082'',
        Rendezvous := ''ApronServiceNetwork'', SecretKey := 0, ReportInterval := 15\<rparr>,
      gf_apiKey = '''', gf_apiSecret = ''''\<rparr>"

definition peers_flag :: "(string \<Rightarrow> go_error + multiaddr) \<Rightarrow> gateway_flags setter" where
  "peers_flag newMultiaddr v c =
     bindP (AddrList_Set newMultiaddr v (BootstrapPeers (gf_config c))) (\<lambda>al.
       Inr (c\<lparr>gf_config := (gf_config c)\<lparr>BootstrapPeers := al\<rparr>\<rparr>))"

definition gateway_flag_set :: "(string \<Rightarrow> go_error + multiaddr) \<Rightarrow> string \<rightharpoonup> gateway_flags setter" where
  "gateway_flag_set newMultiaddr =
     [''peers'' \<mapsto> peers_flag newMultiaddr,
      ''p2p-port'' \<mapsto> int_flag (\<lambda>f. gf_config_update (InternalPort_update f)),
      ''service-addr'' \<mapsto> string_flag (\<lambda>f. gf_config_update (ForwardServiceAddr_update f)),
      ''socket-service-addr'' \<mapsto> string_flag (\<lambda>f. gf_config_update (SocketForwardServiceAddr_update f)),
      ''mgmt-addr'' \<mapsto> string_flag (\<lambda>f. gf_config_update (MgmtAddr_update f)),
      ''rendezvous'' \<mapsto> string_flag (\<lambda>f. gf_config_update (Rendezvous_update f)),
      ''secret-key'' \<mapsto> int_flag (\<lambda>f. gf_config_update (SecretKey_update f)),
      ''report-interval'' \<mapsto> int_flag (\<lambda>f. gf_config_update (ReportInterval_update f)),
      ''ipfs-key'' \<mapsto> string_flag gf_apiKey_update,
      ''ipfs-secret'' \<mapsto> string_flag gf_apiSecret_update]"

section \<open>main (cmd/gateway)\<close>

record gateway_env =
  genv_newMultiaddr :: "string \<Rightarrow> go_error + multiaddr"
  genv_libp2p_New :: "multiaddr option \<Rightarrow> key_source \<Rightarrow> go_error + peer_id"
  genv_NewGossipSub :: "go_error option"
  genv_Join :: "go_error option"
  genv_Subscribe :: "go_error option"
  genv_dht_New :: "bool \<Rightarrow> go_error option"
  genv_dht_Bootstrap :: "go_error option"
  genv_addrInfo :: "multiaddr \<Rightarrow> peer_id option"
  genv_connect :: "peer_id \<Rightarrow> go_error option"

text \<open>The goroutines that run when \<open>main\<close> has come to its final \<open>select\<close>.\<close>

datatype gateway_task =
    ListenServiceBroadcast
  | UpdatePeersTask
  | DiscoverTask string
  | MgmtApiServer string
  | ForwardService string
  | SocketForwardService string
  | UploadUsageReportTask int LocalFileAgent

record running_gateway =
  gw_node :: Node
  gw_handlers :: "string \<rightharpoonup> stream_handler"
  gw_kdht :: kdht
  gw_tasks :: "gateway_task list"

definition gateway_main :: "gateway_env \<Rightarrow> string list \<Rightarrow> startup_failure + running_gateway" where
  "gateway_main env args =
     bindP (must_Parse (gateway_flag_set (genv_newMultiaddr env)) args gateway_defaults) (\<lambda>(flags, _).
       let config = gf_config flags in
     bindP (stopped (must (NewNode (genv_newMultiaddr env) (genv_libp2p_New env) config))) (\<lambda>n0.
     bindP (stopped (SetupServiceBroadcastListener (genv_NewGossipSub env) (genv_Join env) (genv_Subscribe env) n0)) (\<lambda>node.
       let handlers = SetProxyStreamHandlers in
     bindP (stopped (NewKDHT (genv_dht_New env) (genv_dht_Bootstrap env) (genv_addrInfo env) (genv_connect env)
              (BootstrapPeers config))) (\<lambda>r.
     bindP (stopped (must r)) (\<lambda>kd.
       let agent = \<lparr>lfa_APIKey = gf_apiKey flags, lfa_APISecret = gf_apiSecret flags, storageBase = ''''\<rparr> in
       Inr \<lparr>gw_node = node, gw_handlers = handlers, gw_kdht = kd,
         gw_tasks = [ListenServiceBroadcast, UpdatePeersTask, DiscoverTask (Rendezvous config),
           MgmtApiServer (MgmtAddr (node_Config node)), ForwardService (ForwardServiceAddr (node_Config node)),
           SocketForwardService (SocketForwardServiceAddr (node_Config node)),
           UploadUsageReportTask (ReportInterval config) agent]\<rparr>)))))"


section \<open>What the command line sets\<close>

lemmas gateway_setters = gateway_flag_set_def peers_flag_def string_flag_def int_flag_def AddrList_Set_def bindP_Inr_iff

lemma gateway_flag_names: "\<forall>n \<in> dom (gateway_flag_set newMultiaddr). flag_name_ok n"
  by (auto simp: gateway_flag_set_def flag_name_ok_def split: if_splits)

lemma gateway_flag_values:
  assumes "apply_settings (gateway_flag_set nm) kvs gateway_defaults = Some c"
  shows "ForwardServiceAddr (gf_config c) = last_setting ''service-addr'' kvs '':8080''"
    and "SocketForwardServiceAddr (gf_config c) = last_setting ''socket-service-addr'' kvs ''localhost:9980''"
    and "MgmtAddr (gf_config c) = last_setting ''mgmt-addr'' kvs '':8082''"
    and "Rendezvous (gf_config c) = last_setting ''rendezvous'' kvs ''ApronServiceNetwork''"
    and "gf_apiKey c = last_setting ''ipfs-key'' kvs ''''"
    and "gf_apiSecret c = last_setting ''ipfs-secret'' kvs ''''"
    and "Inr (InternalPort (gf_config c)) = ParseInt (last_setting ''p2p-port'' kvs ''2145'')"
    and "Inr (SecretKey (gf_config c)) = ParseInt (last_setting ''secret-key'' kvs ''0'')"
    and "Inr (ReportInterval (gf_config c)) = ParseInt (last_setting ''report-interval'' kvs ''15'')"
proof -
  have p: "ParseInt ''2145'' = Inr 2145" "ParseInt ''0'' = Inr 0" "ParseInt ''15'' = Inr 15"
    by code_simp+
  show "ForwardServiceAddr (gf_config c) = last_setting ''service-addr'' kvs '':8080''"
    and "SocketForwardServiceAddr (gf_config c) = last_setting ''socket-service-addr'' kvs ''localhost:9980''"
    and "MgmtAddr (gf_config c) = last_setting ''mgmt-addr'' kvs '':8082''"
    and "Rendezvous (gf_config c) = last_setting ''rendezvous'' kvs ''ApronServiceNetwork''"
    and "gf_apiKey c = last_setting ''ipfs-key'' kvs ''''"
    and "gf_apiSecret c = last_setting ''ipfs-secret'' kvs ''''"
    and "Inr (InternalPort (gf_config c)) = ParseInt (last_setting ''p2p-port'' kvs ''2145'')"
    and "Inr (SecretKey (gf_config c)) = ParseInt (last_setting ''secret-key'' kvs ''0'')"
    and "Inr (ReportInterval (gf_config c)) = ParseInt (last_setting ''report-interval'' kvs ''15'')"
    by (rule apply_settings_last [OF assms],
        (auto simp: p gateway_defaults_def gateway_setters split: if_splits) [3])+
qed

text \<open>The addresses of several \<open>peers\<close> flags add up.\<close>

lemma gateway_peers:
  "apply_settings (gateway_flag_set nm) kvs c = Some c' \<Longrightarrow>
    map Inr (BootstrapPeers (gf_config c')) =
    map Inr (BootstrapPeers (gf_config c)) @ map nm (map snd (filter (\<lambda>kv. fst kv = ''peers'') kvs))"
proof (induction kvs arbitrary: c)
  case Nil
  then show ?case by simp
next
  case (Cons kv kvs)
  obtain m v where kv: "kv = (m, v)" by fastforce
  then obtain st c1 where st: "gateway_flag_set nm m = Some st" "st v c = Inr c1"
      "apply_settings (gateway_flag_set nm) kvs c1 = Some c'"
    using Cons.prems by (auto split: option.splits sum.splits)
  have "map Inr (BootstrapPeers (gf_config c1)) =
      map Inr (BootstrapPeers (gf_config c)) @ (if m = ''peers'' then [nm v] else [])"
    using st(1,2) by (auto simp: gateway_setters split: if_splits)
  then show ?case
    using Cons.IH [OF st(3)] kv by simp
qed


section \<open>Properties\<close>

text \<open>
  C18. A gateway starts as its command line says. For every list of flag settings, each spelled in
  any of the four ways, whose values are accepted, and a network layer whose calls succeed,
  \<open>main\<close> comes to its final \<open>select\<close>: the node is ready, its configuration has for every flag the last
  value given or the default, with the bootstrap addresses of all \<open>peers\<close> flags in order, its key
  comes from the secret key, the handlers of all protocols are installed, the DHT is a server
  exactly when there is no bootstrap peer and is connected to those that answered, and every server
  listens on its configured address. (The default of the management server, \<open>:8082\<close>, is every
  interface; the README and \<open>docs/use_case.md\<close> say \<open>localhost:8082\<close>.)
\<close>

theorem gateway_starts:
  assumes "list_all2 (\<lambda>ws (n, v). ws \<in> spelled n v) wss kvs"
    and "apply_settings (gateway_flag_set (genv_newMultiaddr env)) kvs gateway_defaults = Some flags"
    and "\<forall>addr key. genv_libp2p_New env addr key = Inr (host key)"
    and "genv_NewGossipSub env = None" and "genv_Join env = None" and "genv_Subscribe env = None"
    and "\<forall>m. genv_dht_New env m = None" and "genv_dht_Bootstrap env = None"
    and "\<forall>a \<in> set (BootstrapPeers (gf_config flags)). genv_addrInfo env a \<noteq> None"
  shows "\<exists>g. gateway_main env (concat wss) = Inr g \<and> node_ready (gw_node g) \<and>
     node_Config (gw_node g) = gf_config flags \<and>
     map Inr (BootstrapPeers (gf_config flags)) =
       map (genv_newMultiaddr env) (map snd (filter (\<lambda>kv. fst kv = ''peers'') kvs)) \<and>
     Inr (SecretKey (gf_config flags)) = ParseInt (last_setting ''secret-key'' kvs ''0'') \<and>
     node_Host (gw_node g) = host (key_source_of (SecretKey (gf_config flags))) \<and>
     gw_handlers g = SetProxyStreamHandlers \<and>
     gw_kdht g = \<lparr>kd_ModeServer = (BootstrapPeers (gf_config flags) = []),
       kd_connected = filter (\<lambda>p. genv_connect env p = None)
         (map (the \<circ> genv_addrInfo env) (BootstrapPeers (gf_config flags)))\<rparr> \<and>
     {MgmtApiServer (last_setting ''mgmt-addr'' kvs '':8082''),
      ForwardService (last_setting ''service-addr'' kvs '':8080''),
      SocketForwardService (last_setting ''socket-service-addr'' kvs ''localhost:9980'')} \<subseteq> set (gw_tasks g)"
proof -
  have parse: "must_Parse (gateway_flag_set (genv_newMultiaddr env)) (concat wss) gateway_defaults = Inr (flags, [])"
    using flag_Parse_settings [OF assms(1) gateway_flag_names assms(2)] by (simp add: must_Parse_def)
  obtain n0 where n0: "NewNode (genv_newMultiaddr env) (genv_libp2p_New env) (gf_config flags) = Inr n0"
    using assms(3) by (simp add: NewNode_def)
  let ?node = "n0\<lparr>broadcastServiceTopic := True, selfID := node_Host n0\<rparr>"
  have n1: "SetupServiceBroadcastListener None None None n0 = Inr ?node"
    by (simp add: SetupServiceBroadcastListener_def)
  have "node_ready ?node"
    unfolding node_ready_def using n0 n1 by blast
  moreover have "node_Config n0 = gf_config flags" "node_Host n0 = host (key_source_of (SecretKey (gf_config flags)))"
    using NewNode_InrD(3,5) [OF n0] assms(3) by auto
  moreover have "NewKDHT (genv_dht_New env) (genv_dht_Bootstrap env) (genv_addrInfo env) (genv_connect env)
      (BootstrapPeers (gf_config flags)) = Inr (Inr \<lparr>kd_ModeServer = (BootstrapPeers (gf_config flags) = []),
       kd_connected = filter (\<lambda>p. genv_connect env p = None)
         (map (the \<circ> genv_addrInfo env) (BootstrapPeers (gf_config flags)))\<rparr>)"
    using assms(7-9) by (simp add: NewKDHT_def connect_all_ok)
  moreover have "map Inr (BootstrapPeers (gf_config flags)) =
      map (genv_newMultiaddr env) (map snd (filter (\<lambda>kv. fst kv = ''peers'') kvs))"
    using gateway_peers [OF assms(2)] by (simp add: gateway_defaults_def zero_config_def)
  ultimately show ?thesis
    using gateway_flag_values [OF assms(2)]
    by (simp add: gateway_main_def Let_def parse n0 n1 assms(4-6))
qed

definition sample_genv :: gateway_env where
  "sample_genv = \<lparr>genv_newMultiaddr = Inr, genv_libp2p_New = (\<lambda>_ key. Inr (case key of RandomSeed \<Rightarrow> ''rnd'' | Seed b \<Rightarrow> string_of_bytes b)),
     genv_NewGossipSub = None, genv_Join = None, genv_Subscribe = None, genv_dht_New = (\<lambda>_. None),
     genv_dht_Bootstrap = None, genv_addrInfo = Some, genv_connect = (\<lambda>_. None)\<rparr>"

theorem gateway_starts_witness:
  "\<exists>g. gateway_main sample_genv [''-secret-key'', ''1'', ''--peers=/ip4/10.0.0.2/tcp/2145/p2p/Qm'', ''-mgmt-addr'', '':9000''] = Inr g \<and>
     node_ready (gw_node g) \<and> SecretKey (node_Config (gw_node g)) = 1 \<and>
     kd_connected (gw_kdht g) = [''/ip4/10.0.0.2/tcp/2145/p2p/Qm''] \<and> MgmtApiServer '':9000'' \<in> set (gw_tasks g)"
proof -
  let ?wss = "[[''-secret-key'', ''1''], [''--peers=/ip4/10.0.0.2/tcp/2145/p2p/Qm''], [''-mgmt-addr'', '':9000'']]"
  let ?kvs = "[(''secret-key'', ''1''), (''peers'', ''/ip4/10.0.0.2/tcp/2145/p2p/Qm''), (''mgmt-addr'', '':9000'')]"
  let ?config = "(gf_config gateway_defaults)\<lparr>SecretKey := 1, BootstrapPeers := [''/ip4/10.0.0.2/tcp/2145/p2p/Qm''], MgmtAddr := '':9000''\<rparr>"
  have "ParseInt ''1'' = Inr 1"
    by code_simp
  then have "apply_settings (gateway_flag_set (genv_newMultiaddr sample_genv)) ?kvs gateway_defaults =
      Some (gateway_defaults\<lparr>gf_config := ?config\<rparr>)"
    by (simp add: gateway_setters sample_genv_def gateway_defaults_def zero_config_def)
  moreover have "list_all2 (\<lambda>ws (n, v). ws \<in> spelled n v) ?wss ?kvs"
    by (simp add: spelled_def)
  ultimately have "\<exists>g. gateway_main sample_genv (concat ?wss) = Inr g \<and> node_ready (gw_node g) \<and>
     node_Config (gw_node g) = ?config \<and>
     gw_kdht g = \<lparr>kd_ModeServer = (BootstrapPeers ?config = []),
       kd_connected = filter (\<lambda>p. genv_connect sample_genv p = None)
         (map (the \<circ> genv_addrInfo sample_genv) (BootstrapPeers ?config))\<rparr> \<and>
     {MgmtApiServer (last_setting ''mgmt-addr'' ?kvs '':8082''),
      ForwardService (last_setting ''service-addr'' ?kvs '':8080''),
      SocketForwardService (last_setting ''socket-service-addr'' ?kvs ''localhost:9980'')} \<subseteq> set (gw_tasks g)"
    using gateway_starts [of ?wss ?kvs sample_genv "gateway_defaults\<lparr>gf_config := ?config\<rparr>"
        "\<lambda>key. case key of RandomSeed \<Rightarrow> ''rnd'' | Seed b \<Rightarrow> string_of_bytes b"]
    by (auto simp: sample_genv_def)
  then show ?thesis
    by (auto simp: sample_genv_def)
qed


text \<open>A bootstrap address without a peer id ends the gateway with a nil dereference.\<close>

lemma bad_bootstrap_peer_panics:
  assumes "dht_New (bootstrapPeers = []) = None" and "\<exists>a \<in> set bootstrapPeers. addrInfo a = None"
  shows "NewKDHT dht_New None addrInfo connect bootstrapPeers = Inl PanicNil"
  using assms by (simp add: NewKDHT_def connect_all_bad)

text \<open>
  Streams are opened only on protocols that have a handler. Whatever a network does with streams
  on other protocol ids, it makes no difference: two networks that agree on the protocols of the
  handler table give the same result in every operation of both gateways that opens a stream. Since
  all gateways install the same table, no stream finds a peer without a handler for it.
\<close>

lemma streams_are_handled:
  assumes "\<forall>p. \<forall>proto \<in> dom SetProxyStreamHandlers. newStream p proto = newStream' p proto"
  shows "StartForwardService mar id_string newStream dump req isWs uuid ch n =
       StartForwardService mar id_string newStream' dump req isWs uuid ch n"
    and "serveWebsocketRequest dmar newStream upgrade peer sreq msgs n = serveWebsocketRequest dmar newStream' upgrade peer sreq msgs n"
    and "ProxyHttpInitRequestHandler (env\<lparr>env_newStream := newStream\<rparr>) msg n =
       ProxyHttpInitRequestHandler (env\<lparr>env_newStream := newStream'\<rparr>) msg n"
    and "StartSocketForwardService iunm smar id_string newStream uuid ch h c n =
       StartSocketForwardService iunm smar id_string newStream' uuid ch h c n"
    and "ProxySocketInitReqHandler iunm peer_decode dial newStream c n =
       ProxySocketInitReqHandler iunm peer_decode dial newStream' c n"
proof -
  have agree: "newStream p ProxyHttpInitReq = newStream' p ProxyHttpInitReq"
    "newStream p ProxyWsDataFromClientSide = newStream' p ProxyWsDataFromClientSide"
    "newStream p ProxyWsDataFromServiceSide = newStream' p ProxyWsDataFromServiceSide"
    "newStream p ProxyHttpRespFromServiceSide = newStream' p ProxyHttpRespFromServiceSide"
    "newStream p ProxySocketInitReq = newStream' p ProxySocketInitReq"
    "newStream p ProxySocketDataFromClientSide = newStream' p ProxySocketDataFromClientSide"
    "newStream p ProxySocketDataFromServiceSide = newStream' p ProxySocketDataFromServiceSide" for p
    using assms by (auto simp: SetProxyStreamHandlers_def)
  show "StartForwardService mar id_string newStream dump req isWs uuid ch n =
       StartForwardService mar id_string newStream' dump req isWs uuid ch n"
    unfolding StartForwardService_def agree ..
  show "serveWebsocketRequest dmar newStream upgrade peer sreq msgs n = serveWebsocketRequest dmar newStream' upgrade peer sreq msgs n"
    unfolding serveWebsocketRequest_def agree ..
  show "StartSocketForwardService iunm smar id_string newStream uuid ch h c n =
       StartSocketForwardService iunm smar id_string newStream' uuid ch h c n"
    unfolding StartSocketForwardService_def agree ..
  show "ProxySocketInitReqHandler iunm peer_decode dial newStream c n =
       ProxySocketInitReqHandler iunm peer_decode dial newStream' c n"
    unfolding ProxySocketInitReqHandler_def agree ..
  have env: "env_newStream (env\<lparr>env_newStream := x\<rparr>) = x"
    "env_unm_req (env\<lparr>env_newStream := x\<rparr>) = env_unm_req env"
    "env_mar_data (env\<lparr>env_newStream := x\<rparr>) = env_mar_data env"
    "env_recover (env\<lparr>env_newStream := x\<rparr>) = env_recover env"
    "env_peer_decode (env\<lparr>env_newStream := x\<rparr>) = env_peer_decode env"
    "env_url_parse (env\<lparr>env_newStream := x\<rparr>) = env_url_parse env"
    "env_uri_args (env\<lparr>env_newStream := x\<rparr>) = env_uri_args env"
    "env_http_do (env\<lparr>env_newStream := x\<rparr>) = env_http_do env"
    "env_ws_dial (env\<lparr>env_newStream := x\<rparr>) = env_ws_dial env" for x
    by simp_all
  show "ProxyHttpInitRequestHandler (env\<lparr>env_newStream := newStream\<rparr>) msg n =
       ProxyHttpInitRequestHandler (env\<lparr>env_newStream := newStream'\<rparr>) msg n"
    unfolding ProxyHttpInitRequestHandler_def env agree ..
qed

end
