(* ===== verification/Socks5.thy ===== *)
theory Socks5
  imports Go_Net
begin

text \<open>
  SOCKS5 parsing and dialling of the agents, \<open>internal/ext_protocols/socks5\<close>: the constants,
  the credential store, the client greeting and connect request read by the client side agent
  (\<open>apron_client_agent.go\<close>), and the handshake the service side agent performs with the SOCKS5
  service (\<open>connectToSocks5Service\<close> of \<open>apron_agent_server.go\<close>).

  A read returns what one read of the underlying connection delivers, so the parser's behaviour
  depends on how the client's bytes are cut into chunks where it uses \<open>Read\<close> instead of
  \<open>ReadAtLeast\<close>; the properties say where that matters.
\<close>

section \<open>The code\<close>

definition socks5Version :: byte where "socks5Version = 5"
definition socks5AuthNone :: byte where "socks5AuthNone = 0"
definition socks5ConnectCommand :: byte where "socks5ConnectCommand = 1"
definition socks5IPv4 :: byte where "socks5IPv4 = 1"
definition socks5IPv6 :: byte where "socks5IPv6 = 4"
definition socks5Domain :: byte where "socks5Domain = 3"

lemmas socks5_consts = socks5Version_def socks5AuthNone_def socks5ConnectCommand_def
  socks5IPv4_def socks5IPv6_def socks5Domain_def

definition unknownAddressType :: go_error where
  "unknownAddressType = ErrMsg ''unknown address type''"

definition Valid :: "(string \<rightharpoonup> string) \<Rightarrow> string \<Rightarrow> string \<Rightarrow> bool" where
  "Valid s user password = (case s user of None \<Rightarrow> False | Some pass \<Rightarrow> password = pass)"

record ApronSocks5ConnectRequest =
  Version :: byte
  Command :: byte
  DestAddr :: string
  DestPort :: int

definition validateVersion :: "bufio \<Rightarrow> (go_error + unit) \<times> bufio" where
  "validateVersion reader =
     bindR (ReadByte reader) (\<lambda>version r.
       if version \<noteq> socks5Version
       then (Inl (ErrMsg (''invalid socks version: '' @ to_base 10 (unat version))), r)
       else (Inr (), r))"

text \<open>The result of reading the authentication methods is ignored, errors included.\<close>

definition handleClientGreetingPackage ::
  "bufio \<Rightarrow> net_out \<Rightarrow> (go_error + unit) \<times> bufio \<times> net_out" where
  "handleClientGreetingPackage reader conn =
     (case validateVersion reader of
        (Inl err, r1) \<Rightarrow> (Inl err, r1, conn)
      | (Inr _, r1) \<Rightarrow>
          (case ReadByte r1 of
             (Inl err, r2) \<Rightarrow> (Inl err, r2, conn)
           | (Inr numAuthMethods, r2) \<Rightarrow>
               (case bufio_read r2 (unat numAuthMethods) of (_, _, r3) \<Rightarrow>
                 (case conn_write conn [socks5Version, socks5AuthNone] of
                    (Some err, w) \<Rightarrow> (Inl err, r3, w)
                  | (None, w) \<Rightarrow> (Inr (), r3, w)))))"

definition read_dest_addr :: "byte \<Rightarrow> bufio \<Rightarrow> (go_error + string) \<times> bufio" where
  "read_dest_addr addrType reader =
     (if addrType = socks5IPv4 then
        bindR (ReadFull bufio_read 4 reader) (\<lambda>addr r. (Inr (ip_string addr), r))
      else if addrType = socks5IPv6 then
        bindR (ReadFull bufio_read 16 reader) (\<lambda>addr r. (Inr (ip_string addr), r))
      else if addrType = socks5Domain then
        bindR (Read 1 reader) (\<lambda>d r.
          let addrLen = unat (filled [addrType] d ! 0) in
          bindR (ReadFull bufio_read addrLen r) (\<lambda>fqdn r2. (Inr (string_of_bytes fqdn), r2)))
      else (Inl unknownAddressType, reader))"

definition read_connect_request :: "bufio \<Rightarrow> (go_error + ApronSocks5ConnectRequest) \<times> bufio" where
  "read_connect_request reader =
     bindR (Read 3 reader) (\<lambda>buf r1.
       if length buf \<noteq> 3 then (Inl (ErrMsg ''read size not equals 3''), r1)
       else
         bindR (Read 1 r1) (\<lambda>d r2.
         bindR (read_dest_addr (filled [0] d ! 0) r2) (\<lambda>addr r3.
         bindR (ReadFull bufio_read 2 r3) (\<lambda>port r4.
           (Inr \<lparr>Version = buf ! 0, Command = buf ! 1, DestAddr = addr,
                 DestPort = push_bit 8 (uint (port ! 0)) OR uint (port ! 1)\<rparr>, r4)))))"

text \<open>
  \<open>buildSocks5ConnectRequest\<close>: result, what it wrote to the client, and what is left of the
  connection. The \<open>bufio.Reader\<close> is local, so what it had read ahead is not in the remainder.
\<close>

definition buildSocks5ConnectRequest ::
  "net_in \<Rightarrow> net_out \<Rightarrow> (go_error + ApronSocks5ConnectRequest) \<times> net_out \<times> net_in" where
  "buildSocks5ConnectRequest conn_in conn_out =
     (case handleClientGreetingPackage (NewReader conn_in) conn_out of
        (Inl err, r, w) \<Rightarrow> (Inl err, w, under r)
      | (Inr _, r, w) \<Rightarrow>
          (case read_connect_request r of (res, r2) \<Rightarrow> (res, w, under r2)))"

section \<open>The handshake with the service\<close>

definition connect_bytes :: "ApronSocks5ConnectRequest \<Rightarrow> bytes" where
  "connect_bytes q =
     [socks5Version, socks5ConnectCommand, 0, socks5Domain, word_of_nat (length (DestAddr q))]
     @ bytes_of_string (DestAddr q) @ be_put 2 (word_of_int (DestPort q) :: uint16)"

text \<open>
  The reply is read with one \<open>Read\<close> into a zeroed buffer of 256 bytes. The address and port taken
  from it are only logged; \<open>reply_addr\<close> keeps them because a slice bound in their computation can
  panic.
\<close>

definition reply_addr :: "bytes \<Rightarrow> go_stop + (string \<times> uint16)" where
  "reply_addr response =
     (let addrType = response ! 3;
          port = be_get (drop (length response - 2) response) in
      if addrType = socks5IPv4 then Inr (ip_string (take 4 (drop 4 response)), port)
      else if addrType = socks5Domain then
        (let domainLen = unat (response ! 4) in
         if 5 + domainLen \<le> length response
         then Inr (string_of_bytes (take domainLen (drop 5 response)), port)
         else Inl PanicIndex)
      else if addrType = socks5IPv6 then Inr (ip_string (take 16 (drop 4 response)), port)
      else Inr ([], port))"

text \<open>\<open>dial\<close> is the result of \<open>net.Dial\<close>: the two sides of the new connection.\<close>

definition connectToSocks5Service ::
  "go_error + (net_in \<times> net_out) \<Rightarrow> ApronSocks5ConnectRequest \<Rightarrow> go_stop + (net_in \<times> net_out)" where
  "connectToSocks5Service dial q =
     (case dial of
        Inl err \<Rightarrow> Inl (PanicLog ''failed to connect service'')
      | Inr (ci, co) \<Rightarrow>
          (case conn_write co [socks5Version, 1, socks5AuthNone] of
             (Some err, _) \<Rightarrow> Inl (PanicLog ''failed to send socks5AuthNone data'')
           | (None, co1) \<Rightarrow>
               (case ReadFull conn_read 2 ci of
                  (Inl err, _) \<Rightarrow> Inl (PanicLog ''failed to receive authentication response'')
                | (Inr authResponse, ci1) \<Rightarrow>
                    if authResponse ! 0 \<noteq> socks5Version \<or> authResponse ! 1 \<noteq> socks5AuthNone
                    then Inl (PanicLog ''unexpected authentication response'')
                    else
                      (case conn_write co1 (connect_bytes q) of
                         (Some err, _) \<Rightarrow> Inl (PanicLog ''Failed to send connect request'')
                       | (None, co2) \<Rightarrow>
                           (case Read 256 (NewReader ci1) of
                              (Inl err, _) \<Rightarrow> Inl (PanicLog ''failed to receive connect response header'')
                            | (Inr d, r) \<Rightarrow>
                                let response = filled (replicate 256 0) d in
                                if response ! 0 \<noteq> socks5Version \<or> response ! 1 \<noteq> 0
                                then Inl (PanicLog ''unexpected connect response:'')
                                else bindP (reply_addr response) (\<lambda>_. Inr (under r, co2)))))))"

section \<open>The client's side of the protocol\<close>

datatype dest = DestIPv4 bytes | DestIPv6 bytes | DestDomain string

fun dest_ok :: "dest \<Rightarrow> bool" where
  "dest_ok (DestIPv4 b) \<longleftrightarrow> length b = 4"
| "dest_ok (DestIPv6 b) \<longleftrightarrow> length b = 16"
| "dest_ok (DestDomain s) \<longleftrightarrow> length s < 256"

fun dest_bytes :: "dest \<Rightarrow> bytes" where
  "dest_bytes (DestIPv4 b) = socks5IPv4 # b"
| "dest_bytes (DestIPv6 b) = socks5IPv6 # b"
| "dest_bytes (DestDomain s) = socks5Domain # word_of_nat (length s) # bytes_of_string s"

fun dest_text :: "dest \<Rightarrow> string" where
  "dest_text (DestIPv4 b) = ip_string b"
| "dest_text (DestIPv6 b) = ip_string b"
| "dest_text (DestDomain s) = s"

definition client_greeting :: "bytes \<Rightarrow> bytes" where
  "client_greeting methods = [socks5Version, word_of_nat (length methods)] @ methods"

definition client_request :: "byte \<Rightarrow> byte \<Rightarrow> byte \<Rightarrow> dest \<Rightarrow> uint16 \<Rightarrow> bytes" where
  "client_request version command rsv a port =
     [version, command, rsv] @ dest_bytes a @ be_put 2 port"

section \<open>Parsing what a client sends\<close>

lemma unat_of_length_byte: "n < 256 \<Longrightarrow> unat (word_of_nat n :: byte) = n"
  by (simp add: unat_of_nat take_bit_nat_eq_self)

lemma be_put_2: "be_put 2 (p :: uint16) = [ucast (drop_bit 8 p), ucast p]"
  by (simp add: be_put_def numeral_2_eq_2)

lemma port_join: "push_bit 8 (uint (ucast (drop_bit 8 p) :: byte)) OR uint (ucast p :: byte) = uint (p :: uint16)"
proof (rule bit_eqI)
  fix n
  have "n < 16" if "bit p n"
    using bit_imp_le_length [OF that] by simp
  then show "bit (push_bit 8 (uint (ucast (drop_bit 8 p) :: byte)) OR uint (ucast p :: byte)) n = bit (uint p) n"
    by (auto simp: bit_simps)
qed

lemma Read_one:
  assumes "bufio_ok b" and "bufio_pending b = x # xs"
  shows "\<exists>b'. Read 1 b = (Inr [x], b') \<and> bufio_pending b' = xs \<and> bufio_ok b'"
proof -
  obtain d b' where r: "Read 1 b = (Inr d, b')" "d \<noteq> []" "length d \<le> 1"
      "bufio_pending b = d @ bufio_pending b'" "bufio_ok b'"
    using Read_ok [OF assms(1), of 1] assms(2) by auto
  then have "d = [x]" "bufio_pending b' = xs"
    using assms(2) by (cases d; simp)+
  then show ?thesis using r by simp
qed

lemma read_dest_addr_ok:
  assumes "bufio_ok b" and "dest_ok a" and "bufio_pending b = tl (dest_bytes a) @ rest"
  shows "\<exists>b'. read_dest_addr (hd (dest_bytes a)) b = (Inr (dest_text a), b') \<and>
           bufio_pending b' = rest \<and> bufio_ok b'"
proof (cases a)
  case (DestIPv4 x)
  then show ?thesis
    using buffered.ReadFull_ok [OF assms(1), of 4] assms
    by (auto simp: read_dest_addr_def socks5_consts)
next
  case (DestIPv6 x)
  then show ?thesis
    using buffered.ReadFull_ok [OF assms(1), of 16] assms
    by (auto simp: read_dest_addr_def socks5_consts)
next
  case (DestDomain s)
  then have len: "unat (word_of_nat (length s) :: byte) = length s"
    using assms(2) by (simp add: unat_of_length_byte)
  obtain b1 where b1: "Read 1 b = (Inr [word_of_nat (length s)], b1)"
      "bufio_pending b1 = bytes_of_string s @ rest" "bufio_ok b1"
    using Read_one [OF assms(1)] assms(3) DestDomain by auto
  obtain b2 where "ReadFull bufio_read (length s) b1 = (Inr (bytes_of_string s), b2)"
      "bufio_pending b2 = rest" "bufio_ok b2"
    using buffered.ReadFull_ok [OF b1(3), of "length s"] b1(2) by auto
  then show ?thesis
    using DestDomain b1(1) len by (simp add: read_dest_addr_def socks5_consts filled_def Let_def)
qed

lemma dest_bytes_split: "dest_bytes a = hd (dest_bytes a) # tl (dest_bytes a)"
  by (cases a) auto

lemma read_connect_request_ok:
  assumes "Read 3 b = (Inr [version, command, rsv], b1)" and "bufio_ok b1" and "dest_ok a"
    and "bufio_pending b1 = dest_bytes a @ be_put 2 (port :: uint16) @ rest"
  shows "\<exists>b'. read_connect_request b =
           (Inr \<lparr>Version = version, Command = command, DestAddr = dest_text a, DestPort = uint port\<rparr>, b') \<and>
           bufio_pending b' = rest \<and> bufio_ok b'"
proof -
  obtain b2 where b2: "Read 1 b1 = (Inr [hd (dest_bytes a)], b2)"
      "bufio_pending b2 = tl (dest_bytes a) @ be_put 2 port @ rest" "bufio_ok b2"
    using Read_one [OF assms(2)] assms(4) dest_bytes_split [of a] by (metis append_Cons)
  obtain b3 where b3: "read_dest_addr (hd (dest_bytes a)) b2 = (Inr (dest_text a), b3)"
      "bufio_pending b3 = be_put 2 port @ rest" "bufio_ok b3"
    using read_dest_addr_ok [OF b2(3) assms(3) b2(2)] by blast
  obtain b4 where b4: "ReadFull bufio_read 2 b3 = (Inr (be_put 2 port), b4)"
      "bufio_pending b4 = rest" "bufio_ok b4"
    using buffered.ReadFull_ok [OF b3(3), of 2] b3(2) by auto
  show ?thesis
    using assms(1) b2(1) b3(1) b4 port_join [of port]
    by (simp add: read_connect_request_def filled_def be_put_2)
qed

text \<open>The greeting, arriving in one piece, is consumed exactly and answered.\<close>

lemma greeting_ok:
  assumes "chunks c = client_greeting methods # cs" and "length methods < 256" and "werrs w = []"
  shows "handleClientGreetingPackage (NewReader c) w =
    (Inr (), \<lparr>bbuf = [], berr = None, under = c\<lparr>chunks := cs\<rparr>\<rparr>, w\<lparr>sent := sent w @ [[socks5Version, socks5AuthNone]]\<rparr>)"
proof -
  let ?n = "word_of_nat (length methods) :: byte"
  have len: "unat ?n = length methods"
    using assms(2) by (simp add: unat_of_length_byte)
  have "conn_read c defaultBufSize = (socks5Version # ?n # methods, None, c\<lparr>chunks := cs\<rparr>)"
    using conn_read_first [of c "client_greeting methods" cs defaultBufSize] assms(1,2)
    by (simp add: client_greeting_def defaultBufSize_def)
  then have "ReadByte (NewReader c) =
      (Inr socks5Version, \<lparr>bbuf = ?n # methods, berr = None, under = c\<lparr>chunks := cs\<rparr>\<rparr>)"
    by (simp add: ReadByte_def NewReader_def)
  then have "validateVersion (NewReader c) =
      (Inr (), \<lparr>bbuf = ?n # methods, berr = None, under = c\<lparr>chunks := cs\<rparr>\<rparr>)"
    by (simp add: validateVersion_def)
  then show ?thesis
    using assms(3) len
    by (cases "methods = []")
      (simp_all add: handleClientGreetingPackage_def ReadByte_def bufio_read_def)
qed

lemma Read_3_chunk:
  assumes "chunks u = f # cs" and "f \<noteq> []"
  shows "\<exists>b'. Read 3 \<lparr>bbuf = [], berr = None, under = u\<rparr> = (Inr (take 3 f), b') \<and> bufio_ok b' \<and>
           bufio_pending b' = drop 3 f @ concat cs"
proof -
  have "conn_read u defaultBufSize = (take defaultBufSize f, None,
      u\<lparr>chunks := if length f \<le> defaultBufSize then cs else drop defaultBufSize f # cs\<rparr>)"
    using conn_read_first [OF assms] by (simp add: defaultBufSize_def)
  moreover have "take 4093 (drop 3 f) @ drop 4096 f = drop 3 f"
    using append_take_drop_id [of 4093 "drop 3 f"] by simp
  ultimately show ?thesis
    using assms
    by (auto simp: Read_def bufio_read_def defaultBufSize_def bufio_ok_def bufio_pending_def
        conn_pending_def drop_take)
qed

section \<open>Bounds on what was parsed\<close>

lemma read_dest_addr_bound:
  assumes "bufio_ok b" and "read_dest_addr t b = (Inr addr, b')"
  shows "length addr < 256 \<and> bufio_ok b'"
proof -
  have ip: "length (ip_string x) < 256" if "length x \<le> 16" for x
    using length_ip_string [OF that] by simp
  consider "t = socks5IPv4" | "t = socks5IPv6" | "t = socks5Domain"
    using assms(2) by (auto simp: read_dest_addr_def split: if_splits)
  then show ?thesis
  proof cases
    case 1
    then obtain x where "ReadFull bufio_read 4 b = (Inr x, b')" "addr = ip_string x"
      using assms(2) by (auto simp: read_dest_addr_def elim: bindR_InrE)
    then show ?thesis using buffered.ReadFull_InrD [OF assms(1)] ip by force
  next
    case 2
    then obtain x where "ReadFull bufio_read 16 b = (Inr x, b')" "addr = ip_string x"
      using assms(2) by (auto simp: read_dest_addr_def socks5_consts elim: bindR_InrE)
    then show ?thesis using buffered.ReadFull_InrD [OF assms(1)] ip by force
  next
    case 3
    then obtain d b1 x where d: "Read 1 b = (Inr d, b1)"
      and x: "ReadFull bufio_read (unat (filled [t] d ! 0)) b1 = (Inr x, b')" "addr = string_of_bytes x"
      using assms(2) by (auto simp: read_dest_addr_def socks5_consts Let_def elim!: bindR_InrE)
    have "bufio_ok b1"
      using Read_InrD(4) [OF assms(1) _ d] by simp
    moreover have "unat (filled [t] d ! 0) < 256"
      using unsigned_less [of "filled [t] d ! 0", where 'a = nat] by simp
    ultimately show ?thesis
      using buffered.ReadFull_InrD(2,3) [OF _ x(1)] x(2) by simp
  qed
qed

lemma port_bound: "0 \<le> push_bit 8 (uint (x :: byte)) OR uint (y :: byte) \<and>
    push_bit 8 (uint x) OR uint y < 65536"
proof -
  have "push_bit 8 (uint x) OR uint y = uint (be_get [x, y] :: uint16)"
    using port_join [of "be_get [x, y]"] be_put_get [of "[x, y]", where 'a = 16]
    by (simp add: be_put_2 flip: numeral_2_eq_2)
  then show ?thesis
    using unsigned_less [of "be_get [x, y] :: uint16", where 'a = int] by simp
qed

lemma read_connect_request_bound:
  assumes "bufio_ok b" and "read_connect_request b = (Inr q, b')"
  shows "length (DestAddr q) < 256 \<and> 0 \<le> DestPort q \<and> DestPort q < 65536"
proof -
  let ?port = "\<lambda>buf addr r3. bindR (ReadFull bufio_read 2 r3) (\<lambda>port r4.
      (Inr \<lparr>Version = buf ! 0, Command = buf ! 1, DestAddr = addr,
            DestPort = push_bit 8 (uint (port ! 0)) OR uint (port ! 1)\<rparr>, r4))"
  let ?addr = "\<lambda>buf d r2. bindR (read_dest_addr (filled [0] d ! 0) r2) (?port buf)"
  obtain buf b1 where r1: "Read 3 b = (Inr buf, b1)" and f1: "bindR (Read 1 b1) (?addr buf) = (Inr q, b')"
    using assms(2) unfolding read_connect_request_def
    by (elim bindR_InrE) (simp split: if_split_asm)
  obtain d b2 where r: "Read 1 b1 = (Inr d, b2)" and f2: "?addr buf d b2 = (Inr q, b')"
    using f1 by (rule bindR_InrE)
  obtain addr b3 where r2: "read_dest_addr (filled [0] d ! 0) b2 = (Inr addr, b3)"
    and f3: "?port buf addr b3 = (Inr q, b')"
    using f2 by (rule bindR_InrE)
  have q: "DestAddr q = addr" "0 \<le> DestPort q \<and> DestPort q < 65536"
    using f3 by (auto simp: bindR_Inr_iff port_bound)
  have "bufio_ok b2"
    using Read_InrD(4) [OF _ _ r] Read_InrD(4) [OF assms(1) _ r1] by simp
  then show ?thesis
    using read_dest_addr_bound [OF _ r2] q by auto
qed

lemma validateVersion_ok: "bufio_ok b \<Longrightarrow> validateVersion b = (res, b') \<Longrightarrow> bufio_ok b'"
  using ReadByte_ok [of b] ReadByte_end [of b]
  by (cases "bufio_pending b") (auto simp: validateVersion_def bindR_def split: if_splits)

lemma ReadByte_bufio_ok: "bufio_ok b \<Longrightarrow> ReadByte b = (res, b') \<Longrightarrow> bufio_ok b'"
  using ReadByte_ok [of b] ReadByte_end [of b] by (cases "bufio_pending b") auto

lemma bufio_read_bufio_ok: "bufio_ok b \<Longrightarrow> bufio_read b n = (d, e, b') \<Longrightarrow> bufio_ok b'"
proof (cases "n = 0")
  case True
  then show "bufio_ok b \<Longrightarrow> bufio_read b n = (d, e, b') \<Longrightarrow> ?thesis"
    by (auto simp: bufio_read_def bufio_ok_def split: if_splits)
next
  case False
  then show "bufio_ok b \<Longrightarrow> bufio_read b n = (d, e, b') \<Longrightarrow> ?thesis"
    using bufio_read_some [of b n] bufio_read_end [of b n] by (cases "bufio_pending b = []") auto
qed

lemma greeting_bufio_ok:
  assumes "bufio_ok b" and "handleClientGreetingPackage b w = (res, b', w')"
  shows "bufio_ok b'"
proof -
  obtain v r1 where v: "validateVersion b = (v, r1)" by fastforce
  obtain x r2 where x: "ReadByte r1 = (x, r2)" by fastforce
  have ok: "bufio_ok r1" "bufio_ok r2"
    using validateVersion_ok [OF assms(1) v] ReadByte_bufio_ok [OF _ x] by blast+
  have "b' = r1 \<or> b' = r2 \<or> (\<exists>n d e. bufio_read r2 n = (d, e, b'))"
    using assms(2) v x
    by (auto simp: handleClientGreetingPackage_def split: prod.splits sum.splits option.splits)
  then show ?thesis
    using ok bufio_read_bufio_ok by blast
qed

section \<open>Properties\<close>

text \<open>
  C26. The client side agent understands a SOCKS5 client: when the greeting arrives in one piece
  and the first piece after it holds at least the three fixed bytes of the request, the agent
  answers the greeting with "no authentication" and returns the client's version, command,
  destination (IPv4, IPv6 or domain name) and port, however the remaining bytes are cut. Neither
  the version nor the command of the request is looked at: any two bytes are accepted.
\<close>

theorem connect_request_parsed:
  assumes "chunks c = client_greeting methods # first # cs" and "length methods < 256"
    and "3 \<le> length first" and "first @ concat cs = client_request version command rsv a port @ rest"
    and "dest_ok a" and "werrs w = []"
  shows "\<exists>c'. buildSocks5ConnectRequest c w =
     (Inr \<lparr>Version = version, Command = command, DestAddr = dest_text a, DestPort = uint port\<rparr>,
      w\<lparr>sent := sent w @ [[5, 0]]\<rparr>, c')"
proof -
  let ?r = "\<lparr>bbuf = [], berr = None, under = c\<lparr>chunks := first # cs\<rparr>\<rparr>"
  have first: "take 3 first = [version, command, rsv]" "first \<noteq> []"
    "drop 3 first @ concat cs = dest_bytes a @ be_put 2 port @ rest"
    using arg_cong [OF assms(4), of "take 3"] arg_cong [OF assms(4), of "drop 3"] assms(3)
    by (auto simp: client_request_def)
  then obtain b1 where "Read 3 ?r = (Inr [version, command, rsv], b1)" "bufio_ok b1"
      "bufio_pending b1 = dest_bytes a @ be_put 2 port @ rest"
    using Read_3_chunk [of "c\<lparr>chunks := first # cs\<rparr>" first cs] first(3) by auto
  then show ?thesis
    using read_connect_request_ok [of ?r version command rsv b1 a port rest] assms(5)
      greeting_ok [OF assms(1,2,6)]
    by (auto simp: buildSocks5ConnectRequest_def socks5_consts)
qed

theorem connect_request_parsed_witness:
  "\<exists>c'. buildSocks5ConnectRequest
      \<lparr>chunks = [[5, 1, 0], [5, 1, 0, 3, 4, 0x68], [0x6F, 0x73, 0x74, 1], [0xBB]], fin = EOF\<rparr>
      \<lparr>sent = [], werrs = []\<rparr> =
     (Inr \<lparr>Version = 5, Command = 1, DestAddr = ''host'', DestPort = 443\<rparr>,
      \<lparr>sent = [[5, 0]], werrs = []\<rparr>, c')"
proof -
  have "[5, 1, 0, 3, 4, 0x68] @ concat [[0x6F, 0x73, 0x74, 1], [0xBB]] =
      client_request 5 1 0 (DestDomain ''host'') 443 @ []"
    by code_simp
  then show ?thesis
    using connect_request_parsed [of
        "\<lparr>chunks = [[5, 1, 0], [5, 1, 0, 3, 4, 0x68], [0x6F, 0x73, 0x74, 1], [0xBB]], fin = EOF\<rparr>"
        "[0]" "[5, 1, 0, 3, 4, 0x68]" "[[0x6F, 0x73, 0x74, 1], [0xBB]]" 5 1 0 "DestDomain ''host''" 443 "[]"
        "\<lparr>sent = [], werrs = []\<rparr>"]
    by (simp add: client_greeting_def socks5_consts)
qed

text \<open>
  A request whose first piece has only one or two bytes is refused although the client did
  nothing wrong: the fixed bytes are read with a single \<open>Read\<close>.
\<close>

theorem split_request_refused:
  assumes "chunks c = client_greeting methods # first # cs" and "length methods < 256"
    and "first \<noteq> []" and "length first < 3" and "werrs w = []"
  shows "fst (buildSocks5ConnectRequest c w) = Inl (ErrMsg ''read size not equals 3'')"
  using Read_3_chunk [of "c\<lparr>chunks := first # cs\<rparr>" first cs] greeting_ok [OF assms(1,2,5)] assms(3,4)
  by (auto simp: buildSocks5ConnectRequest_def read_connect_request_def)

theorem split_request_refused_witness:
  "fst (buildSocks5ConnectRequest
      \<lparr>chunks = [[5, 1, 0], [5, 1], [0, 1, 10, 0, 0, 1, 0, 80]], fin = EOF\<rparr> \<lparr>sent = [], werrs = []\<rparr>) =
     Inl (ErrMsg ''read size not equals 3'')"
  using split_request_refused [of
      "\<lparr>chunks = [[5, 1, 0], [5, 1], [0, 1, 10, 0, 0, 1, 0, 80]], fin = EOF\<rparr>" "[0]" "[5, 1]"
      "[[0, 1, 10, 0, 0, 1, 0, 80]]" "\<lparr>sent = [], werrs = []\<rparr>"]
  by (simp add: client_greeting_def socks5_consts)

text \<open>
  C27. The destination survives the trip through the network: whatever request the client side
  agent parsed, from whatever bytes, its address is short enough for the one length byte and its
  port for two bytes, and the connect request that the service side agent builds from it, parsed
  again, asks for the same address and port (as a domain name, with version 5 and the connect
  command).
\<close>

theorem destination_preserved:
  assumes "fst (buildSocks5ConnectRequest c w) = Inr q" and "bufio_ok b"
    and "Read 3 b = (Inr [5, 1, 0], b1)" and "bufio_pending b = connect_bytes q @ rest"
  shows "length (DestAddr q) < 256 \<and> 0 \<le> DestPort q \<and> DestPort q < 65536 \<and>
     (\<exists>b'. read_connect_request b = (Inr (q\<lparr>Version := 5, Command := 1\<rparr>), b') \<and>
        bufio_pending b' = rest)"
proof -
  obtain r w' r2 where g: "handleClientGreetingPackage (NewReader c) w = (Inr (), r, w')"
      "read_connect_request r = (Inr q, r2)"
    using assms(1) by (auto simp: buildSocks5ConnectRequest_def split: prod.splits sum.splits)
  have bnd: "length (DestAddr q) < 256" "0 \<le> DestPort q" "DestPort q < 65536"
    using read_connect_request_bound [OF _ g(2)] greeting_bufio_ok [OF _ g(1)] by simp_all
  let ?port = "word_of_int (DestPort q) :: uint16"
  have "connect_bytes q = [5, 1, 0] @ dest_bytes (DestDomain (DestAddr q)) @ be_put 2 ?port"
    by (simp add: connect_bytes_def socks5_consts)
  then have "bufio_pending b1 = dest_bytes (DestDomain (DestAddr q)) @ be_put 2 ?port @ rest" "bufio_ok b1"
    using Read_InrD(3,4) [OF assms(2) _ assms(3)] assms(4) by simp_all
  moreover have "uint ?port = DestPort q"
    using bnd by (simp add: uint_word_of_int)
  ultimately show ?thesis
    using read_connect_request_ok [OF assms(3), of "DestDomain (DestAddr q)" ?port rest] bnd
    by (cases q) auto
qed

theorem destination_preserved_witness:
  "\<exists>b'. read_connect_request
      \<lparr>bbuf = connect_bytes \<lparr>Version = 9, Command = 7, DestAddr = ''host'', DestPort = 443\<rparr>, berr = None,
       under = \<lparr>chunks = [], fin = EOF\<rparr>\<rparr> =
     (Inr \<lparr>Version = 5, Command = 1, DestAddr = ''host'', DestPort = 443\<rparr>, b') \<and> bufio_pending b' = []"
proof -
  let ?c = "\<lparr>chunks = [[5, 1, 0], [9, 7, 0, 3, 4, 0x68, 0x6F, 0x73, 0x74, 1, 0xBB]], fin = EOF\<rparr> :: net_in"
  let ?q = "\<lparr>Version = 9, Command = 7, DestAddr = ''host'', DestPort = 443\<rparr>"
  let ?b = "\<lparr>bbuf = connect_bytes ?q, berr = None, under = \<lparr>chunks = [], fin = EOF\<rparr>\<rparr>"
  have q: "fst (buildSocks5ConnectRequest ?c \<lparr>sent = [], werrs = []\<rparr>) = Inr ?q"
    by code_simp
  have "connect_bytes ?q = [5, 1, 0, 3, 4, 0x68, 0x6F, 0x73, 0x74, 1, 0xBB]"
    by code_simp
  then have "Read 3 ?b = (Inr [5, 1, 0], ?b\<lparr>bbuf := drop 3 (connect_bytes ?q)\<rparr>)"
    using Read_buffered [of ?b 3] by simp
  then show ?thesis
    using destination_preserved [OF q, of ?b _ "[]"]
    by (simp add: bufio_ok_def bufio_pending_def conn_pending_def)
qed

lemma ReadFull_raw_chunk:
  assumes "chunks c = d # cs" and "d \<noteq> []"
  shows "ReadFull conn_read (length d) c = (Inr d, c\<lparr>chunks := cs\<rparr>)"
proof -
  have "conn_read c (length d) = (d, None, c\<lparr>chunks := cs\<rparr>)"
    using conn_read_first [OF assms, of "length d"] assms(2) by simp
  then show ?thesis
    by (rule ReadFull_one_read) (use assms(2) in simp_all)
qed

lemma Read_256_chunk:
  assumes "chunks c = d # cs" and "d \<noteq> []" and "length d \<le> 4096"
  shows "Read 256 (NewReader c) =
    (Inr (take 256 d), \<lparr>bbuf = drop 256 d, berr = None, under = c\<lparr>chunks := cs\<rparr>\<rparr>)"
  using conn_read_first [OF assms(1,2), of 4096] assms
  by (simp add: Read_def bufio_read_def NewReader_def defaultBufSize_def)

lemma filled_reply:
  assumes "i < length d" and "i < 256"
  shows "filled (replicate 256 0) (take 256 d) ! i = d ! i"
  using assms by (simp add: filled_def nth_append)

lemma length_filled: "length (filled (replicate 256 0) (take 256 d)) = 256"
  by (simp add: filled_def)

text \<open>
  The handshake of the service side agent with a SOCKS5 service that accepts: the agent
  writes the method selection and the connect request and nothing else, and hands the connection
  over, unless the reply carries a domain name of more than 251 bytes, where it panics on a slice
  bound. The whole piece in which the reply arrives is consumed: payload that the service sent
  right behind its reply is in nobody's hands afterwards.
\<close>

theorem handshake_outcome:
  assumes "chunks ci = [5, 0] # reply # cs" and "werrs co = []"
    and "5 \<le> length reply" and "length reply \<le> 4096" and "reply ! 0 = 5" and "reply ! 1 = 0"
  shows "connectToSocks5Service (Inr (ci, co)) q =
    (if reply ! 3 = 3 \<and> 251 < unat (reply ! 4) then Inl PanicIndex
     else Inr (ci\<lparr>chunks := cs\<rparr>, co\<lparr>sent := sent co @ [[5, 1, 0], connect_bytes q]\<rparr>))"
proof -
  let ?resp = "filled (replicate 256 0) (take 256 reply)"
  have ne: "reply \<noteq> []"
    using assms(3) by auto
  have auth: "ReadFull conn_read 2 ci = (Inr [5, 0], ci\<lparr>chunks := reply # cs\<rparr>)"
    using ReadFull_raw_chunk [OF assms(1)] by (simp add: numeral_2_eq_2)
  have rd: "Read 256 (NewReader (ci\<lparr>chunks := reply # cs\<rparr>)) =
      (Inr (take 256 reply), \<lparr>bbuf = drop 256 reply, berr = None, under = ci\<lparr>chunks := cs\<rparr>\<rparr>)"
    using Read_256_chunk [of "ci\<lparr>chunks := reply # cs\<rparr>" reply cs] ne assms(4) by simp
  have resp: "?resp ! 0 = 5" "?resp ! 1 = 0" "?resp ! 3 = reply ! 3" "?resp ! 4 = reply ! 4"
    using assms(3,5,6) filled_reply [of 0 reply] filled_reply [of 1 reply] filled_reply [of 3 reply]
      filled_reply [of 4 reply] ne by auto
  have "reply_addr ?resp = Inl PanicIndex \<longleftrightarrow> reply ! 3 = 3 \<and> 251 < unat (reply ! 4)"
    and "\<forall>p. reply_addr ?resp = Inl p \<longrightarrow> p = PanicIndex"
    using resp by (auto simp: reply_addr_def socks5_consts Let_def length_filled)
  then have "bindP (reply_addr ?resp) (\<lambda>_. Inr x) =
      (if reply ! 3 = 3 \<and> 251 < unat (reply ! 4) then Inl PanicIndex else Inr x)" for x :: "net_in \<times> net_out"
    by (cases "reply_addr ?resp") auto
  then show ?thesis
    using assms(2) auth rd resp
    by (simp add: connectToSocks5Service_def socks5_consts Let_def)
qed

theorem handshake_outcome_witness:
  "connectToSocks5Service
     (Inr (\<lparr>chunks = [[5, 0], [5, 0, 0, 1, 10, 0, 0, 1, 0, 80, 0x53, 0x53, 0x48]], fin = EOF\<rparr>,
           \<lparr>sent = [], werrs = []\<rparr>))
     \<lparr>Version = 5, Command = 1, DestAddr = ''a'', DestPort = 22\<rparr> =
   Inr (\<lparr>chunks = [], fin = EOF\<rparr>,
        \<lparr>sent = [[5, 1, 0], [5, 1, 0, 3, 1, 0x61, 0, 22]], werrs = []\<rparr>)"
proof -
  have "connect_bytes \<lparr>Version = 5, Command = 1, DestAddr = ''a'', DestPort = 22\<rparr> =
      [5, 1, 0, 3, 1, 0x61, 0, 22]"
    by code_simp
  then show ?thesis
    using handshake_outcome [of
        "\<lparr>chunks = [[5, 0], [5, 0, 0, 1, 10, 0, 0, 1, 0, 80, 0x53, 0x53, 0x48]], fin = EOF\<rparr>"
        "[5, 0, 0, 1, 10, 0, 0, 1, 0, 80, 0x53, 0x53, 0x48]" "[]" "\<lparr>sent = [], werrs = []\<rparr>"
        "\<lparr>Version = 5, Command = 1, DestAddr = ''a'', DestPort = 22\<rparr>"]
    by simp
qed

end
