(* ===== verification/Agent.thy ===== *)
theory Agent
  imports Socks5 Socket_Proxy
begin

text \<open>
  The SOCKS5 agents, \<open>apron_agent_server.go\<close> and \<open>apron_client_agent.go\<close>: preparation, the client
  side agent's connection set-up and its two relay loops, and the service side agent's message
  loop and relay. Codecs, dialling, the environment variable and message ids are arguments.
\<close>

section \<open>Preparation\<close>

datatype ApronServerMode = ClientAgentMode | ServerAgentMode

definition socks5ServiceName :: string where "socks5ServiceName = ''socks5''"
definition socks5ConnectMessage :: "32 word" where "socks5ConnectMessage = 1"
definition socks5DataMessage :: "32 word" where "socks5DataMessage = 2"

text \<open>
  \<open>RegisterServiceToSSGW\<close> posts the service as JSON; \<open>post\<close> is \<open>fasthttp.Do\<close>, giving the body of the
  response. It acts on the state \<open>g\<close> of whoever answers at the address.
\<close>

type_synonym 'g http_post = "string \<Rightarrow> bytes \<Rightarrow> 'g \<Rightarrow> (go_error + bytes) \<times> 'g"

definition RegisterServiceToSSGW ::
  "(ApronService \<Rightarrow> go_error + bytes) \<Rightarrow> 'g http_post \<Rightarrow> string \<Rightarrow> ApronService \<Rightarrow> 'g \<Rightarrow> (go_error + bytes) \<times> 'g" where
  "RegisterServiceToSSGW json post ssgwMgmtAddr serviceData g =
     (case json serviceData of
        Inl err \<Rightarrow> (Inl err, g)
      | Inr newServiceReqBytes \<Rightarrow> post ssgwMgmtAddr newServiceReqBytes g)"

text \<open>The service an agent registers: one provider, reached by TCP at the agent's own address.\<close>

definition tcp_service :: "string \<Rightarrow> string \<Rightarrow> ApronService" where
  "tcp_service serviceId listenAddr =
     empty_service\<lparr>svc_Id := serviceId, svc_Name := serviceId,
       svc_Providers := [Some (empty_provider\<lparr>prov_Id := serviceId, prov_Name := serviceId,
         prov_BaseUrl := listenAddr, prov_Schema := ''tcp''\<rparr>)]\<rparr>"

definition prepareAgent ::
  "(ApronService \<Rightarrow> go_error + bytes) \<Rightarrow> 'g http_post \<Rightarrow> ApronServerMode \<Rightarrow>
     string \<Rightarrow> string \<Rightarrow> string \<Rightarrow> 'g \<Rightarrow> go_stop + 'g" where
  "prepareAgent json post mode restMgmtAddr agentId listenAddr g =
     (case mode of
        ClientAgentMode \<Rightarrow> Inr g
      | ServerAgentMode \<Rightarrow>
          (let newServiceRequest = tcp_service agentId listenAddr in
           case RegisterServiceToSSGW json post restMgmtAddr newServiceRequest g of
             (Inl err, g') \<Rightarrow> Inl (PanicLog ''Register service error'')
           | (Inr respBytes, g') \<Rightarrow> Inr g'))"

section \<open>The client side agent\<close>

text \<open>
  The agent's state that connections share: \<open>agentConfig.RemoteSocketConn\<close>, one field for all
  clients, and the sending sides of the open connections.
\<close>

record client_agent =
  RemoteSocketConn :: "handle option"
  ca_outs :: "handle \<Rightarrow> net_out"

definition remote_write :: "handle option \<Rightarrow> bytes \<Rightarrow> client_agent \<Rightarrow> go_stop + client_agent" where
  "remote_write conn data a =
     (case conn of
        None \<Rightarrow> Inl PanicNil
      | Some h \<Rightarrow> bindP (commit (WriteBytesViaStream (ca_outs a h) data)) (\<lambda>w.
          Inr (a\<lparr>ca_outs := (ca_outs a)(h := w)\<rparr>)))"

text \<open>
  \<open>connectToCsgwAndSendInitRequest\<close>: \<open>dial\<close> is the handle of the new connection to the gateway. A
  marshalling error is ignored and sends the nil slice.
\<close>

definition connectToCsgwAndSendInitRequest ::
  "ApronSocketInitRequest marshaller \<Rightarrow> string option \<Rightarrow> string \<Rightarrow> go_error + handle \<Rightarrow> client_agent \<Rightarrow>
     go_stop + ((go_error + string) \<times> client_agent)" where
  "connectToCsgwAndSendInitRequest mar env uuid dial a =
     (let serviceId = (case env of Some v \<Rightarrow> v | None \<Rightarrow> ''apron_hello_socks5'') in
      case dial of
        Inl err \<Rightarrow> Inr (Inl err, a)
      | Inr csgwConn \<Rightarrow>
          let a1 = a\<lparr>RemoteSocketConn := Some csgwConn\<rparr>;
              requestId = make_request_id ''shouldBeUid'' serviceId uuid;
              requestBytes = (case mar \<lparr>init_ServiceId = serviceId, init_RequestId = requestId,
                init_PeerId = '''', init_UserId = ''''\<rparr> of Inl _ \<Rightarrow> [] | Inr b \<Rightarrow> b) in
          bindP (remote_write (Some csgwConn) requestBytes a1) (\<lambda>a2. Inr (Inr requestId, a2)))"

text \<open>
  The two halves of \<open>serveConnection\<close> in client mode, before and after \<open>connectToCsgwAndSendInitRequest\<close>
  returns: other connections may be served in between. The second half reads the SOCKS5 request,
  sends it to the remote connection as it is then, answers the client, and starts the relays on
  the remote connection of that moment, which is part of the result.
\<close>

definition serve_client_connect ::
  "ApronSocketInitRequest marshaller \<Rightarrow> string option \<Rightarrow> string \<Rightarrow> go_error + handle \<Rightarrow> client_agent \<Rightarrow>
     go_stop + (string \<times> client_agent)" where
  "serve_client_connect mar env uuid dial a =
     bindP (connectToCsgwAndSendInitRequest mar env uuid dial a) (\<lambda>(r, a').
       case r of
         Inl err \<Rightarrow> Inl (PanicLog ''connect to CSGW failed'')
       | Inr requestId \<Rightarrow> Inr (requestId, a'))"

definition serve_client_request ::
  "(ApronSocks5ConnectRequest \<Rightarrow> go_error + bytes) \<Rightarrow> ExtServiceData marshaller \<Rightarrow> string \<Rightarrow> string \<Rightarrow>
     net_in \<Rightarrow> net_out \<Rightarrow> client_agent \<Rightarrow>
     go_stop + (net_in \<times> net_out \<times> handle option \<times> client_agent)" where
  "serve_client_request binmar mar msgId requestId conn_in conn_out a =
     (case buildSocks5ConnectRequest conn_in conn_out of
        (Inl err, _) \<Rightarrow> Inl (PanicLog ''build socks5 connect request failed'')
      | (Inr socksConnectRequest, w, rest) \<Rightarrow>
          (case binmar socksConnectRequest of
             Inl err \<Rightarrow> Inl (PanicLog ''marshal socks5 connect request failed'')
           | Inr socksConnectRequestBytes \<Rightarrow>
               (case mar \<lparr>ext_ServiceName = socks5ServiceName, ext_RequestId = requestId, ext_MsgId = msgId,
                       ext_ContentType = socks5ConnectMessage, ext_Content = socksConnectRequestBytes\<rparr> of
                  Inl err \<Rightarrow> Inl (PanicLog ''marshal socks5 connect request to ext service data failed'')
                | Inr requestSentToCsgwBytes \<Rightarrow>
                    bindP (remote_write (RemoteSocketConn a) requestSentToCsgwBytes a) (\<lambda>a'.
                      Inr (rest, snd (conn_write w [5, 0, 0, 1, 0, 0, 0, 0, 0, 0]),
                           RemoteSocketConn a', a')))))"

text \<open>The relay from the client to the gateway; \<open>msgId\<close> gives the fresh message ids.\<close>

definition data_message :: "string \<Rightarrow> string \<Rightarrow> bytes \<Rightarrow> ExtServiceData" where
  "data_message requestId msgId d =
     \<lparr>ext_ServiceName = socks5ServiceName, ext_RequestId = requestId, ext_MsgId = msgId,
      ext_ContentType = socks5DataMessage, ext_Content = d\<rparr>"

fun client_relay ::
  "nat \<Rightarrow> ExtServiceData marshaller \<Rightarrow> (nat \<Rightarrow> string) \<Rightarrow> string \<Rightarrow> net_in \<Rightarrow> net_out \<Rightarrow> loop_state \<times> net_out" where
  "client_relay 0 mar msgId requestId clientC csgwC = (Running, csgwC)"
| "client_relay (Suc k) mar msgId requestId clientC csgwC =
     (case Read 40960 (NewReader clientC) of
        (Inl err, r) \<Rightarrow>
          if err_string err = ''EOF'' then (Finished, csgwC)
          else client_relay k mar msgId requestId (under r) csgwC
      | (Inr d, r) \<Rightarrow>
          (case mar (data_message requestId (msgId k) d) of
             Inl err \<Rightarrow>
               if err_string err = ''EOF'' then (Finished, csgwC)
               else client_relay k mar msgId requestId (under r) csgwC
           | Inr dataBytes \<Rightarrow>
               (case WriteBytesViaStream csgwC dataBytes of
                  (Inl p, w) \<Rightarrow> (Panicked p, w)
                | (Inr _, w) \<Rightarrow> client_relay k mar msgId requestId (under r) w)))"

text \<open>The relay from the gateway to the client.\<close>

fun csgw_relay :: "nat \<Rightarrow> ExtServiceData unmarshaller \<Rightarrow> net_in \<Rightarrow> net_out \<Rightarrow> loop_state \<times> net_out" where
  "csgw_relay 0 unm csgwC clientC = (Running, clientC)"
| "csgw_relay (Suc k) unm csgwC clientC =
     (let stop = (\<lambda>err r w. if err_string err = ''EOF'' then (Finished, w) else csgw_relay k unm (under r) w) in
      case read_frame (NewReader csgwC) of
        (Inl p, _) \<Rightarrow> (Panicked p, clientC)
      | (Inr (Inl err), r) \<Rightarrow> stop err r clientC
      | (Inr (Inr csgwDataBytes), r) \<Rightarrow>
          (case unm csgwDataBytes of
             Inl err \<Rightarrow> stop err r clientC
           | Inr serviceData \<Rightarrow>
               (case conn_write clientC (ext_Content serviceData) of
                  (Some err, w) \<Rightarrow> stop err r w
                | (None, w) \<Rightarrow> csgw_relay k unm (under r) w)))"

section \<open>The service side agent\<close>

record service_agent =
  serviceConnections :: "string \<rightharpoonup> handle"
  sa_outs :: "handle \<Rightarrow> net_out"
  sa_ins :: "handle \<Rightarrow> net_in"

text \<open>
  One message of \<open>serveConnection\<close> in server mode. \<open>dial\<close> is the connection that \<open>net.Dial\<close> returns
  for the next connect message, with its handle. Errors of a data write are ignored; a missing
  connection is a nil interface.
\<close>

definition serve_gateway_message ::
  "ExtServiceData unmarshaller \<Rightarrow> (bytes \<Rightarrow> go_error + ApronSocks5ConnectRequest) \<Rightarrow>
     handle \<times> (go_error + net_in \<times> net_out) \<Rightarrow> chan_msg \<Rightarrow> service_agent \<Rightarrow> go_stop + service_agent" where
  "serve_gateway_message unm binunm dial msg a =
     (case msg of
        Err errMsg \<Rightarrow> Inl (PanicLog ''got error message while reading data from stream'')
      | Data serviceDataBytes \<Rightarrow>
          bindP (must (unm serviceDataBytes)) (\<lambda>serviceData.
            if ext_ServiceName serviceData \<noteq> socks5ServiceName then Inl (PanicLog ''wrong service name'')
            else if ext_ContentType serviceData = socks5ConnectMessage then
              bindP (must (binunm (ext_Content serviceData))) (\<lambda>socksConnectRequest.
              bindP (connectToSocks5Service (snd dial) socksConnectRequest) (\<lambda>(ci, co).
                Inr (a\<lparr>serviceConnections := (serviceConnections a)(ext_RequestId serviceData \<mapsto> fst dial),
                       sa_outs := (sa_outs a)(fst dial := co), sa_ins := (sa_ins a)(fst dial := ci)\<rparr>)))
            else if ext_ContentType serviceData = socks5DataMessage then
              (case serviceConnections a (ext_RequestId serviceData) of
                 None \<Rightarrow> Inl PanicNil
               | Some h \<Rightarrow> Inr (a\<lparr>sa_outs := (sa_outs a)(h :=
                   snd (conn_write (sa_outs a h) (ext_Content serviceData)))\<rparr>))
            else Inr a))"

fun serve_gateway ::
  "ExtServiceData unmarshaller \<Rightarrow> (bytes \<Rightarrow> go_error + ApronSocks5ConnectRequest) \<Rightarrow>
     (nat \<Rightarrow> handle \<times> (go_error + net_in \<times> net_out)) \<Rightarrow> chan_msg list \<Rightarrow> service_agent \<Rightarrow>
     go_stop + service_agent" where
  "serve_gateway unm binunm dial [] a = Inr a"
| "serve_gateway unm binunm dial (msg # msgs) a =
     bindP (serve_gateway_message unm binunm (dial (length msgs)) msg a) (\<lambda>a'.
       serve_gateway unm binunm dial msgs a')"

text \<open>
  The relay from the SOCKS5 service to the gateway. It writes the marshalled message without a
  frame around it, and ignores the result of the write.
\<close>

fun service_relay ::
  "nat \<Rightarrow> ExtServiceData marshaller \<Rightarrow> (nat \<Rightarrow> string) \<Rightarrow> string \<Rightarrow> net_in \<Rightarrow> net_out \<Rightarrow> loop_state \<times> net_out" where
  "service_relay 0 mar msgId requestId conn ssgw = (Running, ssgw)"
| "service_relay (Suc k) mar msgId requestId conn ssgw =
     (case Read 40960 (NewReader conn) of
        (Inl err, r) \<Rightarrow> (Panicked (PanicErr err), ssgw)
      | (Inr d, r) \<Rightarrow>
          (case mar (data_message requestId (msgId k) d) of
             Inl err \<Rightarrow> (Panicked (PanicErr err), ssgw)
           | Inr respDataBytes \<Rightarrow>
               service_relay k mar msgId requestId (under r) (snd (conn_write ssgw respDataBytes))))"

section \<open>Data through the agents\<close>

text \<open>A fresh reader with a large buffer reads ahead nothing: the relays lose no bytes.\<close>

lemma client_relay_all:
  assumes "fin c = EOF" and "werrs w = []" and "length (conn_pending c) \<le> k"
    and mar: "\<forall>i d. length d \<le> 40960 \<longrightarrow> (\<exists>b. mar (data_message rid (msgId i) d) = Inr b \<and> length b \<le> max_alloc)"
  shows "\<exists>w' ds bs. client_relay (Suc k) mar msgId rid c w = (Finished, w') \<and>
     out_bytes w' = out_bytes w @ concat (map frame bs) \<and> concat ds = conn_pending c \<and>
     list_all2 (\<lambda>d b. length b \<le> max_alloc \<and> (\<exists>i. mar (data_message rid (msgId i) d) = Inr b)) ds bs"
  using assms(1-3)
proof (induction k arbitrary: c w)
  case 0
  then have "conn_read c 40960 = ([], Some EOF, c\<lparr>chunks := []\<rparr>)"
    using conn_read_end [of 40960 c] by simp
  then show ?case
    using 0 by (auto simp: Read_direct intro!: exI [of _ "[]"])
next
  case (Suc k)
  show ?case
  proof (cases "conn_pending c = []")
    case True
    then have "conn_read c 40960 = ([], Some EOF, c\<lparr>chunks := []\<rparr>)"
      using conn_read_end [of 40960 c] Suc.prems(1) by simp
    then show ?thesis
      using True by (auto simp: Read_direct intro!: exI [of _ "[]"])
  next
    case False
    then obtain d c1 where d: "conn_read c 40960 = (d, None, c1)" "d \<noteq> []" "length d \<le> 40960"
        "conn_pending c = d @ conn_pending c1" "fin c1 = fin c"
      using conn_read_some [of 40960 c] by auto
    obtain b where b: "mar (data_message rid (msgId (Suc k)) d) = Inr b" "length b \<le> max_alloc"
      using mar d(3) by blast
    have rd: "Read 40960 (NewReader c) = (Inr d, NewReader c1)"
      using d(1) by (simp add: Read_direct)
    obtain w1 where w: "WriteBytesViaStream w b = (Inr (), w1)" "werrs w1 = []" "out_bytes w1 = out_bytes w @ frame b"
      using Suc.prems(2) by (simp add: WriteBytesViaStream_ok out_bytes_def frame_def)
    have "length (conn_pending c1) \<le> k"
      using d(2,4) Suc.prems(3) by (cases d) auto
    then obtain w' ds bs where "client_relay (Suc k) mar msgId rid c1 w1 = (Finished, w')"
        "out_bytes w' = out_bytes w1 @ concat (map frame bs)" "concat ds = conn_pending c1"
        "list_all2 (\<lambda>d b. length b \<le> max_alloc \<and> (\<exists>i. mar (data_message rid (msgId i) d) = Inr b)) ds bs"
      using Suc.IH [of c1 w1] Suc.prems(1) d(5) w(2) by auto
    moreover have "client_relay (Suc (Suc k)) mar msgId rid c w = client_relay (Suc k) mar msgId rid c1 w1"
      by (subst client_relay.simps(2)) (simp add: rd b(1) w(1) del: client_relay.simps(2))
    ultimately show ?thesis
      using d(4) b w(3)
      by (intro exI [of _ w'] exI [of _ "d # ds"] exI [of _ "b # bs"]) (auto simp del: client_relay.simps)
  qed
qed

lemma serve_gateway_data:
  assumes "list_all2 (\<lambda>d b. \<exists>i. unm b = Inr (data_message rid i d)) ds bs"
    and "serviceConnections a rid = Some h" and "werrs (sa_outs a h) = []"
  shows "\<exists>a'. serve_gateway unm binunm dial (map Data bs) a = Inr a' \<and>
     out_bytes (sa_outs a' h) = out_bytes (sa_outs a h) @ concat ds \<and>
     serviceConnections a' = serviceConnections a"
  using assms
proof (induction ds bs arbitrary: a rule: list_all2_induct)
  case Nil
  then show ?case by simp
next
  case (Cons d ds b bs)
  let ?a = "a\<lparr>sa_outs := (sa_outs a)(h := (sa_outs a h)\<lparr>sent := sent (sa_outs a h) @ [d]\<rparr>)\<rparr>"
  obtain i where "unm b = Inr (data_message rid i d)"
    using Cons.hyps(1) by blast
  then have step: "serve_gateway_message unm binunm (dial (length bs)) (Data b) a = Inr ?a"
    using Cons.prems
    by (simp add: serve_gateway_message_def data_message_def socks5DataMessage_def socks5ConnectMessage_def)
  obtain a' where "serve_gateway unm binunm dial (map Data bs) ?a = Inr a'"
      "out_bytes (sa_outs a' h) = out_bytes (sa_outs ?a h) @ concat ds"
      "serviceConnections a' = serviceConnections ?a"
    using Cons.IH [of ?a] Cons.prems by auto
  then show ?case
    using step by (simp add: out_bytes_def)
qed

section \<open>Properties\<close>

text \<open>
  C15. What a SOCKS5 client sends arrives at the SOCKS5 service, through both agents and both gateways.
  For every way the client's bytes arrive at the client side agent, its relay ends when the client
  closes, having sent frames on its connection to the client side gateway. If no network piece on that
  connection, and none on the stream between the gateways, joins the end of a frame with what follows
  it, then the client side gateway forwards every message, and the service side gateway writes them as
  frames to the service side agent; that agent, whose one buffered reader gets these frames in any
  segmentation, writes to the service's connection, piece by piece, exactly the client's bytes.
\<close>

theorem socks_data_end_to_end:
  assumes "fin c = EOF" and "length (conn_pending c) \<le> k" and "codec_ok mar unm"
    and "\<forall>i d. length d \<le> 40960 \<longrightarrow> (\<exists>b. mar (data_message rid (msgId i) d) = Inr b \<and> length b \<le> max_alloc)"
    and gmar: "\<forall>b. length b \<le> max_alloc \<longrightarrow> gmar \<lparr>dat_RequestId = grid, dat_RawData = b\<rparr> = Inr (enc b)" and "codec_ok gmar gunm"
    and ssgw: "serviceSocketConns n grid = Some g" "outs g = no_stream"
    and "serviceConnections a rid = Some h" and "werrs (sa_outs a h) = []"
  shows "\<exists>st bs. client_relay (Suc k) mar msgId rid c no_stream = (Finished, st) \<and> (\<forall>b \<in> set bs. length b \<le> max_alloc) \<and>
     (\<forall>c1 css1 c2 css2. aligned css1 bs \<longrightarrow> chunks c1 = concat css1 \<longrightarrow> fin c1 = EOF \<longrightarrow>
        aligned css2 (map enc bs) \<longrightarrow> chunks c2 = concat css2 \<longrightarrow>
        conn_pending c1 = out_bytes st \<and>
        (\<exists>up outs'. csgw_socket_loop (Suc (length bs)) gmar grid c1 no_stream = (Finished, up) \<and> conn_pending c2 = out_bytes up \<and>
          socket_data_loop gunm ProxySocketDataFromClientSide (fst (ReadBytesViaStream (length bs) (Conn c2))) n outs = Inr outs' \<and>
          (\<forall>c3. conn_pending c3 = out_bytes (outs' g) \<longrightarrow>
            (\<exists>a'. serve_gateway unm binunm dial (fst (ReadBytesViaStream (length bs) (Buffered (NewReader c3)))) a = Inr a' \<and>
              out_bytes (sa_outs a' h) = out_bytes (sa_outs a h) @ conn_pending c))))"
proof -
  obtain st ds bs where r: "client_relay (Suc k) mar msgId rid c no_stream = (Finished, st)"
      "out_bytes st = concat (map frame bs)" "concat ds = conn_pending c"
      "list_all2 (\<lambda>d b. length b \<le> max_alloc \<and> (\<exists>i. mar (data_message rid (msgId i) d) = Inr b)) ds bs"
    using client_relay_all [where w = no_stream and mar = mar and msgId = msgId and rid = rid, OF assms(1) _ assms(2,4)]
    by (auto simp: no_stream_def out_bytes_def simp del: client_relay.simps)
  have "list_all2 (\<lambda>d b. \<exists>i. unm b = Inr (data_message rid i d)) ds bs"
    by (rule list_all2_mono [OF r(4)]) (use codec_okD [OF assms(3)] in blast)
  then obtain a' where a': "serve_gateway unm binunm dial (map Data bs) a = Inr a'"
      "out_bytes (sa_outs a' h) = out_bytes (sa_outs a h) @ concat ds"
    using serve_gateway_data [OF _ assms(9,10)] by blast
  have small: "\<forall>b \<in> set bs. length b \<le> max_alloc"
    using r(4) by (auto simp: list_all2_conv_all_nth in_set_conv_nth)
  have agent: "fst (ReadBytesViaStream (length bs) (Buffered (NewReader c3))) = map Data bs"
    if "conn_pending c3 = concat (map frame bs)" for c3
    using ReadBytesViaStream_buffered [of "NewReader c3" bs "[]"] small that by auto
  have gateways: "conn_pending c1 = out_bytes st \<and>
      (\<exists>up outs'. csgw_socket_loop (Suc (length bs)) gmar grid c1 no_stream = (Finished, up) \<and> conn_pending c2 = out_bytes up \<and>
        socket_data_loop gunm ProxySocketDataFromClientSide (fst (ReadBytesViaStream (length bs) (Conn c2))) n outs = Inr outs' \<and>
        out_bytes (outs' g) = concat (map frame bs))"
    if al: "aligned css1 bs" "chunks c1 = concat css1" "fin c1 = EOF" "aligned css2 (map enc bs)" "chunks c2 = concat css2"
    for c1 css1 c2 css2
  proof -
    have "\<forall>b \<in> set bs. gmar \<lparr>dat_RequestId = grid, dat_RawData = b\<rparr> = Inr (enc b)"
      using gmar small by blast
    from socket_data_carried [where outs = outs, OF al(1-3) this assms(6) al(4,5) ssgw(1)]
    show ?thesis
      using r(2) ssgw(2) aligned_pending [OF al(1,2)] aligned_pending [OF al(4,5)]
      by (auto simp: no_stream_def out_bytes_def comp_def)
  qed
  show ?thesis
  proof (rule exI [of _ st], rule exI [of _ bs], intro conjI allI impI r(1) small)
    fix c1 c2 :: net_in and css1 css2
    assume al: "aligned css1 bs" "chunks c1 = concat css1" "fin c1 = EOF" "aligned css2 (map enc bs)" "chunks c2 = concat css2"
    note G = gateways [OF al]
    show "conn_pending c1 = out_bytes st"
      using G by blast
    obtain up outs' where "csgw_socket_loop (Suc (length bs)) gmar grid c1 no_stream = (Finished, up)" "conn_pending c2 = out_bytes up"
        "socket_data_loop gunm ProxySocketDataFromClientSide (fst (ReadBytesViaStream (length bs) (Conn c2))) n outs = Inr outs'"
        "out_bytes (outs' g) = concat (map frame bs)"
      using G by blast
    then show "\<exists>up outs'. csgw_socket_loop (Suc (length bs)) gmar grid c1 no_stream = (Finished, up) \<and> conn_pending c2 = out_bytes up \<and>
        socket_data_loop gunm ProxySocketDataFromClientSide (fst (ReadBytesViaStream (length bs) (Conn c2))) n outs = Inr outs' \<and>
        (\<forall>c3. conn_pending c3 = out_bytes (outs' g) \<longrightarrow>
          (\<exists>a'. serve_gateway unm binunm dial (fst (ReadBytesViaStream (length bs) (Buffered (NewReader c3)))) a = Inr a' \<and>
            out_bytes (sa_outs a' h) = out_bytes (sa_outs a h) @ conn_pending c))"
      using agent a' r(3) by (intro exI [of _ up] exI [of _ outs']) simp
  qed
qed

text \<open>Streams on which every message arrives as one piece.\<close>

lemma aligned_pieces: "\<forall>b \<in> set bs. length b \<le> max_alloc \<Longrightarrow> aligned (map (\<lambda>b. [frame b]) bs) bs"
  by (simp add: aligned_def list_all2_conv_all_nth frame_not_Nil [THEN not_sym])

theorem socks_data_end_to_end_witness:
  "\<exists>st bs up outs' a'. client_relay 4 (\<lambda>x. if x = data_message ''r'' ''m'' (ext_Content x) then Inr (ext_Content x) else Inl EOF)
       (\<lambda>_. ''m'') ''r'' \<lparr>chunks = [[1, 2], [3]], fin = EOF\<rparr> no_stream = (Finished, st) \<and>
     csgw_socket_loop (Suc (length bs)) (\<lambda>x. if dat_RequestId x = ''g'' then Inr (dat_RawData x) else Inl EOF) ''g''
       \<lparr>chunks = map frame bs, fin = EOF\<rparr> no_stream = (Finished, up) \<and>
     socket_data_loop (\<lambda>b. Inr \<lparr>dat_RequestId = ''g'', dat_RawData = b\<rparr>) ProxySocketDataFromClientSide
       (fst (ReadBytesViaStream (length bs) (Conn \<lparr>chunks = map frame bs, fin = EOF\<rparr>)))
       (sample_node\<lparr>serviceSocketConns := [''g'' \<mapsto> 6]\<rparr>) (\<lambda>_. no_stream) = Inr outs' \<and>
     serve_gateway (\<lambda>b. Inr (data_message ''r'' ''m'' b)) (\<lambda>_. Inl EOF) (\<lambda>_. (0, Inl EOF))
       (fst (ReadBytesViaStream (length bs) (Buffered (NewReader \<lparr>chunks = [out_bytes (outs' 6)], fin = EOF\<rparr>))))
       \<lparr>serviceConnections = [''r'' \<mapsto> 5], sa_outs = (\<lambda>_. no_stream), sa_ins = (\<lambda>_. \<lparr>chunks = [], fin = EOF\<rparr>)\<rparr> = Inr a' \<and>
     out_bytes (sa_outs a' 5) = [1, 2, 3]"
proof -
  let ?mar = "\<lambda>x. if x = data_message ''r'' ''m'' (ext_Content x) then Inr (ext_Content x) else Inl EOF"
  let ?gmar = "\<lambda>x. if dat_RequestId x = ''g'' then Inr (dat_RawData x) else Inl EOF"
  let ?gunm = "\<lambda>b. Inr \<lparr>dat_RequestId = ''g'', dat_RawData = b\<rparr>"
  let ?a = "\<lparr>serviceConnections = [''r'' \<mapsto> 5], sa_outs = (\<lambda>_. no_stream), sa_ins = (\<lambda>_. \<lparr>chunks = [], fin = EOF\<rparr>)\<rparr>"
  let ?n = "sample_node\<lparr>serviceSocketConns := [''g'' \<mapsto> 6]\<rparr>"
  let ?c = "\<lparr>chunks = [[1, 2], [3]], fin = EOF\<rparr> :: net_in"
  have cod: "codec_ok ?mar (\<lambda>b. Inr (data_message ''r'' ''m'' b))" "codec_ok ?gmar ?gunm"
    by (auto simp: codec_ok_def split: if_splits)
  have p: "fin ?c = EOF" "length (conn_pending ?c) \<le> 3"
    "\<forall>(i :: nat) d. length d \<le> 40960 \<longrightarrow> (\<exists>b. ?mar (data_message ''r'' ''m'' d) = Inr b \<and> length b \<le> max_alloc)"
    "\<forall>b. length b \<le> max_alloc \<longrightarrow> ?gmar \<lparr>dat_RequestId = ''g'', dat_RawData = b\<rparr> = Inr (id b)"
    "serviceSocketConns ?n ''g'' = Some 6" "(\<lambda>_ :: handle. no_stream) 6 = no_stream" "serviceConnections ?a ''r'' = Some 5"
    "werrs (sa_outs ?a 5) = []"
    by (auto simp: data_message_def max_alloc_def conn_pending_def no_stream_def)
  obtain st bs where T: "client_relay (Suc 3) ?mar (\<lambda>_. ''m'') ''r'' ?c no_stream = (Finished, st)" "\<forall>b \<in> set bs. length b \<le> max_alloc"
      and all: "\<forall>c1 css1 c2 css2. aligned css1 bs \<longrightarrow> chunks c1 = concat css1 \<longrightarrow> fin c1 = EOF \<longrightarrow>
        aligned css2 (map id bs) \<longrightarrow> chunks c2 = concat css2 \<longrightarrow>
        conn_pending c1 = out_bytes st \<and>
        (\<exists>up outs'. csgw_socket_loop (Suc (length bs)) ?gmar ''g'' c1 no_stream = (Finished, up) \<and> conn_pending c2 = out_bytes up \<and>
          socket_data_loop ?gunm ProxySocketDataFromClientSide (fst (ReadBytesViaStream (length bs) (Conn c2))) ?n (\<lambda>_. no_stream) = Inr outs' \<and>
          (\<forall>c3. conn_pending c3 = out_bytes (outs' 6) \<longrightarrow>
            (\<exists>a'. serve_gateway (\<lambda>b. Inr (data_message ''r'' ''m'' b)) (\<lambda>_. Inl EOF) (\<lambda>_. (0, Inl EOF))
                (fst (ReadBytesViaStream (length bs) (Buffered (NewReader c3)))) ?a = Inr a' \<and>
              out_bytes (sa_outs a' 5) = out_bytes (sa_outs ?a 5) @ conn_pending ?c)))"
    using socks_data_end_to_end [where msgId = "\<lambda>_. ''m''", OF p(1,2) cod(1) p(3,4) cod(2) p(5,6,7,8), of "\<lambda>_. Inl EOF" "\<lambda>_. (0, Inl EOF)"]
    by blast
  let ?css = "map (\<lambda>b. [frame b]) bs" and ?cs = "\<lparr>chunks = map frame bs, fin = EOF\<rparr> :: net_in"
  have al: "aligned ?css bs" "aligned ?css (map id bs)" "chunks ?cs = concat ?css" "fin ?cs = EOF"
    using aligned_pieces [OF T(2)] by (simp_all add: concat_map_singleton)
  obtain up outs' where U: "csgw_socket_loop (Suc (length bs)) ?gmar ''g'' ?cs no_stream = (Finished, up)"
      "socket_data_loop ?gunm ProxySocketDataFromClientSide (fst (ReadBytesViaStream (length bs) (Conn ?cs))) ?n (\<lambda>_. no_stream) = Inr outs'"
      and rest: "\<forall>c3. conn_pending c3 = out_bytes (outs' 6) \<longrightarrow>
            (\<exists>a'. serve_gateway (\<lambda>b. Inr (data_message ''r'' ''m'' b)) (\<lambda>_. Inl EOF) (\<lambda>_. (0, Inl EOF))
                (fst (ReadBytesViaStream (length bs) (Buffered (NewReader c3)))) ?a = Inr a' \<and>
              out_bytes (sa_outs a' 5) = out_bytes (sa_outs ?a 5) @ conn_pending ?c)"
    using all [rule_format, OF al(1,3,4,2,3)] by blast
  let ?c3 = "\<lparr>chunks = [out_bytes (outs' 6)], fin = EOF\<rparr> :: net_in"
  obtain a' where A: "serve_gateway (\<lambda>b. Inr (data_message ''r'' ''m'' b)) (\<lambda>_. Inl EOF) (\<lambda>_. (0, Inl EOF))
                (fst (ReadBytesViaStream (length bs) (Buffered (NewReader ?c3)))) ?a = Inr a'"
      "out_bytes (sa_outs a' 5) = [1, 2, 3]"
    using rest [rule_format, of ?c3] by (auto simp: conn_pending_def no_stream_def out_bytes_def simp del: serve_gateway.simps ReadBytesViaStream.simps)
  have "Suc 3 = (4 :: nat)"
    by simp
  note T4 = T(1) [unfolded this]
  show ?thesis
    by (intro exI conjI) (rule T4, rule U(1), rule U(2), rule A(1), rule A(2))
qed

text \<open>
  C40. Two clients of one client side agent get in each other's way: the connection to the gateway
  is kept in one field for all. If a second client connects before the first one's SOCKS5 request
  is read, that request is written to the second client's gateway connection, the first client's
  relays are started on it, and the first connection gets nothing.
\<close>

theorem second_client_takes_over:
  assumes "serve_client_connect imar env uuid (Inr conn1) a = Inr (rid1, a1)"
    and "serve_client_connect imar env uuid' (Inr conn2) a1 = Inr (rid2, a2)" and "conn1 \<noteq> conn2"
    and "serve_client_request binmar mar msgId rid1 ci co a2 = Inr (rest, w, relayConn, a3)"
  shows "relayConn = Some conn2 \<and> ca_outs a3 conn1 = ca_outs a2 conn1 \<and>
     (\<exists>b. WriteBytesViaStream (ca_outs a2 conn2) b = (Inr (), ca_outs a3 conn2))"
proof -
  have "RemoteSocketConn a2 = Some conn2"
    using assms(2)
    by (auto simp: serve_client_connect_def connectToCsgwAndSendInitRequest_def remote_write_def
        Let_def bindP_Inr_iff split: sum.splits)
  then obtain b where "remote_write (Some conn2) b a2 = Inr a3" "relayConn = RemoteSocketConn a3"
    using assms(4)
    by (auto simp: serve_client_request_def bindP_Inr_iff split: sum.splits prod.splits)
  then show ?thesis
    using assms(3) \<open>RemoteSocketConn a2 = Some conn2\<close>
    by (auto simp: remote_write_def bindP_Inr_iff commit_Inr_iff)
qed

theorem second_client_takes_over_witness:
  "\<exists>rid1 a1 rid2 a2 rest w a3.
     serve_client_connect (\<lambda>_. Inr [1]) None ''x'' (Inr 1) \<lparr>RemoteSocketConn = None, ca_outs = (\<lambda>_. no_stream)\<rparr> =
       Inr (rid1, a1) \<and>
     serve_client_connect (\<lambda>_. Inr [1]) None ''y'' (Inr 2) a1 = Inr (rid2, a2) \<and>
     serve_client_request (\<lambda>_. Inr [7]) (\<lambda>_. Inr [9]) ''m'' rid1
       \<lparr>chunks = [[5, 1, 0], [5, 1, 0, 1, 10, 0, 0, 1, 0, 80]], fin = EOF\<rparr> no_stream a2 = Inr (rest, w, Some 2, a3) \<and>
     ca_outs a3 1 = ca_outs a2 1"
proof -
  let ?a = "\<lparr>RemoteSocketConn = None, ca_outs = (\<lambda>_. no_stream)\<rparr>"
  let ?c = "\<lparr>chunks = [[5, 1, 0], [5, 1, 0, 1, 10, 0, 0, 1, 0, 80]], fin = EOF\<rparr> :: net_in"
  have wr: "commit (WriteBytesViaStream no_stream x) = Inr (snd (WriteBytesViaStream no_stream x))"
    "werrs (snd (WriteBytesViaStream no_stream x)) = []" for x
    by (simp_all add: no_stream_def WriteBytesViaStream_ok commit_def)
  obtain rid1 a1 where 1: "serve_client_connect (\<lambda>_. Inr [1]) None ''x'' (Inr 1) ?a = Inr (rid1, a1)"
      "ca_outs a1 2 = no_stream"
    by (simp add: serve_client_connect_def connectToCsgwAndSendInitRequest_def remote_write_def wr(1))
  obtain rid2 a2 where 2: "serve_client_connect (\<lambda>_. Inr [1]) None ''y'' (Inr 2) a1 = Inr (rid2, a2)"
      "RemoteSocketConn a2 = Some 2" "werrs (ca_outs a2 2) = []"
    by (simp add: serve_client_connect_def connectToCsgwAndSendInitRequest_def remote_write_def wr 1(2))
  have "\<exists>q. fst (buildSocks5ConnectRequest ?c no_stream) = Inr q"
  proof -
    have "(case fst (buildSocks5ConnectRequest ?c no_stream) of Inl _ \<Rightarrow> False | Inr _ \<Rightarrow> True)"
      by code_simp
    then show ?thesis by (simp split: sum.splits)
  qed
  then obtain q w1 rest where "buildSocks5ConnectRequest ?c no_stream = (Inr q, w1, rest)"
    by (metis prod.collapse)
  then obtain rest w conn a3 where 3: "serve_client_request (\<lambda>_. Inr [7]) (\<lambda>_. Inr [9]) ''m'' rid1 ?c no_stream a2 =
      Inr (rest, w, conn, a3)"
    using 2(2,3) by (simp add: serve_client_request_def remote_write_def commit_write)
  show ?thesis
    using second_client_takes_over [OF 1(1) 2(1) _ 3] 1(1) 2(1) 3 by auto
qed


section \<open>Replies through the agents\<close>

interpretation service_replies: relay_loop receive_piece "\<lambda>k c w. service_relay k mar msgId rid c w" "\<lambda>w. werrs w = []"
  "\<lambda>x. \<forall>i. \<exists>b. mar (data_message rid (msgId i) x) = Inr b"
  "\<lambda>w x w'. \<exists>i b. mar (data_message rid (msgId i) x) = Inr b \<and> sent w' = sent w @ [b]"
  for mar rid and msgId :: "nat \<Rightarrow> string"
proof unfold_locales
  fix w :: net_out and x c c' k
  assume "\<forall>i. \<exists>b. mar (data_message rid (msgId i) x) = Inr b"
  then obtain b where "mar (data_message rid (msgId k) x) = Inr b" by blast
  moreover assume "werrs w = []" "receive_piece c x c'"
  ultimately show "\<exists>w'. service_relay (Suc k) mar msgId rid c w = service_relay k mar msgId rid c' w' \<and>
      (\<exists>i b. mar (data_message rid (msgId i) x) = Inr b \<and> sent w' = sent w @ [b]) \<and> werrs w' = []"
    by (intro exI [of _ "w\<lparr>sent := sent w @ [b]\<rparr>"]) (auto simp: receive_piece_def)
qed

definition content_of :: "ExtServiceData unmarshaller \<Rightarrow> bytes \<Rightarrow> bytes" where
  "content_of unm b = (case unm b of Inl _ \<Rightarrow> [] | Inr m \<Rightarrow> ext_Content m)"

interpretation client_replies: relay_loop receive_frame "\<lambda>k c w. csgw_relay k unm c w" "\<lambda>w. werrs w = []"
  "\<lambda>b. \<exists>m. unm b = Inr m" "\<lambda>w b w'. out_bytes w' = out_bytes w @ content_of unm b"
  for unm
proof unfold_locales
  fix w :: net_out and b c c' k
  assume "werrs w = []" "\<exists>m. unm b = Inr m" "receive_frame c b c'"
  then show "\<exists>w'. csgw_relay (Suc k) unm c w = csgw_relay k unm c' w' \<and>
      out_bytes w' = out_bytes w @ content_of unm b \<and> werrs w' = []"
    by (intro exI [of _ "w\<lparr>sent := sent w @ [content_of unm b]\<rparr>"])
      (auto simp: receive_frame_def content_of_def out_bytes_def Let_def)
qed

interpretation client_frames: frame_loop "\<lambda>k c w. csgw_relay k unm c w" for unm
  by unfold_locales (auto simp: Let_def split: sum.splits prod.splits option.splits)

lemma chain_sent:
  "chain (\<lambda>w x w'. \<exists>i b. mar (data_message rid (msgId i) x) = Inr b \<and> sent w' = sent w @ [b]) w xs w' \<Longrightarrow>
    \<exists>bs. sent w' = sent w @ bs \<and> list_all2 (\<lambda>x b. \<exists>i. mar (data_message rid (msgId i) x) = Inr b) xs bs"
proof (induction xs arbitrary: w)
  case Nil
  then show ?case by simp
next
  case (Cons x xs)
  then obtain w1 i b where "mar (data_message rid (msgId i) x) = Inr b" "sent w1 = sent w @ [b]"
      "chain (\<lambda>w x w'. \<exists>i b. mar (data_message rid (msgId i) x) = Inr b \<and> sent w' = sent w @ [b]) w1 xs w'"
    by auto
  moreover from this(3) obtain bs where "sent w' = sent w1 @ bs"
      "list_all2 (\<lambda>x b. \<exists>i. mar (data_message rid (msgId i) x) = Inr b) xs bs"
    using Cons.IH by blast
  ultimately show ?case
    by (intro exI [of _ "b # bs"]) auto
qed

lemma service_relay_pieces:
  assumes "chunks c = xs" and "\<forall>x \<in> set xs. x \<noteq> [] \<and> length x \<le> 40960" and "werrs w = []"
    and "\<forall>x \<in> set xs. \<forall>i. \<exists>b. mar (data_message rid (msgId i) x) = Inr b"
  shows "\<exists>w' bs. service_relay (length xs) mar msgId rid c w = (Running, w') \<and> sent w' = sent w @ bs \<and>
     list_all2 (\<lambda>x b. \<exists>i. mar (data_message rid (msgId i) x) = Inr b) xs bs"
  using service_replies.relayed [OF assms(3,4) whole_pieces [of c xs "[]"], of 0] assms(1,2) chain_sent by fastforce

lemma csgw_relay_aligned:
  assumes "list_all2 (\<lambda>x b. \<exists>i. unm b = Inr (data_message rid i x)) xs bs"
    and "aligned css bs" and "chunks c = concat css" and "fin c = EOF" and "werrs w = []"
  shows "\<exists>w'. csgw_relay (Suc (length bs)) unm c w = (Finished, w') \<and> out_bytes w' = out_bytes w @ concat xs"
proof -
  have "map (content_of unm) bs = xs"
    using assms(1) by (induction xs bs rule: list_all2_induct) (auto simp: content_of_def data_message_def)
  moreover have "\<forall>b \<in> set bs. \<exists>m. unm b = Inr m"
    using assms(1) by (induction xs bs rule: list_all2_induct) auto
  then obtain w' where w': "csgw_relay (length bs + 1) unm c w = csgw_relay 1 unm (c\<lparr>chunks := []\<rparr>) w'"
      "chain (\<lambda>w b w'. out_bytes w' = out_bytes w @ content_of unm b) w bs w'"
    using client_replies.relayed [where unm = unm and k = 1, OF assms(5) _ aligned_frames [OF assms(2), of c "[]"]] assms(3) by auto
  moreover obtain r where "read_frame (NewReader (c\<lparr>chunks := []\<rparr>)) = (Inr (Inl EOF), r)"
    using read_frame_closed [of "c\<lparr>chunks := []\<rparr>"] assms(4) by (auto simp: conn_pending_def)
  ultimately show ?thesis
    using chain_append [OF w'(2), of out_bytes "content_of unm"] by simp
qed

text \<open>
  C16. Replies of the SOCKS5 service arrive at the client, through both agents and both gateways. The
  service side agent turns the pieces the service sends into messages, written without frames. Let
  each message fit the gateway's buffer of 40960 bytes and arrive there as one piece, and let no
  network piece on the stream between the gateways, and none on the client side agent's connection,
  join the end of a frame with what follows it. Then the service side gateway wraps every message, the
  client side gateway writes each as a frame to the client side agent's connection, and that agent
  writes to the client exactly the bytes the service sent, and ends when the gateway closes.
\<close>

theorem replies_delivered:
  assumes "chunks c = xs" and "\<forall>x \<in> set xs. x \<noteq> [] \<and> length x \<le> 40960"
    and "\<forall>x \<in> set xs. \<forall>i. \<exists>b. mar (data_message rid (msgId i) x) = Inr b \<and> b \<noteq> [] \<and> length b \<le> 40960"
    and "codec_ok mar unm" and "\<forall>b. gmar \<lparr>dat_RequestId = grid, dat_RawData = b\<rparr> = Inr (enc b)" and "codec_ok gmar gunm"
    and "clientSocketConns n grid = Some h" and "outs h = no_stream"
  shows "\<exists>w bs. service_relay (length xs) mar msgId rid c no_stream = (Running, w) \<and> sent w = bs \<and>
     (\<forall>b \<in> set bs. length b \<le> 40960) \<and>
     (\<forall>c1 css c2 css' c3. chunks c1 = bs \<longrightarrow> aligned css (map enc bs) \<longrightarrow> chunks c2 = concat css \<longrightarrow>
        aligned css' bs \<longrightarrow> chunks c3 = concat css' \<longrightarrow> fin c3 = EOF \<longrightarrow>
        (\<exists>st outs' cl. socket_service_loop (length bs) gmar grid (NewReader c1) (Some no_stream) = (Running, Some st) \<and>
          conn_pending c2 = out_bytes st \<and>
          socket_data_loop gunm ProxySocketDataFromServiceSide (fst (ReadBytesViaStream (length bs) (Conn c2))) n outs = Inr outs' \<and>
          conn_pending c3 = out_bytes (outs' h) \<and>
          csgw_relay (Suc (length bs)) unm c3 no_stream = (Finished, cl) \<and> out_bytes cl = concat xs))"
proof -
  obtain w bs where w: "service_relay (length xs) mar msgId rid c no_stream = (Running, w)" "sent w = bs"
      "list_all2 (\<lambda>x b. \<exists>i. mar (data_message rid (msgId i) x) = Inr b) xs bs"
    using service_relay_pieces [of c xs no_stream mar rid msgId] assms(1-3) by (fastforce simp: no_stream_def)
  have bs: "b \<noteq> [] \<and> length b \<le> 40960" if mem: "b \<in> set bs" for b
  proof -
    obtain j where "j < length bs" "bs ! j = b"
      using mem by (auto simp: in_set_conv_nth)
    then obtain i where "xs ! j \<in> set xs" "mar (data_message rid (msgId i) (xs ! j)) = Inr b"
      using w(3) by (auto simp: list_all2_conv_all_nth)
    moreover from this(1) obtain b' where "mar (data_message rid (msgId i) (xs ! j)) = Inr b'" "b' \<noteq> []" "length b' \<le> 40960"
      using assms(3) by blast
    ultimately show ?thesis
      by simp
  qed
  have unm: "list_all2 (\<lambda>x b. \<exists>i. unm b = Inr (data_message rid i x)) xs bs"
    by (rule list_all2_mono [OF w(3)]) (use codec_okD [OF assms(4)] in blast)
  have down_pieces: "\<exists>st outs' cl. socket_service_loop (length bs) gmar grid (NewReader c1) (Some no_stream) = (Running, Some st) \<and>
          conn_pending c2 = out_bytes st \<and>
          socket_data_loop gunm ProxySocketDataFromServiceSide (fst (ReadBytesViaStream (length bs) (Conn c2))) n outs = Inr outs' \<and>
          conn_pending c3 = out_bytes (outs' h) \<and>
          csgw_relay (Suc (length bs)) unm c3 no_stream = (Finished, cl) \<and> out_bytes cl = concat xs"
    if c: "chunks c1 = bs" "aligned css (map enc bs)" "chunks c2 = concat css" "aligned css' bs" "chunks c3 = concat css'" "fin c3 = EOF"
    for c1 c2 c3 css css'
  proof -
    have p: "\<forall>b \<in> set bs. b \<noteq> [] \<and> length b \<le> 40960" "\<forall>b \<in> set bs. gmar \<lparr>dat_RequestId = grid, dat_RawData = b\<rparr> = Inr (enc b)"
        "werrs (outs h) = []"
      using bs assms(5,8) by (auto simp: no_stream_def)
    obtain st outs' where G: "socket_service_loop (length bs) gmar grid (NewReader c1) (Some no_stream) = (Running, Some st)"
        "out_bytes st = concat (map (frame \<circ> enc) bs)" "fst (ReadBytesViaStream (length bs) (Conn c2)) = map (Data \<circ> enc) bs"
        "socket_data_loop gunm ProxySocketDataFromServiceSide (map (Data \<circ> enc) bs) n outs = Inr outs'"
        "out_bytes (outs' h) = out_bytes (outs h) @ concat (map frame bs)"
      using service_data_carried [where outs = outs, OF c(1) p(1,2) assms(6) c(2,3) assms(7) p(3)] by blast
    obtain cl where "csgw_relay (Suc (length bs)) unm c3 no_stream = (Finished, cl)" "out_bytes cl = concat xs"
      using csgw_relay_aligned [OF unm c(4-6), of no_stream] by (auto simp: no_stream_def out_bytes_def simp del: csgw_relay.simps)
    then show ?thesis
      using G aligned_pending [OF c(2,3)] aligned_pending [OF c(4,5)] assms(8)
      by (intro exI [of _ st] exI [of _ outs'] exI [of _ cl])
        (simp add: comp_def no_stream_def out_bytes_def del: csgw_relay.simps socket_service_loop.simps)
  qed
  have small: "\<forall>b \<in> set bs. length b \<le> 40960"
    using bs by blast
  show ?thesis
    by (rule exI [of _ w], rule exI [of _ bs], intro conjI allI impI w(1,2) small) (rule down_pieces)
qed

theorem replies_delivered_witness:
  "\<exists>w bs st outs' cl. service_relay 2 (\<lambda>x. if x = data_message ''r'' ''m'' (ext_Content x) then Inr (9 # ext_Content x) else Inl EOF)
       (\<lambda>_. ''m'') ''r'' \<lparr>chunks = [[1, 2], [3]], fin = EOF\<rparr> no_stream = (Running, w) \<and> sent w = bs \<and>
     socket_service_loop (length bs) (\<lambda>x. if dat_RequestId x = ''g'' then Inr (dat_RawData x) else Inl EOF) ''g''
       (NewReader \<lparr>chunks = bs, fin = EOF\<rparr>) (Some no_stream) = (Running, Some st) \<and>
     socket_data_loop (\<lambda>b. Inr \<lparr>dat_RequestId = ''g'', dat_RawData = b\<rparr>) ProxySocketDataFromServiceSide
       (fst (ReadBytesViaStream (length bs) (Conn \<lparr>chunks = map frame bs, fin = EOF\<rparr>)))
       (sample_node\<lparr>clientSocketConns := [''g'' \<mapsto> 4]\<rparr>) (\<lambda>_. no_stream) = Inr outs' \<and>
     csgw_relay (Suc (length bs)) (\<lambda>b. Inr (data_message ''r'' ''m'' (tl b))) \<lparr>chunks = map frame bs, fin = EOF\<rparr> no_stream =
       (Finished, cl) \<and> out_bytes cl = [1, 2, 3]"
proof -
  let ?mar = "\<lambda>x. if x = data_message ''r'' ''m'' (ext_Content x) then Inr (9 # ext_Content x) else Inl EOF"
  let ?gmar = "\<lambda>x. if dat_RequestId x = ''g'' then Inr (dat_RawData x) else Inl EOF"
  let ?unm = "\<lambda>b. Inr (data_message ''r'' ''m'' (tl b))" and ?gunm = "\<lambda>b. Inr \<lparr>dat_RequestId = ''g'', dat_RawData = b\<rparr>"
  let ?xs = "[[1, 2], [3]] :: bytes list" and ?n = "sample_node\<lparr>clientSocketConns := [''g'' \<mapsto> 4]\<rparr>"
  let ?c = "\<lparr>chunks = ?xs, fin = EOF\<rparr> :: net_in"
  have cod: "codec_ok ?mar ?unm" "codec_ok ?gmar ?gunm"
    by (auto simp: codec_ok_def split: if_splits)
  have p: "chunks ?c = ?xs" "\<forall>x \<in> set ?xs. x \<noteq> [] \<and> length x \<le> 40960"
    "\<forall>x \<in> set ?xs. \<forall>i :: nat. \<exists>b. ?mar (data_message ''r'' ''m'' x) = Inr b \<and> b \<noteq> [] \<and> length b \<le> 40960"
    "\<forall>b. ?gmar \<lparr>dat_RequestId = ''g'', dat_RawData = b\<rparr> = Inr (id b)" "clientSocketConns ?n ''g'' = Some 4"
    "(\<lambda>_ :: handle. no_stream) 4 = no_stream"
    by (simp_all add: data_message_def)
  obtain w bs where T: "service_relay (length ?xs) ?mar (\<lambda>_. ''m'') ''r'' ?c no_stream = (Running, w)" "sent w = bs"
      "\<forall>b \<in> set bs. length b \<le> 40960"
      and all: "\<forall>c1 css c2 css' c3. chunks c1 = bs \<longrightarrow> aligned css (map id bs) \<longrightarrow> chunks c2 = concat css \<longrightarrow>
        aligned css' bs \<longrightarrow> chunks c3 = concat css' \<longrightarrow> fin c3 = EOF \<longrightarrow>
        (\<exists>st outs' cl. socket_service_loop (length bs) ?gmar ''g'' (NewReader c1) (Some no_stream) = (Running, Some st) \<and>
          conn_pending c2 = out_bytes st \<and>
          socket_data_loop ?gunm ProxySocketDataFromServiceSide (fst (ReadBytesViaStream (length bs) (Conn c2))) ?n (\<lambda>_. no_stream) = Inr outs' \<and>
          conn_pending c3 = out_bytes (outs' 4) \<and>
          csgw_relay (Suc (length bs)) ?unm c3 no_stream = (Finished, cl) \<and> out_bytes cl = concat ?xs)"
    using replies_delivered [where msgId = "\<lambda>_. ''m''", OF p(1-3) cod(1) p(4) cod(2) p(5,6)] by blast
  let ?css = "map (\<lambda>b. [frame b]) bs" and ?c1 = "\<lparr>chunks = bs, fin = EOF\<rparr> :: net_in"
    and ?cs = "\<lparr>chunks = map frame bs, fin = EOF\<rparr> :: net_in"
  have "\<forall>b \<in> set bs. length b \<le> max_alloc"
    using T(3) by (auto simp: max_alloc_def)
  then have al: "aligned ?css bs" "aligned ?css (map id bs)" "chunks ?cs = concat ?css" "fin ?cs = EOF" "chunks ?c1 = bs"
    using aligned_pieces by (simp_all add: concat_map_singleton)
  obtain st outs' cl where U: "socket_service_loop (length bs) ?gmar ''g'' (NewReader ?c1) (Some no_stream) = (Running, Some st)"
      "socket_data_loop ?gunm ProxySocketDataFromServiceSide (fst (ReadBytesViaStream (length bs) (Conn ?cs))) ?n (\<lambda>_. no_stream) = Inr outs'"
      "csgw_relay (Suc (length bs)) ?unm ?cs no_stream = (Finished, cl)" "out_bytes cl = concat ?xs"
    using all [rule_format, OF al(5,2,3,1,3,4)] by blast
  have n: "length ?xs = 2" "concat ?xs = [1, 2, 3]"
    by simp_all
  show ?thesis
    by (intro exI conjI) (rule T(1) [unfolded n], rule T(2), rule U(1), rule U(2), rule U(3), rule U(4) [unfolded n])
qed

text \<open>
  A reply whose message is longer than the gateway's buffer is never passed on as one piece: every
  message the gateway forwards is shorter, so the client side agent gets no frame with it.
\<close>

lemma large_reply_split:
  assumes "40960 < length b" and "chunks c = [b]" and "\<forall>d. gmar \<lparr>dat_RequestId = grid, dat_RawData = d\<rparr> = Inr (enc d)"
  shows "\<exists>ds st. socket_service_loop (Suc (length b)) gmar grid (NewReader c) (Some no_stream) =
      (Panicked (PanicErr (fin c)), Some st) \<and> out_bytes st = concat (map (frame \<circ> enc) ds) \<and> b \<notin> set ds"
proof -
  obtain ds st where "socket_service_loop (Suc (length b)) gmar grid (NewReader c) (Some no_stream) =
      (Panicked (PanicErr (fin c)), Some st)" "\<forall>d \<in> set ds. d \<noteq> [] \<and> length d \<le> 40960"
      "out_bytes st = concat (map (frame \<circ> enc) ds)"
    using socket_service_loop_all [of "NewReader c" no_stream "length b" gmar grid enc] assms(2,3)
    by (auto simp: no_stream_def out_bytes_def conn_pending_def simp del: socket_service_loop.simps)
  then show ?thesis
    using assms(1) by (metis not_less)
qed


section \<open>The relays end\<close>

lemma client_relay_ends:
  "fin c = EOF \<Longrightarrow> length (conn_pending c) \<le> k \<Longrightarrow> fst (client_relay (Suc k) mar msgId rid c s) \<noteq> Running"
proof (induction k arbitrary: c s rule: less_induct)
  case (less k)
  show ?case
  proof (cases "conn_pending c = []")
    case True
    then show ?thesis
      using conn_read_end [of 40960 c] less.prems(1) by (simp add: Read_direct)
  next
    case False
    then obtain d c1 where d: "conn_read c 40960 = (d, None, c1)" "d \<noteq> []" "conn_pending c = d @ conn_pending c1" "fin c1 = fin c"
      using conn_read_some [of 40960 c] by auto
    then obtain j where j: "k = Suc j" "length (conn_pending c1) \<le> j"
      using less.prems(2) by (cases d; cases k) auto
    then show ?thesis
      using less.IH [of j c1] less.prems(1) d
      by (auto simp del: client_relay.simps simp: client_relay.simps(2) [of "Suc j"] Read_direct split: sum.splits prod.splits)
  qed
qed

text \<open>
  C19. The relays of a client connection end. When the peer has closed, whatever it sent before and
  however it was cut, broken frames and messages that cannot be decoded included, the client side
  gateway's loop and both relays of the client side agent leave their loops: after at most one
  iteration per byte and one more they have finished or panicked.
\<close>

theorem relays_terminate:
  assumes "fin c = EOF"
  shows "fst (csgw_socket_loop (Suc (length (conn_pending c))) gmar rid c s) \<noteq> Running \<and>
     fst (client_relay (Suc (length (conn_pending c))) mar msgId rid c s) \<noteq> Running \<and>
     fst (csgw_relay (Suc (length (conn_pending c))) unm c s) \<noteq> Running"
  using csgw_frames.ends client_frames.ends client_relay_ends assms by (simp del: csgw_socket_loop.simps csgw_relay.simps client_relay.simps)

theorem relays_terminate_witness:
  "fst (csgw_relay 12 (\<lambda>_. Inl ErrUnexpectedEOF) \<lparr>chunks = [[0, 0, 0, 0, 0, 0, 0, 1, 7], [1, 2]], fin = EOF\<rparr> no_stream) \<noteq> Running"
  using relays_terminate [of "\<lparr>chunks = [[0, 0, 0, 0, 0, 0, 0, 1, 7], [1, 2]], fin = EOF\<rparr>"]
  by (simp add: conn_pending_def eval_nat_numeral del: csgw_relay.simps csgw_socket_loop.simps client_relay.simps)

end
