(* ===== verification/Socks_Agent.thy ===== *)
theory Socks_Agent
  imports Agent Mgmt
begin

text \<open>
  The SOCKS5 agent program: \<open>NewApronAgentServer\<close> and \<open>ListenAndServe\<close> of \<open>apron_agent_server.go\<close>, the
  name resolver of \<open>resolver.go\<close>, and \<open>main\<close> of \<open>cmd/socks_agent\<close>. What the agent does with an
  accepted connection is the theory \<open>Agent\<close>.
\<close>

section \<open>The server (apron_agent_server.go, config.go, resolver.go)\<close>

text \<open>
  A name resolver is its \<open>Resolve\<close> method; the context is handed through. \<open>resolveIPAddr\<close> is
  \<open>net.ResolveIPAddr\<close> of the network \<open>ip\<close>.
\<close>

type_synonym NameResolver = "string \<Rightarrow> go_error + bytes"

definition DNSResolver :: "(string \<Rightarrow> go_error + bytes) \<Rightarrow> NameResolver" where
  "DNSResolver resolveIPAddr name = bindP (resolveIPAddr name) (\<lambda>addr. Inr addr)"

record socks5_Config =
  Credentials :: "(string \<Rightarrow> string \<Rightarrow> bool) option"
  Resolver :: "NameResolver option"
  BindIP :: bytes
  Dial :: "(string \<Rightarrow> string \<Rightarrow> go_error + handle) option"
  MsgCh :: "handle option"

record ApronAgentServerConfig =
  Mode :: ApronServerMode
  RestMgmtAddr :: string
  RemoteSocketAddr :: string
  AgentId :: string
  ListenAddr :: string

record ApronAgentServer =
  socks5Config :: socks5_Config
  agentConfig :: ApronAgentServerConfig

definition NewApronAgentServer ::
  "(string \<Rightarrow> go_error + bytes) \<Rightarrow> socks5_Config \<Rightarrow> ApronAgentServerConfig \<Rightarrow> go_error + ApronAgentServer" where
  "NewApronAgentServer resolveIPAddr socksConf agentConf =
     (let socksConf' = (if Resolver socksConf = None then socksConf\<lparr>Resolver := Some (DNSResolver resolveIPAddr)\<rparr>
                        else socksConf) in
      Inr \<lparr>socks5Config = socksConf', agentConfig = agentConf\<rparr>)"

text \<open>
  The accept loop on the successive results of \<open>Accept\<close>: the connections for which
  \<open>serveConnection\<close> was started, and the error that made it return.
\<close>

fun accept_loop :: "(go_error + 'c) list \<Rightarrow> 'c list \<times> go_error option" where
  "accept_loop [] = ([], None)"
| "accept_loop (Inl err # rs) = ([], Some err)"
| "accept_loop (Inr conn # rs) = (case accept_loop rs of (cs, e) \<Rightarrow> (conn # cs, e))"

definition ListenAndServe ::
  "(ApronService \<Rightarrow> go_error + bytes) \<Rightarrow> 'g http_post \<Rightarrow> (string \<Rightarrow> go_error option) \<Rightarrow>
     (go_error + 'c) list \<Rightarrow> ApronAgentServer \<Rightarrow> 'g \<Rightarrow> go_stop + (('c list \<times> go_error option) \<times> 'g)" where
  "ListenAndServe json post listen accepts s g =
     (let conf = agentConfig s in
      bindP (prepareAgent json post (Mode conf) (RestMgmtAddr conf) (AgentId conf) (ListenAddr conf) g) (\<lambda>g'.
        case listen (ListenAddr conf) of
          Some err \<Rightarrow> Inr (([], Some err), g')
        | None \<Rightarrow> Inr (accept_loop accepts, g')))"

section \<open>main (cmd/socks_agent)\<close>

definition ca_flag_set :: "string \<rightharpoonup> ApronAgentServerConfig setter" where
  "ca_flag_set =
     [''csgw-socket-addr'' \<mapsto> string_flag RemoteSocketAddr_update,
      ''listen-addr'' \<mapsto> string_flag ListenAddr_update]"

definition sa_flag_set :: "string \<rightharpoonup> ApronAgentServerConfig setter" where
  "sa_flag_set =
     [''agent-id'' \<mapsto> string_flag AgentId_update,
      ''listen-addr'' \<mapsto> string_flag ListenAddr_update,
      ''ssgw-addr'' \<mapsto> string_flag RestMgmtAddr_update,
      ''service-addr'' \<mapsto> string_flag RemoteSocketAddr_update]"

definition new_agent_config :: "ApronServerMode \<Rightarrow> ApronAgentServerConfig" where
  "new_agent_config mode =
     \<lparr>Mode = mode, RestMgmtAddr = '''', RemoteSocketAddr = '''', AgentId = '''', ListenAddr = ''''\<rparr>"

text \<open>
  The server that \<open>main\<close> starts; \<open>osArgs\<close> is \<open>os.Args\<close>, with the program's name first. A return of
  \<open>ListenAndServe\<close> with an error makes the process panic, see \<open>socks_agent_run\<close>.
\<close>

definition socks_agent_main ::
  "(string \<Rightarrow> go_error + bytes) \<Rightarrow> string list \<Rightarrow> startup_failure + ApronAgentServer" where
  "socks_agent_main resolveIPAddr osArgs =
     (if length osArgs < 2 then Inl (ExitStatus 1)
      else
        let subCommand = osArgs ! 1; socksConf = \<lparr>Credentials = None, Resolver = None, BindIP = [], Dial = None, MsgCh = None\<rparr>;
            start = (\<lambda>formal mode.
              bindP (must_Parse formal (drop 2 osArgs) (new_agent_config mode)) (\<lambda>(conf, _).
                stopped (must (NewApronAgentServer resolveIPAddr socksConf conf)))) in
        if subCommand = ''ca'' then start ca_flag_set ClientAgentMode
        else if subCommand = ''sa'' then start sa_flag_set ServerAgentMode
        else Inl (ExitStatus 1))"

definition socks_agent_run ::
  "(ApronService \<Rightarrow> go_error + bytes) \<Rightarrow> 'g http_post \<Rightarrow> (string \<Rightarrow> go_error option) \<Rightarrow>
     (go_error + 'c) list \<Rightarrow> ApronAgentServer \<Rightarrow> 'g \<Rightarrow> go_stop + ('c list \<times> 'g)" where
  "socks_agent_run json post listen accepts s g =
     bindP (ListenAndServe json post listen accepts s g) (\<lambda>((cs, err), g').
       bindP (CheckError err) (\<lambda>_. Inr (cs, g')))"


section \<open>What the command line sets\<close>

lemma agent_flag_names:
  "\<forall>n \<in> dom sa_flag_set. flag_name_ok n" "\<forall>n \<in> dom ca_flag_set. flag_name_ok n"
  by (auto simp: sa_flag_set_def ca_flag_set_def flag_name_ok_def split: if_splits)

lemma sa_flag_values:
  assumes "apply_settings sa_flag_set kvs (new_agent_config ServerAgentMode) = Some conf"
  shows "Mode conf = ServerAgentMode"
    and "AgentId conf = last_setting ''agent-id'' kvs ''''"
    and "ListenAddr conf = last_setting ''listen-addr'' kvs ''''"
    and "RestMgmtAddr conf = last_setting ''ssgw-addr'' kvs ''''"
    and "RemoteSocketAddr conf = last_setting ''service-addr'' kvs ''''"
proof -
  show "Mode conf = ServerAgentMode"
    by (rule apply_settings_last [OF assms, where R = "\<lambda>_ c. Mode c = ServerAgentMode"])
      (auto simp: new_agent_config_def sa_flag_set_def string_flag_def split: if_splits)
  show "AgentId conf = last_setting ''agent-id'' kvs ''''"
    and "ListenAddr conf = last_setting ''listen-addr'' kvs ''''"
    and "RestMgmtAddr conf = last_setting ''ssgw-addr'' kvs ''''"
    and "RemoteSocketAddr conf = last_setting ''service-addr'' kvs ''''"
    by (rule apply_settings_last [OF assms],
        (auto simp: new_agent_config_def sa_flag_set_def string_flag_def split: if_splits) [3])+
qed

lemma socks_agent_main_sa:
  assumes "list_all2 (\<lambda>ws (n, v). ws \<in> spelled n v) wss kvs"
    and "apply_settings sa_flag_set kvs (new_agent_config ServerAgentMode) = Some conf"
  shows "\<exists>s. socks_agent_main resolveIPAddr (prog # ''sa'' # concat wss) = Inr s \<and> agentConfig s = conf"
  using flag_Parse_settings [OF assms(1) agent_flag_names(1) assms(2)]
  by (simp add: socks_agent_main_def must_Parse_def NewApronAgentServer_def Let_def)

lemma accept_loop_all [simp]: "accept_loop (map Inr cs) = (cs, None)"
  by (induction cs) simp_all

lemma tcp_service_simps [simp]:
  "svc_Id (tcp_service k a) = k" "\<not> svc_IsDeleted (tcp_service k a)"
  by (simp_all add: tcp_service_def empty_service_def)

section \<open>Properties\<close>

text \<open>
  C20. A service side agent makes itself reachable. Started with any spelling of its flags, next to a
  gateway that handles what is posted to its management address, it registers a service with its id
  and its own listening address: afterwards the gateway's registry holds the service as its own. The
  agent listens and serves every connection it accepts, and a socket request that names the agent's
  id makes the gateway dial the agent's listening address and keep that connection for the request.
\<close>

theorem service_agent_reachable:
  assumes "list_all2 (\<lambda>ws (n, v). ws \<in> spelled n v) wss kvs"
    and "apply_settings sa_flag_set kvs (new_agent_config ServerAgentMode) = Some conf"
    and "k = last_setting ''agent-id'' kvs ''''" and "addr = last_setting ''listen-addr'' kvs ''''"
    and "json (tcp_service k addr) = Inr body"
    and "\<forall>g r g'. newOrUpdateServiceHandler mar publish unjson body g = Inr (r, g') \<longrightarrow>
           post (last_setting ''ssgw-addr'' kvs '''') body g = (Inr r, g')"
    and "listen addr = None"
    and "node_inv n" and "broadcastServiceTopic n" and "\<forall>d. publish d = None"
    and "unjson body = Inr (tcp_service k addr)" and "mar (tcp_service k addr) = Inr data"
    and "fst (ReadOneFrameDataFromStream (Conn c)) = Inr (Inr b)" and "iunm b = Inr init"
    and "init_ServiceId init = k" and "peer_decode (init_PeerId init) = Inr p" and "dial addr = Inr (h, fromService)"
  shows "\<exists>s n1 st n2. socks_agent_main resolveIPAddr (prog # ''sa'' # concat wss) = Inr s \<and>
     socks_agent_run json post listen (map Inr conns) s n = Inr (conns, n1) \<and>
     directory n1 = (directory n)(k \<mapsto> (selfID n, tcp_service k addr)) \<and>
     ProxySocketInitReqHandler iunm peer_decode dial newStream c n1 = Inr (init, NewReader fromService, st, n2) \<and>
     serviceSocketConns n2 (init_RequestId init) = Some h"
proof -
  note conf = sa_flag_values [OF assms(2)]
  obtain s where s: "socks_agent_main resolveIPAddr (prog # ''sa'' # concat wss) = Inr s" "agentConfig s = conf"
    using socks_agent_main_sa [OF assms(1,2)] by blast
  moreover let ?n1 = "enter_service (selfID n) (tcp_service k addr) n"
  have "newOrUpdateServiceHandler mar publish unjson body n = Inr (data, ?n1)"
    using assms(8-12) by (simp add: newOrUpdateServiceHandler_def RegisterLocalService_Inr_iff BroadcastService_def)
  then have "socks_agent_run json post listen (map Inr conns) s n = Inr (conns, ?n1)"
    using conf assms(3-7) s(2)
    by (simp add: socks_agent_run_def ListenAndServe_def prepareAgent_def RegisterServiceToSSGW_def)
  moreover have dir: "directory ?n1 = (directory n)(k \<mapsto> (selfID n, tcp_service k addr))"
    using enter_service_step(3) [OF assms(8), of "selfID n" "tcp_service k addr"] by simp
  then have "services ?n1 k = Some (tcp_service k addr)"
    using directory_Some_iff [of ?n1 k "selfID n" "tcp_service k addr"] by simp
  then have "\<exists>st n2. ProxySocketInitReqHandler iunm peer_decode dial newStream c ?n1 =
      Inr (init, NewReader fromService, st, n2) \<and> serviceSocketConns n2 (init_RequestId init) = Some h"
    using assms(13-17)
    by (simp add: ProxySocketInitReqHandler_def service_at_def tcp_service_def GetBaseUrl_def)
  ultimately show ?thesis
    using dir by blast
qed

definition sample_post :: "Node http_post" where
  "sample_post url b g =
     (case newOrUpdateServiceHandler (\<lambda>_. Inr [2]) (\<lambda>_. None) (\<lambda>_. Inr (tcp_service ''sx'' '':9'')) b g of
        Inl p \<Rightarrow> (Inl EOF, g) | Inr (r, g') \<Rightarrow> (Inr r, g'))"

theorem service_agent_reachable_witness:
  "\<exists>s n1 st n2. socks_agent_main (\<lambda>_. Inl EOF) [''agent'', ''sa'', ''-agent-id'', ''sx'', ''--listen-addr=:9'', ''-ssgw-addr'', ''m''] = Inr s \<and>
     socks_agent_run (\<lambda>_. Inr [1]) sample_post (\<lambda>_. None) [Inr (5::nat)] s sample_node = Inr ([5], n1) \<and>
     directory n1 ''sx'' = Some (''A'', tcp_service ''sx'' '':9'') \<and>
     ProxySocketInitReqHandler (\<lambda>_. Inr \<lparr>init_ServiceId = ''sx'', init_RequestId = ''r'', init_PeerId = '''', init_UserId = ''''\<rparr>)
       Inr (\<lambda>a. if a = '':9'' then Inr (7, \<lparr>chunks = [], fin = EOF\<rparr>) else Inl EOF) (\<lambda>_ _. Inr no_stream)
       \<lparr>chunks = [[0, 0, 0, 0, 0, 0, 0, 1], [3]], fin = EOF\<rparr> n1 =
       Inr (\<lparr>init_ServiceId = ''sx'', init_RequestId = ''r'', init_PeerId = '''', init_UserId = ''''\<rparr>,
         NewReader \<lparr>chunks = [], fin = EOF\<rparr>, st, n2) \<and>
     serviceSocketConns n2 ''r'' = Some 7"
proof -
  let ?wss = "[[''-agent-id'', ''sx''], [''--listen-addr=:9''], [''-ssgw-addr'', ''m'']]"
  let ?kvs = "[(''agent-id'', ''sx''), (''listen-addr'', '':9''), (''ssgw-addr'', ''m'')]"
  let ?conf = "(new_agent_config ServerAgentMode)\<lparr>AgentId := ''sx'', ListenAddr := '':9'', RestMgmtAddr := ''m''\<rparr>"
  let ?init = "\<lparr>init_ServiceId = ''sx'', init_RequestId = ''r'', init_PeerId = '''', init_UserId = ''''\<rparr>"
  let ?c = "\<lparr>chunks = [[0, 0, 0, 0, 0, 0, 0, 1], [3]], fin = EOF\<rparr> :: net_in"
  have sp: "list_all2 (\<lambda>ws (n, v). ws \<in> spelled n v) ?wss ?kvs"
    by (simp add: spelled_def)
  have ap: "apply_settings sa_flag_set ?kvs (new_agent_config ServerAgentMode) = Some ?conf"
    by (simp add: sa_flag_set_def string_flag_def)
  have "frame [3] = [0, 0, 0, 0, 0, 0, 0, 1, 3]"
    by code_simp
  then have fr: "fst (ReadOneFrameDataFromStream (Conn ?c)) = Inr (Inr [3])"
    using read_fresh_aligned [of ?c "chunks ?c" "[]" "[3]"] by (simp add: max_alloc_def)
  have topic: "broadcastServiceTopic sample_node" "selfID sample_node = ''A''"
    by (simp_all add: sample_node_def)
  let ?unjson = "\<lambda>_. Inr (tcp_service ''sx'' '':9'')" and ?mar = "\<lambda>_ :: ApronService. Inr [2]"
  let ?dial = "\<lambda>a. if a = '':9'' then Inr (7, \<lparr>chunks = [], fin = EOF\<rparr>) else Inl EOF"
  have post: "\<forall>g r g'. newOrUpdateServiceHandler ?mar (\<lambda>_. None) ?unjson [1] g = Inr (r, g') \<longrightarrow>
      sample_post (last_setting ''ssgw-addr'' ?kvs '''') [1] g = (Inr r, g')"
    by (simp add: sample_post_def)
  have kv: "''sx'' = last_setting ''agent-id'' ?kvs ''''" "'':9'' = last_setting ''listen-addr'' ?kvs ''''"
    by simp_all
  have "\<exists>s n1 st n2. socks_agent_main (\<lambda>_. Inl EOF) (''agent'' # ''sa'' # concat ?wss) = Inr s \<and>
     socks_agent_run (\<lambda>_. Inr [1]) sample_post (\<lambda>_. None) (map Inr [5::nat]) s sample_node = Inr ([5], n1) \<and>
     directory n1 = (directory sample_node)(''sx'' \<mapsto> (selfID sample_node, tcp_service ''sx'' '':9'')) \<and>
     ProxySocketInitReqHandler (\<lambda>_. Inr ?init) Inr ?dial (\<lambda>_ _. Inr no_stream) ?c n1 =
       Inr (?init, NewReader \<lparr>chunks = [], fin = EOF\<rparr>, st, n2) \<and>
     serviceSocketConns n2 (init_RequestId ?init) = Some 7"
    by (rule service_agent_reachable [where post = sample_post and k = "''sx''" and addr = "'':9''" and mar = ?mar and publish = "\<lambda>_. None" and unjson = ?unjson and body = "[1]" and data = "[2]"
          and p = "''''", OF sp ap kv _ post _ sample_node_inv topic(1) _ _ _ fr]) simp_all
  then obtain s n1 st n2 where r: "socks_agent_main (\<lambda>_. Inl EOF) (''agent'' # ''sa'' # concat ?wss) = Inr s"
     "socks_agent_run (\<lambda>_. Inr [1]) sample_post (\<lambda>_. None) (map Inr [5::nat]) s sample_node = Inr ([5], n1)"
     "directory n1 = (directory sample_node)(''sx'' \<mapsto> (selfID sample_node, tcp_service ''sx'' '':9''))"
     "ProxySocketInitReqHandler (\<lambda>_. Inr ?init) Inr ?dial (\<lambda>_ _. Inr no_stream) ?c n1 =
       Inr (?init, NewReader \<lparr>chunks = [], fin = EOF\<rparr>, st, n2)"
     "serviceSocketConns n2 (init_RequestId ?init) = Some 7"
    by blast
  show ?thesis
    by (rule exI [of _ s], rule exI [of _ n1], rule exI [of _ st], rule exI [of _ n2])
      (use r topic(2) in simp)
qed

end
