(* ===== verification/Socket_Helper.thy ===== *)
theory Socket_Helper
  imports Socks_Agent
begin

text \<open>
  The socket demo program, \<open>cmd/socket_helper\<close>: a client that opens a connection through the client
  side gateway, sends a greeting every second and reads what comes back, and a service that registers
  itself at a gateway and echoes every frame it receives, without a frame around it.
\<close>

section \<open>The client\<close>

text \<open>
  \<open>startClientSideSocketAgent\<close>; \<open>dial\<close> is the sending side of the new connection. A marshalling error
  is ignored and sends the nil slice.
\<close>

definition startClientSideSocketAgent ::
  "ApronSocketInitRequest marshaller \<Rightarrow> (string \<Rightarrow> go_error + net_out) \<Rightarrow> string \<Rightarrow> string \<Rightarrow> go_stop + net_out" where
  "startClientSideSocketAgent mar dial csgwAddr serviceId =
     bindP (must (dial csgwAddr)) (\<lambda>conn.
       let requestBytes = (case mar \<lparr>init_ServiceId = serviceId, init_RequestId = '''', init_PeerId = '''',
             init_UserId = ''''\<rparr> of Inl _ \<Rightarrow> [] | Inr b \<Rightarrow> b) in
       commit (WriteBytesViaStream conn requestBytes))"

definition hello :: bytes where "hello = bytes_of_string ''hello''"

text \<open>The two goroutines of \<open>sendAndReceiveData\<close>; the reader's result holds what it logged.\<close>

fun hello_writer :: "nat \<Rightarrow> net_out \<Rightarrow> loop_state \<times> net_out" where
  "hello_writer 0 conn = (Running, conn)"
| "hello_writer (Suc k) conn =
     (case WriteBytesViaStream conn hello of
        (Inl p, conn') \<Rightarrow> (Panicked p, conn')
      | (Inr _, conn') \<Rightarrow> hello_writer k conn')"

fun hello_reader :: "nat \<Rightarrow> net_in \<Rightarrow> loop_state \<times> bytes list" where
  "hello_reader 0 conn = (Running, [])"
| "hello_reader (Suc k) conn =
     (case read_frame (NewReader conn) of
        (Inl p, _) \<Rightarrow> (Panicked p, [])
      | (Inr (Inl err), _) \<Rightarrow> (Panicked (PanicErr err), [])
      | (Inr (Inr dataBuf), r) \<Rightarrow> (case hello_reader k (under r) of (st, ds) \<Rightarrow> (st, dataBuf # ds)))"

section \<open>The service\<close>

definition registerSocketService ::
  "(ApronService \<Rightarrow> go_error + bytes) \<Rightarrow> 'g http_post \<Rightarrow> string \<Rightarrow> string \<Rightarrow> string \<Rightarrow> 'g \<Rightarrow> go_stop + (bytes \<times> 'g)" where
  "registerSocketService json post ssgwAddr listenAddr serviceId g =
     bindP (must (json (tcp_service serviceId listenAddr))) (\<lambda>newServiceReqBytes.
       case post ssgwAddr newServiceReqBytes g of (r, g') \<Rightarrow> bindP (must r) (\<lambda>respBytes. Inr (respBytes, g')))"

fun echoRequestData :: "nat \<Rightarrow> net_in \<Rightarrow> net_out \<Rightarrow> loop_state \<times> net_out" where
  "echoRequestData 0 conn out = (Running, out)"
| "echoRequestData (Suc k) conn out =
     (case read_frame (NewReader conn) of
        (Inl p, _) \<Rightarrow> (Panicked p, out)
      | (Inr (Inl err), _) \<Rightarrow> (Panicked (PanicErr err), out)
      | (Inr (Inr dataBuf), r) \<Rightarrow>
          (case conn_write out dataBuf of
             (Some err, out') \<Rightarrow> (Panicked (PanicErr err), out')
           | (None, out') \<Rightarrow> echoRequestData k (under r) out'))"

text \<open>The connections \<open>startServerSideSocketAgent\<close> serves; an error of \<open>Accept\<close> is a panic.\<close>

definition startServerSideSocketAgent ::
  "(ApronService \<Rightarrow> go_error + bytes) \<Rightarrow> 'g http_post \<Rightarrow> (string \<Rightarrow> go_error option) \<Rightarrow>
     (go_error + 'c) list \<Rightarrow> string \<Rightarrow> string \<Rightarrow> string \<Rightarrow> 'g \<Rightarrow> go_stop + ('c list \<times> 'g)" where
  "startServerSideSocketAgent json post listen accepts listenAddr ssgwMgmtAddr serviceId g =
     bindP (registerSocketService json post ssgwMgmtAddr listenAddr serviceId g) (\<lambda>(_, g').
     bindP (CheckError (listen listenAddr)) (\<lambda>_.
       case accept_loop accepts of (conns, err) \<Rightarrow> bindP (CheckError err) (\<lambda>_. Inr (conns, g'))))"

section \<open>main\<close>

text \<open>What \<open>main\<close> starts; with any other sub-command it waits for ever without doing anything.\<close>

datatype helper_role =
    HelperClient string string
  | HelperServer string string string
  | HelperIdle

definition helper_client_flags :: "string \<rightharpoonup> (string \<times> string) setter" where
  "helper_client_flags =
     [''csgw-socket-addr'' \<mapsto> string_flag (\<lambda>f (a, s). (f a, s)),
      ''service-id'' \<mapsto> string_flag (\<lambda>f (a, s). (a, f s))]"

definition helper_server_flags :: "string \<rightharpoonup> (string \<times> string \<times> string) setter" where
  "helper_server_flags =
     [''service-id'' \<mapsto> string_flag (\<lambda>f (s, l, m). (f s, l, m)),
      ''listen-addr'' \<mapsto> string_flag (\<lambda>f (s, l, m). (s, f l, m)),
      ''ssgw-addr'' \<mapsto> string_flag (\<lambda>f (s, l, m). (s, l, f m))]"

definition helper_main :: "string list \<Rightarrow> startup_failure + helper_role" where
  "helper_main osArgs =
     (if length osArgs < 2 then Inl (Stopped PanicIndex)
      else if osArgs ! 1 = ''client'' then
        bindP (must_Parse helper_client_flags (drop 2 osArgs) ('''', '''')) (\<lambda>((csgwAddr, serviceId), _).
          Inr (HelperClient csgwAddr serviceId))
      else if osArgs ! 1 = ''server'' then
        bindP (must_Parse helper_server_flags (drop 2 osArgs) ('''', '''', '''')) (\<lambda>((serviceId, listenAddr, ssgwMgmtAddr), _).
          Inr (HelperServer listenAddr ssgwMgmtAddr serviceId))
      else Inr HelperIdle)"

section \<open>Frames through the loops\<close>

lemma hello_writer_ok:
  "werrs w = [] \<Longrightarrow> \<exists>w'. hello_writer k w = (Running, w') \<and> out_bytes w' = out_bytes w @ concat (replicate k (frame hello))"
proof (induction k arbitrary: w)
  case (Suc k)
  obtain w1 where "WriteBytesViaStream w hello = (Inr (), w1)" "werrs w1 = []" "out_bytes w1 = out_bytes w @ frame hello"
    using Suc.prems by (simp add: WriteBytesViaStream_ok out_bytes_def frame_def)
  then show ?case
    using Suc.IH [of w1] by simp
qed simp

lemma hello_reader_frames: "chain receive_frame c ms c' \<Longrightarrow> hello_reader (length ms) c = (Running, ms)"
  by (induction ms arbitrary: c) (auto simp: receive_frame_def)

interpretation echo: relay_loop receive_frame echoRequestData "\<lambda>w. werrs w = []" "\<lambda>_. True" "\<lambda>w d w'. sent w' = sent w @ [d]"
proof unfold_locales
  fix w :: net_out and d c c' k
  assume "werrs w = []" "receive_frame c d c'"
  then show "\<exists>w'. echoRequestData (Suc k) c w = echoRequestData k c' w' \<and> sent w' = sent w @ [d] \<and> werrs w' = []"
    by (intro exI [of _ "w\<lparr>sent := sent w @ [d]\<rparr>"]) (auto simp: receive_frame_def)
qed

lemma echo_frames:
  assumes "chain receive_frame c ms c'" and "werrs w = []"
  shows "\<exists>w'. echoRequestData (length ms) c w = (Running, w') \<and> sent w' = sent w @ ms"
proof -
  obtain w' where "echoRequestData (length ms + 0) c w = echoRequestData 0 c' w'" "chain (\<lambda>w d w'. sent w' = sent w @ [d]) w ms w'"
    using echo.relayed [OF assms(2) _ assms(1), of 0] by auto
  then show ?thesis
    using chain_append [of _ w ms w' sent "\<lambda>d. [d]"] by simp
qed

section \<open>The demo through two gateways\<close>

text \<open>
  The client's greetings leave as frames; forwarded by the client side gateway they reach the echo
  service as the same frames; its echoes come back to the client's connection as frames, and the
  client's reader logs exactly the greetings sent. This needs each echo to arrive at the service side
  gateway as one piece of its own (an echo is written without a frame), and no network piece on the
  five framed hops to join the end of a frame with what follows it.
\<close>

lemma hello_echoed:
  assumes hs: "hs = replicate k hello"
    and gmar: "\<forall>d. gmar \<lparr>dat_RequestId = rid, dat_RawData = d\<rparr> = Inr (enc d)" and cod: "codec_ok gmar gunm"
    and S: "serviceSocketConns ssgw rid = Some h" "souts h = no_stream"
    and C: "clientSocketConns csgw rid = Some g" "couts g = no_stream"
    and c1: "aligned css1 hs" "chunks c1 = concat css1" "fin c1 = EOF" and c2: "aligned css2 (map enc hs)" "chunks c2 = concat css2"
    and c3: "aligned css3 hs" "chunks c3 = concat css3" and c4: "chunks c4 = hs"
    and c5: "aligned css5 (map enc hs)" "chunks c5 = concat css5" and c6: "aligned css6 hs" "chunks c6 = concat css6"
  shows "\<exists>w up souts' e down couts'. hello_writer k no_stream = (Running, w) \<and> conn_pending c1 = out_bytes w \<and>
     csgw_socket_loop (Suc k) gmar rid c1 no_stream = (Finished, up) \<and> conn_pending c2 = out_bytes up \<and>
     socket_data_loop gunm ProxySocketDataFromClientSide (fst (ReadBytesViaStream k (Conn c2))) ssgw souts = Inr souts' \<and>
     conn_pending c3 = out_bytes (souts' h) \<and> echoRequestData k c3 no_stream = (Running, e) \<and> chunks c4 = sent e \<and>
     socket_service_loop k gmar rid (NewReader c4) (Some no_stream) = (Running, Some down) \<and> conn_pending c5 = out_bytes down \<and>
     socket_data_loop gunm ProxySocketDataFromServiceSide (fst (ReadBytesViaStream k (Conn c5))) csgw couts = Inr couts' \<and>
     conn_pending c6 = out_bytes (couts' g) \<and> hello_reader k c6 = (Running, hs)"
proof -
  have len: "length hs = k" "\<forall>d \<in> set hs. d \<noteq> [] \<and> length d \<le> 40960"
    by (auto simp: hs hello_def bytes_of_string_def)
  have gm: "\<forall>d \<in> set hs. gmar \<lparr>dat_RequestId = rid, dat_RawData = d\<rparr> = Inr (enc d)" and e: "werrs (souts h) = []" "werrs (couts g) = []"
    using gmar S(2) C(2) by (simp_all add: no_stream_def)
  obtain w where W: "hello_writer k no_stream = (Running, w)" "out_bytes w = concat (map frame hs)"
    using hello_writer_ok [of no_stream k] by (auto simp: no_stream_def out_bytes_def hs map_replicate_const)
  obtain up souts' where U: "csgw_socket_loop (Suc k) gmar rid c1 no_stream = (Finished, up)"
      "out_bytes up = concat (map (frame \<circ> enc) hs)" "fst (ReadBytesViaStream k (Conn c2)) = map (Data \<circ> enc) hs"
      "socket_data_loop gunm ProxySocketDataFromClientSide (map (Data \<circ> enc) hs) ssgw souts = Inr souts'"
      "out_bytes (souts' h) = out_bytes (souts h) @ concat (map frame hs)"
    using socket_data_carried [where outs = souts, OF c1 gm cod c2 S(1) e(1)] unfolding len(1) by blast
  obtain down couts' where D: "socket_service_loop k gmar rid (NewReader c4) (Some no_stream) = (Running, Some down)"
      "out_bytes down = concat (map (frame \<circ> enc) hs)" "fst (ReadBytesViaStream k (Conn c5)) = map (Data \<circ> enc) hs"
      "socket_data_loop gunm ProxySocketDataFromServiceSide (map (Data \<circ> enc) hs) csgw couts = Inr couts'"
      "out_bytes (couts' g) = out_bytes (couts g) @ concat (map frame hs)"
    using service_data_carried [where outs = couts, OF c4 len(2) gm cod c5 C(1) e(2)] unfolding len(1) by blast
  obtain e where E: "echoRequestData k c3 no_stream = (Running, e)" "sent e = hs"
    using echo_frames [OF aligned_frames [OF c3(1), of c3 "[]"], of no_stream] c3(2) len(1) by (auto simp: no_stream_def)
  have L: "hello_reader k c6 = (Running, hs)"
    using hello_reader_frames [OF aligned_frames [OF c6(1), of c6 "[]"]] c6(2) len(1) by simp
  have "out_bytes (souts h) = []" "out_bytes (couts g) = []"
    using S(2) C(2) by (simp_all add: no_stream_def out_bytes_def)
  then show ?thesis
    using W U D E L c4 aligned_pending [OF c1(1,2)] aligned_pending [OF c2] aligned_pending [OF c3] aligned_pending [OF c5] aligned_pending [OF c6]
    by (intro exI [of _ w] exI [of _ up] exI [of _ souts'] exI [of _ e] exI [of _ down] exI [of _ couts'])
      (simp add: comp_def del: csgw_socket_loop.simps socket_service_loop.simps)
qed

end
