(* ===== verification/Ws_Bin.thy ===== *)
theory Ws_Bin
  imports Socket_Proxy
begin

text \<open>
  The WebSocket demo service, \<open>cmd/wsbin\<close>: echoing what a client sends, publishing a message every
  two seconds, or both. Reading from a connection gives the successive results of \<open>ReadMessage\<close>;
  \<open>outcomes\<close> are the outcomes of the coming writes, none of which fails once they are used up.
\<close>

section \<open>The two services\<close>

fun startEchoService ::
  "(go_error + ws_message) list \<Rightarrow> go_error option list \<Rightarrow> loop_state \<times> ws_message list" where
  "startEchoService [] outcomes = (Running, [])"
| "startEchoService (Inl err # rs) outcomes = (Finished, [])"
| "startEchoService (Inr m # rs) outcomes =
     (case outcomes of
        Some err # _ \<Rightarrow> (Finished, [])
      | _ \<Rightarrow> (case startEchoService rs (tl outcomes) of (st, ms) \<Rightarrow> (st, m # ms)))"

fun startPublisherService ::
  "(nat \<Rightarrow> int) \<Rightarrow> nat \<Rightarrow> go_error option list \<Rightarrow> loop_state \<times> ws_message list" where
  "startPublisherService now 0 outcomes = (Running, [])"
| "startPublisherService now (Suc k) outcomes =
     (case outcomes of
        Some err # _ \<Rightarrow> (Finished, [])
      | _ \<Rightarrow> (case startPublisherService now k (tl outcomes) of
          (st, ms) \<Rightarrow> (st, (TextMessage, bytes_of_string (''tick: '' @ decimal (now k))) # ms)))"

section \<open>main\<close>

text \<open>
  \<open>main\<close> declares two flags but never parses the command line, so both keep their defaults whatever
  the arguments are: listening address and mode.
\<close>

definition wsbin_config :: "string list \<Rightarrow> string \<times> string" where
  "wsbin_config args = ('':8978'', ''both'')"

datatype wsbin_service = EchoService | PublisherService

datatype wsbin_outcome =
    WsbinAnswered http_ctx
  | WsbinServing "wsbin_service list"
  | WsbinExit nat

text \<open>The request handler; \<open>upgrade\<close> is the error of \<open>Upgrade\<close>, which runs the callback when it has none.\<close>

definition wsbin_handler :: "string \<Rightarrow> bool \<Rightarrow> go_error option \<Rightarrow> go_stop + wsbin_outcome" where
  "wsbin_handler mode isUpgrade upgrade =
     (if \<not> isUpgrade then Inr (WsbinAnswered (ctx_Error ''Expected WebSocket connection'' 400 new_ctx))
      else bindP (CheckError upgrade) (\<lambda>_.
        Inr (if mode = ''echo'' then WsbinServing [EchoService]
             else if mode = ''publish'' then WsbinServing [PublisherService]
             else if mode = ''both'' then WsbinServing [EchoService, PublisherService]
             else WsbinExit 1)))"

section \<open>Messages through the loops\<close>

lemma echo_all: "startEchoService (map Inr ms @ rs) [] = (case startEchoService rs [] of (st, ms') \<Rightarrow> (st, ms @ ms'))"
  by (induction ms) (auto split: prod.splits)

lemma ws_loops_forward:
  assumes "\<forall>m \<in> set ms. mar \<lparr>dat_RequestId = rid, dat_RawData = snd m\<rparr> = Inr (enc (snd m))" and "werrs s = []"
  shows "\<exists>s'. ws_client_loop mar rid (map Inr ms @ Inl err # rs) s = s' \<and>
      ws_service_loop mar rid (map Inr ms) s = (None, s') \<and>
      out_bytes s' = out_bytes s @ concat (map (frame \<circ> enc \<circ> snd) ms)"
  using assms
proof (induction ms arbitrary: s)
  case Nil
  then show ?case by simp
next
  case (Cons m ms)
  obtain t d where m: "m = (t, d)" by fastforce
  then obtain s1 where s1: "forward_data mar rid d s = (Inr (), s1)" "werrs s1 = []" "out_bytes s1 = out_bytes s @ frame (enc d)"
    using forward_data_ok [of mar rid d "enc d" s] Cons.prems by auto
  then show ?case
    using Cons.IH [of s1] Cons.prems(1) m by simp
qed

section \<open>Properties\<close>

text \<open>
  C17. A WebSocket client hears its own messages from the echo service behind two gateways. The
  client side gateway files the upgraded connection, opens a stream to the service's peer and
  forwards every message until the client closes; the service side gateway writes each to the
  service's connection; the service answers each; the service side gateway forwards the answers and
  the client side gateway writes each to the client's connection, in order and complete, as long as
  no network piece on either of the two streams between the gateways joins the end of a frame with
  what follows it. Only the kind of a message is not kept: it arrives as text.
\<close>

theorem ws_echo_end_to_end:
  assumes "\<forall>d. mar \<lparr>dat_RequestId = req_RequestId req, dat_RawData = d\<rparr> = Inr (enc d)" and "codec_ok mar unm"
    and "newStream peer ProxyWsDataFromClientSide = Inr no_stream"
    and "serviceWsConns ssgw (req_RequestId req) = Some sconn" and "\<forall>c x. writeMessage c x = None"
    and up: "aligned css (map (enc \<circ> snd) ms)" "chunks c = concat css"
    and down: "aligned css' (map (enc \<circ> snd) ms)" "chunks c' = concat css'"
  shows "\<exists>st csgw' ts st'.
     serveWebsocketRequest mar newStream (Inr cconn) peer req (map Inr ms @ [Inl err]) csgw = Inr (Some st, csgw') \<and>
     out_bytes st = conn_pending c \<and>
     map (\<lambda>m. ProxyWsDataHandler unm writeMessage ProxyWsDataFromClientSide m ssgw)
       (fst (ReadBytesViaStream (length ms) (Conn c))) = map (\<lambda>t. Inr (sconn, t)) ts \<and>
     startEchoService (map Inr ts) [] = (Running, ts) \<and>
     ws_service_loop mar (req_RequestId req) (map Inr ts) no_stream = (None, st') \<and> out_bytes st' = conn_pending c' \<and>
     map (\<lambda>m. ProxyWsDataHandler unm writeMessage ProxyWsDataFromServiceSide m csgw')
       (fst (ReadBytesViaStream (length ms) (Conn c'))) = map (\<lambda>t. Inr (cconn, t)) ts \<and>
     map snd ts = map snd ms \<and> (\<forall>t \<in> set ts. fst t = TextMessage)"
proof -
  let ?rid = "req_RequestId req" and ?ts = "map (\<lambda>m. (TextMessage, snd m)) ms"
  let ?csgw = "csgw\<lparr>clientWsConns := (clientWsConns csgw)(?rid \<mapsto> cconn)\<rparr>"
  have unm: "unm (enc d) = Inr \<lparr>dat_RequestId = ?rid, dat_RawData = d\<rparr>" for d
    using assms(1) codec_okD [OF assms(2)] by blast
  note route = ws_data_routed [where unm = unm and writeMessage = writeMessage, OF unm]
  note loops = ws_loops_forward [where mar = mar and enc = enc and rid = ?rid and s = no_stream and err = err and rs = "[]"]
  obtain st where "ws_client_loop mar ?rid (map Inr ms @ [Inl err]) no_stream = st"
      "out_bytes st = concat (map frame (map (enc \<circ> snd) ms))"
    using loops [of ms] assms(1) by (auto simp: no_stream_def out_bytes_def comp_assoc)
  then have "serveWebsocketRequest mar newStream (Inr cconn) peer req (map Inr ms @ [Inl err]) csgw = Inr (Some st, ?csgw)"
      "out_bytes st = conn_pending c"
    using assms(3) aligned_pending [OF up] by (simp_all add: serveWebsocketRequest_def)
  moreover obtain st' where "ws_service_loop mar ?rid (map Inr ?ts) no_stream = (None, st')"
      "out_bytes st' = concat (map frame (map (enc \<circ> snd) ms))"
    using loops [of ?ts] assms(1) by (auto simp: no_stream_def out_bytes_def comp_def)
  moreover have "fst (ReadBytesViaStream (length ms) (Conn c)) = map Data (map (enc \<circ> snd) ms)"
    "fst (ReadBytesViaStream (length ms) (Conn c')) = map Data (map (enc \<circ> snd) ms)"
    using ReadBytesViaStream_aligned [OF up(1), of c "[]"] up(2) ReadBytesViaStream_aligned [OF down(1), of c' "[]"] down(2)
    by simp_all
  moreover have "startEchoService (map Inr ?ts) [] = (Running, ?ts)"
    using echo_all [of ?ts "[]"] by simp
  ultimately show ?thesis
    using route(1) [where n = ssgw and conn = sconn] route(2) [where n = ?csgw and conn = cconn] assms(4,5) aligned_pending [OF down]
    by (intro exI [of _ st] exI [of _ ?csgw] exI [of _ ?ts] exI [of _ st']) (simp add: comp_def)
qed

theorem ws_echo_end_to_end_witness:
  "\<exists>st csgw' ts. serveWebsocketRequest (\<lambda>x. if dat_RequestId x = ''r'' then Inr (dat_RawData x) else Inl EOF)
       (\<lambda>p proto. if proto = ProxyWsDataFromClientSide then Inr no_stream else Inl EOF) (Inr 4) ''B''
       \<lparr>req_ServiceId = ''s'', req_RequestId = ''r'', req_PeerId = ''A'', req_IsWsRequest = True, req_RawRequest = []\<rparr>
       [Inr (TextMessage, [7, 9]), Inr (BinaryMessage, [5]), Inl EOF] sample_node = Inr (Some st, csgw') \<and>
     map (\<lambda>m. ProxyWsDataHandler (\<lambda>b. Inr \<lparr>dat_RequestId = ''r'', dat_RawData = b\<rparr>) (\<lambda>_ _. None) ProxyWsDataFromServiceSide m csgw')
       (fst (ReadBytesViaStream 2 (Conn \<lparr>chunks = [[0, 0, 0, 0, 0, 0, 0, 2], [7, 9], [0, 0, 0, 0, 0, 0, 0, 1, 5]], fin = EOF\<rparr>))) =
       map (\<lambda>t. Inr (4, t)) ts \<and>
     startEchoService (map Inr ts) [] = (Running, ts) \<and> map snd ts = [[7, 9], [5]]"
proof -
  let ?mar = "\<lambda>x. if dat_RequestId x = ''r'' then Inr (dat_RawData x) else Inl EOF"
  let ?unm = "\<lambda>b. Inr \<lparr>dat_RequestId = ''r'', dat_RawData = b\<rparr>"
  let ?ms = "[(TextMessage, [7, 9]), (BinaryMessage, [5])]"
  let ?req = "\<lparr>req_ServiceId = ''s'', req_RequestId = ''r'', req_PeerId = ''A'', req_IsWsRequest = True, req_RawRequest = []\<rparr>"
  let ?css = "[[[0, 0, 0, 0, 0, 0, 0, 2], [7, 9]], [[0, 0, 0, 0, 0, 0, 0, 1, 5]]]"
  let ?c = "\<lparr>chunks = [[0, 0, 0, 0, 0, 0, 0, 2], [7, 9], [0, 0, 0, 0, 0, 0, 0, 1, 5]], fin = EOF\<rparr> :: net_in"
  have f: "frame [7, 9] = [0, 0, 0, 0, 0, 0, 0, 2, 7, 9]" "frame [5] = [0, 0, 0, 0, 0, 0, 0, 1, 5]"
    by code_simp+
  have al: "aligned ?css (map (id \<circ> snd) ?ms)"
    by (simp add: aligned_def f max_alloc_def)
  have cod: "codec_ok ?mar ?unm"
    by (auto simp: codec_ok_def split: if_splits)
  have len: "length ?ms = 2" "map Inr ?ms @ [Inl EOF] = [Inr (TextMessage, [7, 9]), Inr (BinaryMessage, [5]), Inl EOF]"
    "map snd ?ms = [[7, 9], [5]]"
    by simp_all
  let ?new = "\<lambda>(p :: peer_id) proto. if proto = ProxyWsDataFromClientSide then Inr no_stream else Inl EOF :: go_error + net_out"
  have p: "\<forall>d. ?mar \<lparr>dat_RequestId = req_RequestId ?req, dat_RawData = d\<rparr> = Inr (id d)" "?new ''B'' ProxyWsDataFromClientSide = Inr no_stream"
    "serviceWsConns (sample_node\<lparr>serviceWsConns := [''r'' \<mapsto> 5]\<rparr>) (req_RequestId ?req) = Some 5" "chunks ?c = concat ?css"
    by simp_all
  have none: "\<forall>(c :: handle) (x :: ws_message). (\<lambda>_ _. None :: go_error option) c x = None"
    by simp
  from ws_echo_end_to_end [where csgw = sample_node and cconn = 4 and err = EOF and mar = ?mar and unm = ?unm and enc = id and req = ?req
      and newStream = ?new and peer = "''B''" and writeMessage = "\<lambda>_ _. None" and ssgw = "sample_node\<lparr>serviceWsConns := [''r'' \<mapsto> 5]\<rparr>"
      and ms = ?ms and css = ?css and css' = ?css and c = ?c and c' = ?c,
      OF p(1) cod p(2,3) none al p(4) al p(4), unfolded len]
  show ?thesis
    by (elim exE conjE, intro exI conjI) assumption+
qed

text \<open>The command line has no effect.\<close>

lemma wsbin_ignores_arguments: "wsbin_handler (snd (wsbin_config args)) True None = Inr (WsbinServing [EchoService, PublisherService])"
  by (simp add: wsbin_handler_def wsbin_config_def)

end
