(* ===== verification/Logger.thy ===== *)
theory Logger
  imports Go_Base
begin

text \<open>
  The process-wide logger, \<open>internal/logger/init.go\<close>: built on the first call of \<open>GetLogger\<close> under a
  \<open>sync.Once\<close>. The configuration handed to zap is a record of the encoder's fields; \<open>build\<close> is zap's
  \<open>Config.Build\<close>.
\<close>

record EncoderConfig =
  MessageKey :: string
  LevelKey :: string
  NameKey :: string
  TimeKey :: string
  CallerKey :: string
  FunctionKey :: string
  StacktraceKey :: string
  LineEnding :: string
  EncodeTime :: string
  EncodeLevel :: string
  EncodeDuration :: string
  EncodeCaller :: string

definition logEncoderConfig :: EncoderConfig where
  "logEncoderConfig = \<lparr>MessageKey = ''msg'', LevelKey = ''level'', NameKey = ''name'', TimeKey = ''ts'',
     CallerKey = ''caller'', FunctionKey = ''func'', StacktraceKey = ''stacktrace'', LineEnding = [CHR 0x0A],
     EncodeTime = ''EpochTimeEncoder'', EncodeLevel = ''LowercaseLevelEncoder'',
     EncodeDuration = ''SecondsDurationEncoder'', EncodeCaller = ''ShortCallerEncoder''\<rparr>"

text \<open>
  The package's variables: whether the \<open>Once\<close> has run (also when its function panicked), and the
  logger, nil before.
\<close>

record 'l logger_state =
  once_done :: bool
  logger :: "'l option"

definition logger_init :: "'l logger_state" where
  "logger_init = \<lparr>once_done = False, logger = None\<rparr>"

definition GetLogger ::
  "(EncoderConfig \<Rightarrow> go_error + 'l) \<Rightarrow> 'l logger_state \<Rightarrow> (go_stop + 'l option) \<times> 'l logger_state" where
  "GetLogger build s =
     (if once_done s then (Inr (logger s), s)
      else (case build logEncoderConfig of
              Inl err \<Rightarrow> (Inl (PanicErr err), s\<lparr>once_done := True\<rparr>)
            | Inr l \<Rightarrow> (Inr (Some l), s\<lparr>once_done := True, logger := Some l\<rparr>)))"

text \<open>Every call after a successful first one returns the same logger, whatever building would give then.\<close>

fun get_loggers :: "(EncoderConfig \<Rightarrow> go_error + 'l) list \<Rightarrow> 'l logger_state \<Rightarrow> (go_stop + 'l option) list" where
  "get_loggers [] s = []"
| "get_loggers (b # bs) s = (case GetLogger b s of (r, s') \<Rightarrow> r # get_loggers bs s')"

lemma get_loggers_done: "once_done s \<Longrightarrow> get_loggers bs s = replicate (length bs) (Inr (logger s))"
  by (induction bs) (simp_all add: GetLogger_def)

lemma one_logger:
  assumes "build logEncoderConfig = Inr l"
  shows "get_loggers (build # builds) logger_init = replicate (Suc (length builds)) (Inr (Some l))"
  using assms by (simp add: GetLogger_def logger_init_def get_loggers_done)

end
