(* ===== verification/Http_System.thy ===== *)
theory Http_System
  imports Http_Proxy
begin

text \<open>
  Many HTTP requests at the same time. A client side gateway serves any number of clients, each in a
  goroutine of its own, forwards their requests to service side gateways and hands the responses out
  through the channels in \<open>clientHttpDataChan\<close>, while its registry changes under it. The step relation
  \<open>sys_step\<close> interleaves the operations of \<open>Http_Proxy\<close> and \<open>Node\<close> in every order: a request is
  forwarded or refused, a goroutine starts to wait, a gateway serves a request or dies of it, a
  response is handed over or comes too early, the registry changes.

  What is on a stream arrives in any segmentation (\<open>received\<close>). The service side gateways' own
  registries stay as they are during a run. A response for which there is no channel yet blocks its
  goroutine for good; the state keeps its request id in \<open>sys_lost\<close>. Each request and each response
  travels on a stream of its own that carries one message.

  Left out: when a service side gateway ends while one of its response streams is open, the stream is
  reset, and the error makes \<open>ProxyHttpRespHandler\<close> panic (\<open>reset_response_panics\<close>), which ends the client
  side gateway too. The results here are about runs in which that does not happen.
\<close>

datatype phase =
    Refused http_ctx
  | Sent peer_id ApronServiceRequest http_ctx
  | Awaiting peer_id ApronServiceRequest http_ctx handle
  | Complete peer_id ApronServiceRequest http_ctx

record http_system =
  sys_node :: Node
  sys_alive :: "peer_id set"
  sys_uuids :: "string set"
  sys_chans :: "handle set"
  sys_tasks :: "nat \<rightharpoonup> http_request \<times> phase"
  sys_requests :: "(peer_id \<times> net_out) list"
  sys_responses :: "(peer_id \<times> net_out) list"
  sys_lost :: "string set"

text \<open>The environment: codecs and libraries, and the registries of the service side gateways.\<close>

record http_net =
  hn_mar :: "ApronServiceRequest marshaller"
  hn_unm :: "ApronServiceData unmarshaller"
  hn_write :: "http_request \<Rightarrow> go_error option \<times> bytes"
  hn_id :: "peer_id \<Rightarrow> string"
  hn_newStream :: "peer_id \<Rightarrow> string \<Rightarrow> go_error + net_out"
  hn_env :: ssgw_env
  hn_peers :: "peer_id \<Rightarrow> Node"

definition hn_dump :: "http_net \<Rightarrow> http_request \<Rightarrow> go_error + bytes" where
  "hn_dump H req = (case DumpRequestToBytes (hn_write H) req [] of (Some err, _) \<Rightarrow> Inl err | (None, raw) \<Rightarrow> Inr raw)"

definition received :: "net_out \<Rightarrow> chan_msg \<Rightarrow> bool" where
  "received st m \<longleftrightarrow> (\<exists>c x c'. conn_pending c = out_bytes st \<and> ReadBytesViaStream 1 (Conn c) = ([m], x, c'))"

lemma reset_response_panics:
  "conn_pending c = [] \<Longrightarrow>
    ProxyHttpRespHandler unm (hd (fst (ReadBytesViaStream (Suc k) (Conn c)))) n = Inl (PanicLog ''read data stream error'')"
  using reader_loop_at_end [of c "Suc k"] by (simp add: ProxyHttpRespHandler_def del: ReadBytesViaStream.simps)

inductive sys_step :: "http_net \<Rightarrow> http_system \<Rightarrow> http_system \<Rightarrow> bool" for H where
  sys_forward: "sys_tasks S i = None \<Longrightarrow> uuid \<notin> sys_uuids S \<Longrightarrow> no_dot uuid \<Longrightarrow>
    StartForwardService (hn_mar H) (hn_id H) (hn_newStream H) (hn_dump H req) req False uuid msgCh (sys_node S) =
      Inr (Forwarded ctx p r st, n') \<Longrightarrow>
    sys_step H S (S\<lparr>sys_node := n', sys_uuids := insert uuid (sys_uuids S),
      sys_tasks := (sys_tasks S)(i \<mapsto> (req, Sent p r ctx)), sys_requests := sys_requests S @ [(p, st)]\<rparr>)"
| sys_refuse: "sys_tasks S i = None \<Longrightarrow>
    StartForwardService (hn_mar H) (hn_id H) (hn_newStream H) (hn_dump H req) req False uuid msgCh (sys_node S) =
      Inr (Answered ctx, n') \<Longrightarrow>
    sys_step H S (S\<lparr>sys_node := n', sys_tasks := (sys_tasks S)(i \<mapsto> (req, Refused ctx))\<rparr>)"
| sys_wait: "sys_tasks S i = Some (req, Sent p r ctx) \<Longrightarrow> ch \<notin> sys_chans S \<Longrightarrow>
    sys_step H S (S\<lparr>sys_node := serveHttpRequest_wait r ch (sys_node S), sys_chans := insert ch (sys_chans S),
      sys_tasks := (sys_tasks S)(i \<mapsto> (req, Awaiting p r ctx ch))\<rparr>)"
| sys_serve: "sys_requests S = xs @ (p, st) # ys \<Longrightarrow> p \<in> sys_alive S \<Longrightarrow> received st m \<Longrightarrow>
    ProxyHttpInitRequestHandler (hn_env H) m (hn_peers H p) = Inr (HttpAnswered q st', n') \<Longrightarrow>
    sys_step H S (S\<lparr>sys_requests := xs @ ys, sys_responses := sys_responses S @ [(q, st')]\<rparr>)"
| sys_crash: "sys_requests S = xs @ (p, st) # ys \<Longrightarrow> p \<in> sys_alive S \<Longrightarrow> received st m \<Longrightarrow>
    ProxyHttpInitRequestHandler (hn_env H) m (hn_peers H p) = Inl stop \<Longrightarrow>
    sys_step H S (S\<lparr>sys_requests := xs @ ys, sys_alive := sys_alive S - {p}\<rparr>)"
| sys_deliver: "sys_responses S = xs @ (q, st) # ys \<Longrightarrow> q = node_Host (sys_node S) \<Longrightarrow> received st m \<Longrightarrow>
    ProxyHttpRespHandler (hn_unm H) m (sys_node S) = Inr (ch, body) \<Longrightarrow>
    sys_tasks S i = Some (req, Awaiting p r ctx ch) \<Longrightarrow>
    serveHttpRequest_done r body ctx (sys_node S) = (ctx', n') \<Longrightarrow>
    sys_step H S (S\<lparr>sys_node := n', sys_responses := xs @ ys,
      sys_tasks := (sys_tasks S)(i \<mapsto> (req, Complete p r ctx'))\<rparr>)"
| sys_early: "sys_responses S = xs @ (q, st) # ys \<Longrightarrow> q = node_Host (sys_node S) \<Longrightarrow> received st (Data b) \<Longrightarrow>
    ProxyHttpRespHandler (hn_unm H) (Data b) (sys_node S) = Inl Blocked \<Longrightarrow> hn_unm H b = Inr d \<Longrightarrow>
    sys_step H S (S\<lparr>sys_responses := xs @ ys, sys_lost := insert (dat_RequestId d) (sys_lost S)\<rparr>)"
| sys_register: "registers q s (sys_node S) n' \<Longrightarrow> sys_step H S (S\<lparr>sys_node := n'\<rparr>)"
| sys_prune: "prunes ps (sys_node S) n' \<Longrightarrow> sys_step H S (S\<lparr>sys_node := n'\<rparr>)"

definition sys_start :: "http_system \<Rightarrow> bool" where
  "sys_start S \<longleftrightarrow> node_inv (sys_node S) \<and> clientHttpDataChan (sys_node S) = Map.empty \<and> sys_tasks S = Map.empty \<and>
     sys_requests S = [] \<and> sys_responses S = [] \<and> sys_lost S = {}"

text \<open>
  What is relied on: codecs and fasthttp reproduce what they serialised, a peer id is decoded from
  its text, new streams are empty and accept what is written, messages stay below the allocation limit.
\<close>

definition http_net_ok :: "http_net \<Rightarrow> bool" where
  "http_net_ok H \<longleftrightarrow>
     codec_ok (hn_mar H) (env_unm_req (hn_env H)) \<and> codec_ok (env_mar_data (hn_env H)) (hn_unm H) \<and>
     (\<forall>req raw. hn_dump H req = Inr raw \<longrightarrow> env_recover (hn_env H) raw = Inr req) \<and>
     (\<forall>p. env_peer_decode (hn_env H) (hn_id H p) = Inr p) \<and>
     (\<forall>p proto st. hn_newStream H p proto = Inr st \<longrightarrow> st = no_stream) \<and>
     (\<forall>p proto st. env_newStream (hn_env H) p proto = Inr st \<longrightarrow> st = no_stream) \<and>
     (\<forall>r b. hn_mar H r = Inr b \<longrightarrow> length b \<le> max_alloc) \<and>
     (\<forall>d b. env_mar_data (hn_env H) d = Inr b \<longrightarrow> length b \<le> max_alloc)"

text \<open>
  The reference: what a client that could talk to the service directly would get, the body of the
  service's answer to the client's request, sent to the provider registered at gateway \<open>p\<close>.
\<close>

definition service_answer :: "http_net \<Rightarrow> peer_id \<Rightarrow> http_request \<Rightarrow> string \<Rightarrow> bytes option" where
  "service_answer H p req k =
     (case BuildHttpRequestToService (env_url_parse (hn_env H)) (env_uri_args (hn_env H))
             (snd (ExtractRequestDetailFromFasthttpRequest req zero_detail)) req (service_at (hn_peers H p) k) of
        Inr (Inr out) \<Rightarrow> (case env_http_do (hn_env H) out of Inr body \<Rightarrow> Some body | Inl _ \<Rightarrow> None)
      | _ \<Rightarrow> None)"

section \<open>Single steps\<close>

lemma http_net_okD:
  assumes "http_net_ok H"
  shows "hn_mar H r = Inr b \<Longrightarrow> env_unm_req (hn_env H) b = Inr r"
    and "env_mar_data (hn_env H) d = Inr b \<Longrightarrow> hn_unm H b = Inr d"
    and "hn_dump H req = Inr raw \<Longrightarrow> env_recover (hn_env H) raw = Inr req"
    and "env_peer_decode (hn_env H) (hn_id H p) = Inr p"
    and "hn_newStream H p proto = Inr st \<Longrightarrow> st = no_stream"
    and "env_newStream (hn_env H) p proto = Inr st \<Longrightarrow> st = no_stream"
    and "hn_mar H r = Inr b \<Longrightarrow> length b \<le> max_alloc"
    and "env_mar_data (hn_env H) d = Inr b \<Longrightarrow> length b \<le> max_alloc"
  using assms by (auto simp: http_net_ok_def codec_ok_def)

lemma write_no_stream: "WriteBytesViaStream no_stream b = (Inr (), st) \<Longrightarrow> out_bytes st = frame b"
  by (auto simp: WriteBytesViaStream_ok no_stream_def out_bytes_def frame_def)

lemma received_frame:
  assumes "out_bytes st = frame b" and "length b \<le> max_alloc"
  shows "received st m \<longleftrightarrow> m = Data b"
proof -
  have "\<exists>c'. ReadBytesViaStream 1 (Conn c) = ([Data b], None, Conn c')" if "conn_pending c = out_bytes st" for c
    using one_frame [of no_stream b c] that assms
    by (simp add: no_stream_def WriteBytesViaStream_ok out_bytes_def frame_def)
  moreover have "conn_pending \<lparr>chunks = [out_bytes st], fin = EOF\<rparr> = out_bytes st"
    by (simp add: conn_pending_def)
  ultimately show ?thesis
    unfolding received_def by (metis list.inject prod.inject)
qed

lemma same_frame: "frame b = frame b' \<Longrightarrow> b = b'"
  by (auto simp: frame_def dest: append_eq_append_conv [THEN iffD1, rotated])

lemma make_request_id_uuid:
  assumes "make_request_id u k uuid = make_request_id u' k' uuid'" and "no_dot uuid" and "no_dot uuid'"
  shows "uuid = uuid'"
proof -
  have "takeWhile (\<lambda>c. c \<noteq> CHR ''.'') (rev (make_request_id u k x)) = rev x" if "no_dot x" for u k x
    using that takeWhile_dot [of "rev x" "rev (u @ ''.'' @ k)"] by (simp add: make_request_id_def no_dot_def)
  then show ?thesis
    using assms by (metis rev_rev_ident)
qed

lemma forwarded_request:
  assumes ok: "http_net_ok H" and inv: "node_inv n"
    and fwd: "StartForwardService (hn_mar H) (hn_id H) (hn_newStream H) (hn_dump H req) req False uuid ch n =
           Inr (Forwarded ctx p r st, n')"
  shows "\<exists>raw err d b. hn_dump H req = Inr raw \<and> ExtractRequestDetailFromFasthttpRequest req zero_detail = (err, d) \<and>
    r = \<lparr>req_ServiceId = det_ServiceName d, req_RequestId = make_request_id (det_UserKey d) (det_ServiceName d) uuid,
         req_PeerId = hn_id H (node_Host n), req_IsWsRequest = False, req_RawRequest = raw\<rparr> \<and>
    ctx = first_ctx err \<and> hn_mar H r = Inr b \<and> out_bytes st = frame b \<and>
    servicePeerMapping n (det_ServiceName d) = Some p \<and> n' = note_request (req_RequestId r) ch n"
proof -
  obtain raw where raw: "hn_dump H req = Inr raw"
    using fwd by (cases "hn_dump H req") (auto simp: StartForwardService_def)
  obtain err d where e: "ExtractRequestDetailFromFasthttpRequest req zero_detail = (err, d)"
    by fastforce
  obtain s st0 b where s: "directory n (det_ServiceName d) = Some (p, s)"
      "r = client_request_for (hn_id H) raw False uuid d s n" "ctx = first_ctx err"
      "n' = note_request (req_RequestId r) ch n"
      "hn_newStream H p ProxyHttpInitReq = Inr st0" "hn_mar H r = Inr b" "WriteBytesViaStream st0 b = (Inr (), st)"
    using fwd StartForwardService_eq [OF inv e, of "hn_mar H" "hn_id H" "hn_newStream H" raw False uuid ch] raw
    by (auto simp: Let_def bindP_Inr_iff must_Inr_iff commit_Inr_iff
        split: option.splits if_splits sum.splits prod.splits)
  have "svc_Id s = det_ServiceName d" "servicePeerMapping n (det_ServiceName d) = Some p"
    using s(1) inv by (auto simp: directory_Some_iff node_inv_def)
  moreover have "out_bytes st = frame b"
    using write_no_stream s(7) http_net_okD(5) [OF ok s(5)] by simp
  ultimately show ?thesis
    using raw e s by (auto simp: client_request_for_def)
qed

lemma served_request:
  assumes ok: "http_net_ok H" and "hn_mar H r = Inr b" and "hn_dump H req = Inr (req_RawRequest r)"
    and "req_PeerId r = hn_id H q" and "\<not> req_IsWsRequest r"
  shows "ProxyHttpInitRequestHandler (hn_env H) (Data b) (hn_peers H p) = Inr (HttpAnswered q' st', n') \<longleftrightarrow>
    q' = q \<and> n' = hn_peers H p \<and> (\<exists>body b'. service_answer H p req (req_ServiceId r) = Some body \<and>
      env_newStream (hn_env H) q ProxyHttpRespFromServiceSide = Inr no_stream \<and>
      env_mar_data (hn_env H) \<lparr>dat_RequestId = req_RequestId r, dat_RawData = body\<rparr> = Inr b' \<and>
      st' = snd (WriteBytesViaStream no_stream b'))"
proof -
  have w: "commit (forward_data mar rid d no_stream) =
      (case mar \<lparr>dat_RequestId = rid, dat_RawData = d\<rparr> of
         Inl e \<Rightarrow> Inl (PanicErr e) | Inr x \<Rightarrow> Inr (snd (WriteBytesViaStream no_stream x)))" for mar rid d
    using commit_write [of no_stream] by (simp add: forward_data_def commit_def no_stream_def split: sum.split)
  have "env_unm_req (hn_env H) b = Inr r" "env_recover (hn_env H) (req_RawRequest r) = Inr req"
    "env_peer_decode (hn_env H) (req_PeerId r) = Inr q"
    using http_net_okD(1,3,4) [OF ok] assms(2-4) by simp_all
  then show ?thesis
    using assms(5) http_net_okD(6) [OF ok, of q ProxyHttpRespFromServiceSide]
    by (auto simp: ProxyHttpInitRequestHandler_def service_answer_def bindP_Inr_iff must_Inr_iff w Let_def split: sum.splits)
qed

lemma registry_keeps:
  assumes "node_inv n"
  shows "registers q s n n' \<Longrightarrow> node_inv n' \<and> node_Host n' = node_Host n \<and> clientHttpDataChan n' = clientHttpDataChan n"
    and "prunes ps n n' \<Longrightarrow> node_inv n' \<and> node_Host n' = node_Host n \<and> clientHttpDataChan n' = clientHttpDataChan n"
proof -
  show "node_inv n' \<and> node_Host n' = node_Host n \<and> clientHttpDataChan n' = clientHttpDataChan n" if r: "registers q s n n'"
    using registry.register_step [OF assms r] registers_enters [OF assms r] by (simp add: enter_service_def)
  show "node_inv n' \<and> node_Host n' = node_Host n \<and> clientHttpDataChan n' = clientHttpDataChan n" if "prunes ps n n'"
    using registry.prune_step [OF assms that] UpdatePeers_eq [OF assms] that by (auto simp: prunes_def drop_services_def)
qed

lemma refused_keeps:
  assumes "node_inv n" and "StartForwardService mar id_string newStream dump req isWs uuid ch n = Inr (Answered ctx, n')"
  shows "node_inv n' \<and> node_Host n' = node_Host n \<and> clientHttpDataChan n' = clientHttpDataChan n"
proof -
  obtain raw where "dump = Inr raw"
    using assms(2) by (cases dump) (auto simp: StartForwardService_def)
  moreover obtain err d where "ExtractRequestDetailFromFasthttpRequest req zero_detail = (err, d)"
    by fastforce
  ultimately show ?thesis
    using assms StartForwardService_eq [of n req err d mar id_string newStream raw isWs uuid ch]
    by (auto simp: Let_def bindP_Inr_iff split: option.splits if_splits sum.splits prod.splits)
qed

section \<open>The invariant\<close>

fun task_of :: "phase \<Rightarrow> (peer_id \<times> ApronServiceRequest) option" where
  "task_of (Refused ctx) = None"
| "task_of (Sent p r ctx) = Some (p, r)"
| "task_of (Awaiting p r ctx ch) = Some (p, r)"
| "task_of (Complete p r ctx) = Some (p, r)"

definition owns :: "http_system \<Rightarrow> nat \<Rightarrow> http_request \<Rightarrow> peer_id \<Rightarrow> ApronServiceRequest \<Rightarrow> bool" where
  "owns S i req p r \<longleftrightarrow> (\<exists>ph. sys_tasks S i = Some (req, ph) \<and> task_of ph = Some (p, r))"

definition request_ok :: "http_net \<Rightarrow> peer_id \<Rightarrow> string set \<Rightarrow> http_request \<Rightarrow> ApronServiceRequest \<Rightarrow> bool" where
  "request_ok H host U req r \<longleftrightarrow>
     (\<exists>uuid u k. hn_dump H req = Inr (req_RawRequest r) \<and> req_PeerId r = hn_id H host \<and> \<not> req_IsWsRequest r \<and>
        req_ServiceId r = det_ServiceName (snd (ExtractRequestDetailFromFasthttpRequest req zero_detail)) \<and>
        req_RequestId r = make_request_id u k uuid \<and> uuid \<in> U \<and> no_dot uuid)"

text \<open>Each forwarded request belongs to one client.\<close>

definition tasks_inv :: "http_net \<Rightarrow> http_system \<Rightarrow> bool" where
  "tasks_inv H S \<longleftrightarrow>
     (\<forall>i req p r. owns S i req p r \<longrightarrow> request_ok H (node_Host (sys_node S)) (sys_uuids S) req r) \<and>
     (\<forall>i j req req' p p' r r'. owns S i req p r \<longrightarrow> owns S j req' p' r' \<longrightarrow>
        req_RequestId r = req_RequestId r' \<longrightarrow> i = j)"

text \<open>The channels of the gateway are those its goroutines wait on.\<close>

definition waits :: "http_system \<Rightarrow> nat \<Rightarrow> string \<Rightarrow> handle \<Rightarrow> bool" where
  "waits S i k ch \<longleftrightarrow> (\<exists>req p r ctx. sys_tasks S i = Some (req, Awaiting p r ctx ch) \<and> req_RequestId r = k)"

definition chans_inv :: "http_system \<Rightarrow> bool" where
  "chans_inv S \<longleftrightarrow>
     (\<forall>k ch. clientHttpDataChan (sys_node S) k = Some ch \<longleftrightarrow> (\<exists>i. waits S i k ch)) \<and>
     (\<forall>i k ch. waits S i k ch \<longrightarrow> ch \<in> sys_chans S) \<and>
     (\<forall>i j k k' ch. waits S i k ch \<longrightarrow> waits S j k' ch \<longrightarrow> i = j)"

definition asked :: "http_net \<Rightarrow> ApronServiceRequest \<Rightarrow> net_out \<Rightarrow> bool" where
  "asked H r st \<longleftrightarrow> (\<exists>b. hn_mar H r = Inr b \<and> out_bytes st = frame b)"

definition answers :: "http_net \<Rightarrow> peer_id \<Rightarrow> http_request \<Rightarrow> ApronServiceRequest \<Rightarrow> net_out \<Rightarrow> bool" where
  "answers H p req r st \<longleftrightarrow>
     (\<exists>body b. service_answer H p req (req_ServiceId r) = Some body \<and>
        env_mar_data (hn_env H) \<lparr>dat_RequestId = req_RequestId r, dat_RawData = body\<rparr> = Inr b \<and> out_bytes st = frame b)"

definition flight_inv :: "http_net \<Rightarrow> http_system \<Rightarrow> bool" where
  "flight_inv H S \<longleftrightarrow>
     (\<forall>p st. (p, st) \<in> set (sys_requests S) \<longrightarrow> (\<exists>i req r. owns S i req p r \<and> asked H r st)) \<and>
     (\<forall>q st. (q, st) \<in> set (sys_responses S) \<longrightarrow>
        q = node_Host (sys_node S) \<and> (\<exists>i req p r. owns S i req p r \<and> answers H p req r st))"

text \<open>What a client gets, in the end, is the service's answer to its own request.\<close>

definition phase_ok :: "http_net \<Rightarrow> http_request \<Rightarrow> phase \<Rightarrow> bool" where
  "phase_ok H req ph \<longleftrightarrow>
     (let ctx0 = first_ctx (fst (ExtractRequestDetailFromFasthttpRequest req zero_detail)) in
      case ph of
        Refused ctx \<Rightarrow> True
      | Sent p r ctx \<Rightarrow> ctx = ctx0
      | Awaiting p r ctx ch \<Rightarrow> ctx = ctx0
      | Complete p r ctx \<Rightarrow>
          (\<exists>body. service_answer H p req (req_ServiceId r) = Some body \<and> ctx = ctx_Write body ctx0))"

definition sys_inv :: "http_net \<Rightarrow> http_system \<Rightarrow> bool" where
  "sys_inv H S \<longleftrightarrow> node_inv (sys_node S) \<and> tasks_inv H S \<and> chans_inv S \<and> flight_inv H S \<and>
     (\<forall>i req ph. sys_tasks S i = Some (req, ph) \<longrightarrow> phase_ok H req ph)"

lemma sys_start_inv: "sys_start S \<Longrightarrow> sys_inv H S"
  by (auto simp: sys_start_def sys_inv_def tasks_inv_def chans_inv_def flight_inv_def owns_def waits_def)

lemma sys_invD:
  assumes "sys_inv H S"
  shows "node_inv (sys_node S)" and "tasks_inv H S" and "chans_inv S" and "flight_inv H S"
    and "sys_tasks S i = Some (req, ph) \<Longrightarrow> phase_ok H req ph"
  using assms by (auto simp: sys_inv_def)

lemma request_ok_mono: "request_ok H host U req r \<Longrightarrow> U \<subseteq> U' \<Longrightarrow> request_ok H host U' req r"
  by (auto simp: request_ok_def)

lemma inv_forward:
  assumes ok: "http_net_ok H" and inv: "sys_inv H S" and i: "sys_tasks S i = None"
    and uuid: "uuid \<notin> sys_uuids S" "no_dot uuid"
    and fwd: "StartForwardService (hn_mar H) (hn_id H) (hn_newStream H) (hn_dump H req) req False uuid msgCh (sys_node S) =
      Inr (Forwarded ctx p r st, n')"
  shows "sys_inv H (S\<lparr>sys_node := n', sys_uuids := insert uuid (sys_uuids S),
      sys_tasks := (sys_tasks S)(i \<mapsto> (req, Sent p r ctx)), sys_requests := sys_requests S @ [(p, st)]\<rparr>)" (is "sys_inv H ?S'")
proof -
  note I = sys_invD [OF inv]
  obtain raw err d b where f: "hn_dump H req = Inr raw" "ExtractRequestDetailFromFasthttpRequest req zero_detail = (err, d)"
      "r = \<lparr>req_ServiceId = det_ServiceName d, req_RequestId = make_request_id (det_UserKey d) (det_ServiceName d) uuid,
         req_PeerId = hn_id H (node_Host (sys_node S)), req_IsWsRequest = False, req_RawRequest = raw\<rparr>"
      "ctx = first_ctx err" "hn_mar H r = Inr b" "out_bytes st = frame b" "n' = note_request (req_RequestId r) msgCh (sys_node S)"
    using forwarded_request [OF ok I(1) fwd] by blast
  have o: "owns ?S' j req' p' r' \<longleftrightarrow> (if j = i then req' = req \<and> p' = p \<and> r' = r else owns S j req' p' r')" for j req' p' r'
    by (auto simp: owns_def)
  have new: "request_ok H (node_Host (sys_node S)) (insert uuid (sys_uuids S)) req r"
    using f(1,2,3) uuid(2) by (auto simp: request_ok_def)
  have fresh: "req_RequestId r' \<noteq> req_RequestId r" if "owns S j req' p' r'" for j req' p' r'
  proof -
    have "request_ok H (node_Host (sys_node S)) (sys_uuids S) req' r'"
      using I(2) that unfolding tasks_inv_def by blast
    then show ?thesis
      using f(3) uuid make_request_id_uuid by (fastforce simp: request_ok_def)
  qed
  have "tasks_inv H ?S'"
    unfolding tasks_inv_def o using I(2) new fresh request_ok_mono [OF _ subset_insertI] f(7)
    by (simp add: tasks_inv_def) metis
  moreover have "waits ?S' = waits S"
    using i by (auto simp: waits_def fun_eq_iff)
  then have "chans_inv ?S'"
    using I(3) f(7) by (simp add: chans_inv_def)
  moreover have "flight_inv H ?S'"
  proof -
    have "owns S j req' p' r' \<Longrightarrow> owns ?S' j req' p' r'" for j req' p' r'
      using i by (auto simp: o owns_def)
    moreover have "owns ?S' i req p r" "asked H r st"
      using f(5,6) by (auto simp: o asked_def)
    ultimately show ?thesis
      using I(4) f(7) unfolding flight_inv_def by (simp, metis)
  qed
  ultimately show ?thesis
    using I(1,5) f(2,4,7) by (auto simp: sys_inv_def phase_ok_def)
qed

lemma inv_refuse:
  assumes inv: "sys_inv H S" and i: "sys_tasks S i = None"
    and "node_inv n' \<and> node_Host n' = node_Host (sys_node S) \<and> clientHttpDataChan n' = clientHttpDataChan (sys_node S)"
  shows "sys_inv H (S\<lparr>sys_node := n', sys_tasks := (sys_tasks S)(i \<mapsto> (req, Refused ctx))\<rparr>)" (is "sys_inv H ?S'")
proof -
  have "owns ?S' = owns S" "waits ?S' = waits S"
    using i by (auto simp: owns_def waits_def fun_eq_iff)
  then show ?thesis
    using inv assms(3) by (auto simp: sys_inv_def tasks_inv_def chans_inv_def flight_inv_def phase_ok_def)
qed

lemma inv_registry:
  assumes "sys_inv H S"
    and "node_inv n' \<and> node_Host n' = node_Host (sys_node S) \<and> clientHttpDataChan n' = clientHttpDataChan (sys_node S)"
  shows "sys_inv H (S\<lparr>sys_node := n'\<rparr>)"
proof -
  have "owns (S\<lparr>sys_node := n'\<rparr>) = owns S" "waits (S\<lparr>sys_node := n'\<rparr>) = waits S"
    by (auto simp: owns_def waits_def fun_eq_iff)
  then show ?thesis
    using assms by (auto simp: sys_inv_def tasks_inv_def chans_inv_def flight_inv_def)
qed

lemma waits_owns: "waits S i k ch \<Longrightarrow> \<exists>req p r. owns S i req p r \<and> req_RequestId r = k"
  by (force simp: waits_def owns_def)

lemma inv_wait:
  assumes inv: "sys_inv H S" and i: "sys_tasks S i = Some (req, Sent p r ctx)" and ch: "ch \<notin> sys_chans S"
  shows "sys_inv H (S\<lparr>sys_node := serveHttpRequest_wait r ch (sys_node S), sys_chans := insert ch (sys_chans S),
      sys_tasks := (sys_tasks S)(i \<mapsto> (req, Awaiting p r ctx ch))\<rparr>)" (is "sys_inv H ?S'")
proof -
  note I = sys_invD [OF inv]
  let ?k = "req_RequestId r"
  have o: "owns ?S' = owns S"
    using i by (auto simp: owns_def fun_eq_iff)
  have w: "waits ?S' j k c \<longleftrightarrow> (if j = i then k = ?k \<and> c = ch else waits S j k c)" for j k c
    by (auto simp: waits_def)
  have other: "\<not> waits S j ?k c" for j c
  proof
    assume a: "waits S j ?k c"
    have "owns S i req p r"
      using i by (simp add: owns_def)
    then have "j = i"
      using waits_owns [OF a] I(2) unfolding tasks_inv_def by metis
    then show False
      using a i by (simp add: waits_def)
  qed
  have "\<not> waits S i k c" for k c
    using i by (simp add: waits_def)
  then have "chans_inv ?S'"
    using I(3) ch other unfolding chans_inv_def w by (auto simp: serveHttpRequest_wait_def) (metis option.inject)+
  moreover have "node_inv (sys_node ?S')" "node_Host (sys_node ?S') = node_Host (sys_node S)"
    using I(1) by (auto simp: serveHttpRequest_wait_def node_inv_def)
  moreover have "phase_ok H req (Awaiting p r ctx ch)"
    using I(5) [OF i] by (simp add: phase_ok_def)
  ultimately show ?thesis
    using I(2,4,5) o by (auto simp: sys_inv_def tasks_inv_def flight_inv_def)
qed

lemma node_inv_chan [simp]: "node_inv (n\<lparr>clientHttpDataChan := m\<rparr>) = node_inv n"
  by (simp add: node_inv_def)

text \<open>What is under way is what was written, for one owner.\<close>

lemma request_received:
  assumes ok: "http_net_ok H" and "flight_inv H S" and "(p, st) \<in> set (sys_requests S)" and "received st m"
  shows "\<exists>i req r b. owns S i req p r \<and> hn_mar H r = Inr b \<and> out_bytes st = frame b \<and> m = Data b"
proof -
  obtain i req r b where o: "owns S i req p r" "hn_mar H r = Inr b" "out_bytes st = frame b"
    using assms(2,3) unfolding flight_inv_def asked_def by blast
  then have "m = Data b"
    using received_frame [of st b m] http_net_okD(7) [OF ok o(2)] assms(4) by blast
  with o show ?thesis
    by blast
qed

lemma response_received:
  assumes ok: "http_net_ok H" and "flight_inv H S" and "(q, st) \<in> set (sys_responses S)" and "received st m"
  shows "\<exists>i req p r body b. owns S i req p r \<and> service_answer H p req (req_ServiceId r) = Some body \<and> m = Data b \<and>
    out_bytes st = frame b \<and> hn_unm H b = Inr \<lparr>dat_RequestId = req_RequestId r, dat_RawData = body\<rparr>"
proof -
  obtain i req p r body b where o: "owns S i req p r" "service_answer H p req (req_ServiceId r) = Some body"
      "env_mar_data (hn_env H) \<lparr>dat_RequestId = req_RequestId r, dat_RawData = body\<rparr> = Inr b" "out_bytes st = frame b"
    using assms(2,3) unfolding flight_inv_def answers_def by blast
  then have "m = Data b"
    using received_frame [of st b m] http_net_okD(8) [OF ok o(3)] assms(4) by blast
  with o show ?thesis
    using http_net_okD(2) [OF ok o(3)] by blast
qed

lemma owns_same:
  assumes "tasks_inv H S" and "owns S i req p r" and "owns S j req' p' r'" and "req_RequestId r = req_RequestId r'"
  shows "j = i \<and> req' = req \<and> p' = p \<and> r' = r"
proof -
  have "i = j"
    using assms unfolding tasks_inv_def by blast
  then show ?thesis
    using assms(2,3) by (auto simp: owns_def)
qed

lemma inv_serve:
  assumes ok: "http_net_ok H" and inv: "sys_inv H S" and q: "sys_requests S = xs @ (p, st) # ys" and m: "received st m"
    and h: "ProxyHttpInitRequestHandler (hn_env H) m (hn_peers H p) = Inr (HttpAnswered q st', n')"
  shows "\<exists>i req r. owns S i req p r \<and> asked H r st \<and> q = node_Host (sys_node S) \<and> answers H p req r st'"
proof -
  note I = sys_invD [OF inv]
  have mem: "(p, st) \<in> set (sys_requests S)"
    using q by simp
  obtain i req r b where o: "owns S i req p r" "hn_mar H r = Inr b" "out_bytes st = frame b" "m = Data b"
    using request_received [OF ok I(4) mem m] by blast
  have "request_ok H (node_Host (sys_node S)) (sys_uuids S) req r"
    using I(2) o(1) unfolding tasks_inv_def by blast
  then have r: "hn_dump H req = Inr (req_RawRequest r)" "req_PeerId r = hn_id H (node_Host (sys_node S))" "\<not> req_IsWsRequest r"
    by (auto simp: request_ok_def)
  obtain body b' where "q = node_Host (sys_node S)" "service_answer H p req (req_ServiceId r) = Some body"
      "env_mar_data (hn_env H) \<lparr>dat_RequestId = req_RequestId r, dat_RawData = body\<rparr> = Inr b'"
      "st' = snd (WriteBytesViaStream no_stream b')"
    using h [unfolded o(4)] served_request [OF ok o(2) r, of p] by blast
  moreover from this have "out_bytes st' = frame b'"
    by (simp add: WriteBytesViaStream_ok no_stream_def out_bytes_def frame_def)
  ultimately show ?thesis
    using o unfolding asked_def answers_def by blast
qed

lemma inv_requests:
  assumes inv: "sys_inv H S"
    and eq: "sys_node S' = sys_node S" "sys_tasks S' = sys_tasks S" "sys_uuids S' = sys_uuids S" "sys_chans S' = sys_chans S"
    and "set (sys_requests S') \<subseteq> set (sys_requests S)"
    and "\<forall>q st. (q, st) \<in> set (sys_responses S') \<longrightarrow> (q, st) \<in> set (sys_responses S) \<or>
      q = node_Host (sys_node S) \<and> (\<exists>i req p r. owns S i req p r \<and> answers H p req r st)"
  shows "sys_inv H S'"
proof -
  have o: "owns S' = owns S" "waits S' = waits S"
    using eq by (auto simp: owns_def waits_def fun_eq_iff)
  moreover have "flight_inv H S'"
    using sys_invD(4) [OF inv] assms(6,7) unfolding flight_inv_def o eq by blast
  ultimately show ?thesis
    using inv eq by (auto simp: sys_inv_def tasks_inv_def chans_inv_def)
qed

lemma response_is_own:
  assumes ok: "http_net_ok H" and inv: "sys_inv H S" and mem: "(q, st) \<in> set (sys_responses S)" and m: "received st m"
    and h: "ProxyHttpRespHandler (hn_unm H) m (sys_node S) = Inr (ch, body)"
    and i: "sys_tasks S i = Some (req, Awaiting p r ctx ch)"
  shows "service_answer H p req (req_ServiceId r) = Some body"
    and "\<exists>b. out_bytes st = frame b \<and> hn_unm H b = Inr \<lparr>dat_RequestId = req_RequestId r, dat_RawData = body\<rparr>"
proof -
  note I = sys_invD [OF inv]
  obtain j req' p' r' body' b where o: "owns S j req' p' r'" "service_answer H p' req' (req_ServiceId r') = Some body'" "m = Data b"
      "out_bytes st = frame b" "hn_unm H b = Inr \<lparr>dat_RequestId = req_RequestId r', dat_RawData = body'\<rparr>"
    using response_received [OF ok I(4) mem m] by blast
  then have c: "clientHttpDataChan (sys_node S) (req_RequestId r') = Some ch" "body' = body"
    using h by (auto simp: ProxyHttpRespHandler_def split: option.splits)
  have wi: "waits S i (req_RequestId r) ch" and oi: "owns S i req p r"
    using i by (auto simp: waits_def owns_def)
  obtain i' where w': "waits S i' (req_RequestId r') ch"
    using c(1) I(3) unfolding chans_inv_def by blast
  then have "i' = i"
    using wi I(3) unfolding chans_inv_def by blast
  then have k: "req_RequestId r' = req_RequestId r"
    using w' i by (auto simp: waits_def)
  then have "req' = req" "p' = p" "r' = r"
    using owns_same [OF I(2) oi o(1)] by simp_all
  then show "service_answer H p req (req_ServiceId r) = Some body"
    using o(2) c(2) by simp
  show "\<exists>b. out_bytes st = frame b \<and> hn_unm H b = Inr \<lparr>dat_RequestId = req_RequestId r, dat_RawData = body\<rparr>"
    using o(4,5) k c(2) by auto
qed

lemma inv_deliver:
  assumes ok: "http_net_ok H" and inv: "sys_inv H S" and q: "sys_responses S = xs @ (q, st) # ys" and m: "received st m"
    and h: "ProxyHttpRespHandler (hn_unm H) m (sys_node S) = Inr (ch, body)"
    and i: "sys_tasks S i = Some (req, Awaiting p r ctx ch)"
    and d: "serveHttpRequest_done r body ctx (sys_node S) = (ctx', n')"
  shows "sys_inv H (S\<lparr>sys_node := n', sys_responses := xs @ ys,
      sys_tasks := (sys_tasks S)(i \<mapsto> (req, Complete p r ctx'))\<rparr>)" (is "sys_inv H ?S'")
proof -
  note I = sys_invD [OF inv]
  let ?k = "req_RequestId r"
  have oi: "owns S i req p r"
    using i by (auto simp: owns_def)
  have n': "ctx' = ctx_Write body ctx" "node_inv n'" "node_Host n' = node_Host (sys_node S)"
      "clientHttpDataChan n' = (clientHttpDataChan (sys_node S))(?k := None)"
    using d I(1) by (auto simp: serveHttpRequest_done_def)
  have "phase_ok H req (Complete p r ctx')"
    using I(5) [OF i] response_is_own(1) [OF ok inv _ m h i, of q] q n'(1) by (auto simp: phase_ok_def Let_def)
  moreover have ow: "owns ?S' = owns S"
    using i by (auto simp: owns_def fun_eq_iff)
  moreover have w: "waits ?S' j k c \<longleftrightarrow> j \<noteq> i \<and> waits S j k c" for j k c
    by (auto simp: waits_def)
  moreover have iw: "waits S i k c \<Longrightarrow> k = ?k" for k c
    using i by (simp add: waits_def)
  moreover have "waits S j ?k c \<longleftrightarrow> j = i \<and> c = ch" for j c
    using i waits_owns [of S j ?k c] owns_same [OF I(2) oi] by (auto simp: waits_def)
  then have ch: "(\<exists>j. j \<noteq> i \<and> waits S j k c) \<longleftrightarrow> k \<noteq> ?k \<and> (\<exists>j. waits S j k c)" for k c
    using iw by metis
  have "clientHttpDataChan n' k = Some c \<longleftrightarrow> (\<exists>j. waits ?S' j k c)" for k c
    using I(3) unfolding n'(4) w ch chans_inv_def by simp
  then have "chans_inv ?S'"
    using I(3) w unfolding chans_inv_def by (simp, blast)
  moreover have "tasks_inv H ?S'"
    using I(2) n'(3) unfolding tasks_inv_def ow by simp
  moreover have "a \<in> set (sys_responses S)" if "a \<in> set (xs @ ys)" for a
    using that q by auto
  then have "flight_inv H ?S'"
    using I(4) n'(3) unfolding flight_inv_def ow by (simp del: set_append, blast)
  ultimately show "sys_inv H ?S'"
    using I(5) n'(2) unfolding sys_inv_def by simp
qed

lemma sys_step_inv:
  assumes "sys_step H S S'" and ok: "http_net_ok H" and inv: "sys_inv H S"
  shows "sys_inv H S'"
  using assms(1)
proof cases
  case (sys_forward i uuid req msgCh ctx p r st n')
  then show ?thesis using inv_forward [OF ok inv] by simp
next
  case (sys_refuse i req uuid msgCh ctx n')
  then show ?thesis using inv_refuse [OF inv] refused_keeps [OF sys_invD(1) [OF inv]] by simp
next
  case (sys_wait i req p r ctx ch)
  then show ?thesis using inv_wait [OF inv] by simp
next
  case (sys_serve xs p st ys m q st' n')
  then show ?thesis
    using inv_serve [OF ok inv sys_serve(2,4,5)] by (intro inv_requests [OF inv]) auto
next
  case (sys_crash xs p st ys m stop)
  then show ?thesis
    by (intro inv_requests [OF inv]) auto
next
  case (sys_deliver xs q st ys m ch body i req p r ctx ctx' n')
  then show ?thesis using inv_deliver [OF ok inv] by simp
next
  case (sys_early xs q st ys b d)
  then show ?thesis
    by (intro inv_requests [OF inv]) auto
next
  case (sys_register q s n')
  then show ?thesis using inv_registry [OF inv] registry_keeps(1) [OF sys_invD(1) [OF inv]] by simp
next
  case (sys_prune ps n')
  then show ?thesis using inv_registry [OF inv] registry_keeps(2) [OF sys_invD(1) [OF inv]] by simp
qed

section \<open>No request is forgotten\<close>

definition open_task :: "http_system \<Rightarrow> nat \<Rightarrow> http_request \<Rightarrow> peer_id \<Rightarrow> ApronServiceRequest \<Rightarrow> bool" where
  "open_task S i req p r \<longleftrightarrow>
     (\<exists>ctx. sys_tasks S i = Some (req, Sent p r ctx)) \<or> (\<exists>ctx ch. sys_tasks S i = Some (req, Awaiting p r ctx ch))"

text \<open>
  A request that still waits, to a gateway that runs, and whose response did not come too early, is
  on its way to the gateway or its response is on its way back.
\<close>

definition under_way :: "http_net \<Rightarrow> http_system \<Rightarrow> http_request \<Rightarrow> peer_id \<Rightarrow> ApronServiceRequest \<Rightarrow> bool" where
  "under_way H S req p r \<longleftrightarrow>
     (\<exists>st. (p, st) \<in> set (sys_requests S) \<and> asked H r st) \<or> (\<exists>q st. (q, st) \<in> set (sys_responses S) \<and> answers H p req r st)"

definition fate_inv :: "http_net \<Rightarrow> http_system \<Rightarrow> bool" where
  "fate_inv H S \<longleftrightarrow>
     (\<forall>i req p r. open_task S i req p r \<longrightarrow> p \<in> sys_alive S \<longrightarrow> req_RequestId r \<notin> sys_lost S \<longrightarrow> under_way H S req p r)"

lemma open_owns: "open_task S i req p r \<Longrightarrow> owns S i req p r"
  by (auto simp: open_task_def owns_def)

lemma asked_same: "http_net_ok H \<Longrightarrow> asked H r st \<Longrightarrow> asked H r' st \<Longrightarrow> r = r'"
  unfolding asked_def by (metis http_net_okD(1) same_frame sum.inject(2))

lemma answers_id:
  "http_net_ok H \<Longrightarrow> answers H p req r st \<Longrightarrow> out_bytes st = frame b \<Longrightarrow> hn_unm H b = Inr d \<Longrightarrow>
    req_RequestId r = dat_RequestId d"
  unfolding answers_def by (metis http_net_okD(2) same_frame sum.inject(2) ApronServiceData.select_convs(1))

lemma fate_invI:
  assumes "fate_inv H S"
    and "\<And>i req p r. open_task S' i req p r \<Longrightarrow> p \<in> sys_alive S' \<Longrightarrow> req_RequestId r \<notin> sys_lost S' \<Longrightarrow>
      under_way H S' req p r \<or> open_task S i req p r \<and> p \<in> sys_alive S \<and> req_RequestId r \<notin> sys_lost S \<and>
        (under_way H S req p r \<longrightarrow> under_way H S' req p r)"
  shows "fate_inv H S'"
  using assms unfolding fate_inv_def by blast

lemma fate_serve:
  assumes ok: "http_net_ok H" and inv: "sys_inv H S" and fate: "fate_inv H S"
    and q: "sys_requests S = xs @ (p, st) # ys" and m: "received st m"
    and h: "ProxyHttpInitRequestHandler (hn_env H) m (hn_peers H p) = Inr (HttpAnswered q st', n')"
    and S': "S' = S\<lparr>sys_requests := xs @ ys, sys_responses := sys_responses S @ [(q, st')]\<rparr>"
  shows "fate_inv H S'"
proof -
  obtain i req r where o: "owns S i req p r" "asked H r st" "answers H p req r st'"
    using inv_serve [OF ok inv q m h] by blast
  have own: "req' = req \<and> r' = r" if "owns S j req' p' r'" "asked H r' st" for j req' p' r'
    using owns_same [OF sys_invD(2) [OF inv] o(1) that(1)] asked_same [OF ok o(2) that(2)] by simp
  show ?thesis
  proof (rule fate_invI [OF fate])
    fix j req' p' r'
    assume j: "open_task S' j req' p' r'" "p' \<in> sys_alive S'" "req_RequestId r' \<notin> sys_lost S'"
    then have j': "open_task S j req' p' r'"
      by (simp add: S' open_task_def)
    have "under_way H S' req' p' r'" if "under_way H S req' p' r'"
      using that o(3) own [OF open_owns [OF j']] unfolding under_way_def S' q by auto
    then show "under_way H S' req' p' r' \<or> open_task S j req' p' r' \<and> p' \<in> sys_alive S \<and> req_RequestId r' \<notin> sys_lost S \<and>
        (under_way H S req' p' r' \<longrightarrow> under_way H S' req' p' r')"
      using j j' by (simp add: S')
  qed
qed

lemma fate_deliver:
  assumes ok: "http_net_ok H" and inv: "sys_inv H S" and fate: "fate_inv H S"
    and q: "sys_responses S = xs @ (q, st) # ys" and m: "received st m"
    and h: "ProxyHttpRespHandler (hn_unm H) m (sys_node S) = Inr (ch, body)"
    and i: "sys_tasks S i = Some (req, Awaiting p r ctx ch)"
    and S': "S' = S\<lparr>sys_node := n', sys_responses := xs @ ys, sys_tasks := (sys_tasks S)(i \<mapsto> (req, Complete p r ctx'))\<rparr>"
  shows "fate_inv H S'"
proof -
  obtain b where b: "out_bytes st = frame b" "hn_unm H b = Inr \<lparr>dat_RequestId = req_RequestId r, dat_RawData = body\<rparr>"
    using response_is_own(2) [OF ok inv _ m h i, of q] q by auto
  have oi: "owns S i req p r"
    using i by (simp add: owns_def)
  have foreign: "\<not> answers H p' req' r' st" if j: "owns S j req' p' r'" "j \<noteq> i" for j req' p' r'
  proof
    assume "answers H p' req' r' st"
    then have "req_RequestId r = req_RequestId r'"
      using answers_id [OF ok _ b] by simp
    then show False
      using owns_same [OF sys_invD(2) [OF inv] oi j(1)] j(2) by blast
  qed
  show ?thesis
  proof (rule fate_invI [OF fate])
    fix j req' p' r'
    assume j: "open_task S' j req' p' r'" "p' \<in> sys_alive S'" "req_RequestId r' \<notin> sys_lost S'"
    then have j': "open_task S j req' p' r'" "j \<noteq> i"
      by (auto simp: S' open_task_def split: if_splits)
    have "under_way H S' req' p' r'" if "under_way H S req' p' r'"
      using that foreign [OF open_owns [OF j'(1)] j'(2)] unfolding under_way_def S' q by auto
    then show "under_way H S' req' p' r' \<or> open_task S j req' p' r' \<and> p' \<in> sys_alive S \<and> req_RequestId r' \<notin> sys_lost S \<and>
        (under_way H S req' p' r' \<longrightarrow> under_way H S' req' p' r')"
      using j j' by (simp add: S')
  qed
qed

lemma sys_step_fate:
  assumes "sys_step H S S'" and ok: "http_net_ok H" and inv: "sys_inv H S" and fate: "fate_inv H S"
  shows "fate_inv H S'"
  using assms(1)
proof cases
  case (sys_forward i uuid req msgCh ctx p r st n')
  have "asked H r st"
    using forwarded_request [OF ok sys_invD(1) [OF inv] sys_forward(5)] by (auto simp: asked_def)
  then show ?thesis
    by (intro fate_invI [OF fate]) (auto simp: sys_forward(1) open_task_def under_way_def split: if_splits)
next
  case (sys_refuse i req uuid msgCh ctx n')
  then show ?thesis
    by (intro fate_invI [OF fate]) (auto simp: open_task_def under_way_def split: if_splits)
next
  case (sys_wait i req p r ctx ch)
  then show ?thesis
    by (intro fate_invI [OF fate]) (auto simp: open_task_def under_way_def split: if_splits)
next
  case (sys_serve xs p st ys m q st' n')
  show ?thesis
    by (rule fate_serve [OF ok inv fate sys_serve(2,4,5,1)])
next
  case (sys_crash xs p st ys m stop)
  then show ?thesis
    by (intro fate_invI [OF fate]) (auto simp: open_task_def under_way_def)
next
  case (sys_deliver xs q st ys m ch body i req p r ctx ctx' n')
  show ?thesis
    by (rule fate_deliver [OF ok inv fate sys_deliver(2,4,5,6,1)])
next
  case (sys_early xs q st ys b d)
  obtain b' where b: "out_bytes st = frame b'" "b' = b"
    using response_received [OF ok sys_invD(4) [OF inv] _ sys_early(4), of q] sys_early(2) by auto
  have "answers H p' req' r' st \<Longrightarrow> req_RequestId r' = dat_RequestId d" for p' req' r'
    using answers_id [OF ok _ _ sys_early(6)] b by simp
  then show ?thesis
    by (intro fate_invI [OF fate]) (auto simp: sys_early(1,2) open_task_def under_way_def)
next
  case (sys_register q s n')
  then show ?thesis
    by (intro fate_invI [OF fate]) (auto simp: open_task_def under_way_def)
next
  case (sys_prune ps n')
  then show ?thesis
    by (intro fate_invI [OF fate]) (auto simp: open_task_def under_way_def)
qed

section \<open>Runs\<close>

lemma sys_reach_inv:
  assumes "(sys_step H)\<^sup>*\<^sup>* S0 S" and "sys_start S0" and ok: "http_net_ok H"
  shows "sys_inv H S \<and> fate_inv H S"
  using assms(1)
proof (induction rule: rtranclp_induct)
  case base
  show ?case
    using sys_start_inv [OF assms(2)] assms(2) by (auto simp: fate_inv_def sys_start_def open_task_def)
next
  case (step S S')
  then show ?case
    using sys_step_inv [OF _ ok] sys_step_fate [OF _ ok] by blast
qed

lemma deliver_enabled:
  assumes ok: "http_net_ok H" and inv: "sys_inv H S" and i: "sys_tasks S i = Some (req, Awaiting p r ctx ch)"
    and mem: "(q, st) \<in> set (sys_responses S)" and a: "answers H p req r st"
  shows "\<exists>S' body. sys_step H S S' \<and> service_answer H p req (req_ServiceId r) = Some body \<and>
    sys_tasks S' i = Some (req, Complete p r (ctx_Write body ctx))"
proof -
  note I = sys_invD [OF inv]
  obtain body b where b: "service_answer H p req (req_ServiceId r) = Some body" "out_bytes st = frame b"
      "env_mar_data (hn_env H) \<lparr>dat_RequestId = req_RequestId r, dat_RawData = body\<rparr> = Inr b"
    using a unfolding answers_def by blast
  obtain xs ys where q: "sys_responses S = xs @ (q, st) # ys" "q = node_Host (sys_node S)"
    using mem I(4) split_list [OF mem] unfolding flight_inv_def by metis
  have m: "received st (Data b)"
    using received_frame [OF b(2)] http_net_okD(8) [OF ok b(3)] by simp
  have "waits S i (req_RequestId r) ch"
    using i by (simp add: waits_def)
  then have "clientHttpDataChan (sys_node S) (req_RequestId r) = Some ch"
    using I(3) unfolding chans_inv_def by blast
  then have h: "ProxyHttpRespHandler (hn_unm H) (Data b) (sys_node S) = Inr (ch, body)"
    using http_net_okD(2) [OF ok b(3)] by (simp add: ProxyHttpRespHandler_def)
  obtain n' where "serveHttpRequest_done r body ctx (sys_node S) = (ctx_Write body ctx, n')"
    by (simp add: serveHttpRequest_done_def)
  then show ?thesis
    using sys_deliver [OF q m h i] b(1) by fastforce
qed

lemma serve_enabled:
  assumes ok: "http_net_ok H" and inv: "sys_inv H S" and o: "owns S i req p r"
    and mem: "(p, st) \<in> set (sys_requests S)" and a: "asked H r st" and p: "p \<in> sys_alive S"
    and "service_answer H p req (req_ServiceId r) = Some body"
    and "env_mar_data (hn_env H) \<lparr>dat_RequestId = req_RequestId r, dat_RawData = body\<rparr> = Inr b'"
    and "env_newStream (hn_env H) (node_Host (sys_node S)) ProxyHttpRespFromServiceSide = Inr st0"
  shows "\<exists>S' q st'. sys_step H S S' \<and> sys_tasks S' = sys_tasks S \<and> (q, st') \<in> set (sys_responses S') \<and> answers H p req r st'"
proof -
  note I = sys_invD [OF inv]
  obtain b where b: "hn_mar H r = Inr b" "out_bytes st = frame b"
    using a unfolding asked_def by blast
  have m: "received st (Data b)"
    using received_frame [OF b(2)] http_net_okD(7) [OF ok b(1)] by simp
  have "request_ok H (node_Host (sys_node S)) (sys_uuids S) req r"
    using I(2) o unfolding tasks_inv_def by blast
  then have r: "hn_dump H req = Inr (req_RawRequest r)" "req_PeerId r = hn_id H (node_Host (sys_node S))" "\<not> req_IsWsRequest r"
    by (auto simp: request_ok_def)
  let ?st = "snd (WriteBytesViaStream no_stream b')"
  have h: "ProxyHttpInitRequestHandler (hn_env H) (Data b) (hn_peers H p) =
      Inr (HttpAnswered (node_Host (sys_node S)) ?st, hn_peers H p)"
    using served_request [OF ok b(1) r, of p] assms(7-9) http_net_okD(6) [OF ok assms(9)] by blast
  obtain xs ys where q: "sys_requests S = xs @ (p, st) # ys"
    using split_list [OF mem] by blast
  have "out_bytes ?st = frame b'"
    by (simp add: WriteBytesViaStream_ok no_stream_def out_bytes_def frame_def)
  then have "answers H p req r ?st"
    using assms(7,8) unfolding answers_def by blast
  then show ?thesis
    using sys_serve [OF q p m h] by fastforce
qed

lemma client_can_finish:
  assumes inv: "sys_inv H S" and fate: "fate_inv H S" and ok: "http_net_ok H"
    and i: "sys_tasks S i = Some (req, Awaiting p r ctx ch)" and "p \<in> sys_alive S" and "req_RequestId r \<notin> sys_lost S"
    and a: "service_answer H p req (req_ServiceId r) = Some body"
    and m: "env_mar_data (hn_env H) \<lparr>dat_RequestId = req_RequestId r, dat_RawData = body\<rparr> = Inr b"
    and s: "env_newStream (hn_env H) (node_Host (sys_node S)) ProxyHttpRespFromServiceSide = Inr st0"
  shows "\<exists>S'. (sys_step H)\<^sup>*\<^sup>* S S' \<and> sys_tasks S' i = Some (req, Complete p r (ctx_Write body ctx))"
proof -
  have o: "owns S i req p r" and "open_task S i req p r"
    using i by (auto simp: owns_def open_task_def)
  then have "under_way H S req p r"
    using fate assms(5,6) unfolding fate_inv_def by blast
  then consider st where "(p, st) \<in> set (sys_requests S)" "asked H r st"
    | q st where "(q, st) \<in> set (sys_responses S)" "answers H p req r st"
    unfolding under_way_def by blast
  then show ?thesis
  proof cases
    case 1
    obtain S1 q st' where S1: "sys_step H S S1" "sys_tasks S1 = sys_tasks S" "(q, st') \<in> set (sys_responses S1)"
        "answers H p req r st'"
      using serve_enabled [OF ok inv o 1 assms(5) a m s] by blast
    have "sys_tasks S1 i = Some (req, Awaiting p r ctx ch)"
      using S1(2) i by simp
    then show ?thesis
      using deliver_enabled [OF ok sys_step_inv [OF S1(1) ok inv] _ S1(3,4)] S1(1) a
      by (metis (no_types, lifting) converse_rtranclp_into_rtranclp option.inject r_into_rtranclp)
  next
    case 2
    then show ?thesis
      using deliver_enabled [OF ok inv i 2] a by (metis option.inject r_into_rtranclp)
  qed
qed

section \<open>Properties\<close>

text \<open>
  C3. Clients never get each other's responses. Whatever number of clients a gateway serves at the
  same time, in whatever order requests are forwarded, served and answered, gateways fail and the
  registry changes: a completed client has exactly the body that the service named in its own
  request path gave to its own request, at the gateway the request was forwarded to, and status 200
  when its path was well formed.
\<close>

theorem responses_not_mixed:
  assumes "(sys_step H)\<^sup>*\<^sup>* S0 S" and "sys_start S0" and "http_net_ok H"
    and "sys_tasks S i = Some (req, Complete p r ctx)"
  shows "\<exists>err d body. ExtractRequestDetailFromFasthttpRequest req zero_detail = (err, d) \<and>
    service_answer H p req (det_ServiceName d) = Some body \<and> ctx = ctx_Write body (first_ctx err) \<and>
    (err = None \<longrightarrow> ctx = \<lparr>ctx_status = 200, ctx_body = body\<rparr>)"
proof -
  have inv: "sys_inv H S"
    using sys_reach_inv [OF assms(1-3)] by blast
  obtain err d where e: "ExtractRequestDetailFromFasthttpRequest req zero_detail = (err, d)"
    by fastforce
  have "owns S i req p r"
    using assms(4) by (simp add: owns_def)
  then have "req_ServiceId r = det_ServiceName d"
    using sys_invD(2) [OF inv] e unfolding tasks_inv_def request_ok_def by fastforce
  then show ?thesis
    using sys_invD(5) [OF inv assms(4)] e
    by (auto simp: phase_ok_def Let_def first_ctx_def new_ctx_def ctx_Write_def)
qed

text \<open>
  C4. A waiting client can always be served. In every reachable state, whatever happened to other
  requests, a client whose goroutine waits, whose gateway runs, whose response did not come before
  the channel was made and whose service answers, can get that answer: no request and no response
  is ever dropped or taken by someone else.
\<close>

theorem waiting_client_answered:
  assumes "(sys_step H)\<^sup>*\<^sup>* S0 S" and "sys_start S0" and ok: "http_net_ok H"
    and i: "sys_tasks S i = Some (req, Awaiting p r ctx ch)" and "p \<in> sys_alive S" and "req_RequestId r \<notin> sys_lost S"
    and a: "service_answer H p req (req_ServiceId r) = Some body"
    and m: "env_mar_data (hn_env H) \<lparr>dat_RequestId = req_RequestId r, dat_RawData = body\<rparr> = Inr b"
    and s: "env_newStream (hn_env H) (node_Host (sys_node S)) ProxyHttpRespFromServiceSide = Inr st0"
  shows "\<exists>S'. (sys_step H)\<^sup>*\<^sup>* S S' \<and> sys_tasks S' i = Some (req, Complete p r (ctx_Write body ctx))"
  using sys_reach_inv [OF assms(1-3)] client_can_finish [OF _ _ assms(3-9)] by blast

section \<open>A sample run\<close>

definition sample_net :: http_net where
  "sample_net = \<lparr>hn_mar = sample_mar_one,
     hn_unm = (\<lambda>b. Inr \<lparr>dat_RequestId = ''alice.httpbin_01.77'', dat_RawData = b\<rparr>),
     hn_write = (\<lambda>req. if req = sample_req then (None, [1]) else (Some EOF, [])), hn_id = id, hn_newStream = (\<lambda>_ _. Inr no_stream),
     hn_env = sample_env\<lparr>env_mar_data := \<lambda>x. if dat_RequestId x = ''alice.httpbin_01.77'' \<and> length (dat_RawData x) \<le> 100
         then Inr (dat_RawData x) else Inl EOF\<rparr>,
     hn_peers = (\<lambda>_. sample_csgw)\<rparr>"

lemma sample_net_ok: "http_net_ok sample_net"
proof -
  have "length (bytes_of_string ''alice.httpbin_01.77'') \<le> max_alloc" "100 \<le> max_alloc"
    by (simp_all add: max_alloc_def)
  then show ?thesis
    by (auto simp: http_net_ok_def hn_dump_def DumpRequestToBytes_def codec_ok_def sample_net_def sample_env_def
        sample_mar_one_def split: if_splits)
qed

definition sample_state :: http_system where
  "sample_state = \<lparr>sys_node = sample_csgw, sys_alive = {''B''}, sys_uuids = {}, sys_chans = {}, sys_tasks = Map.empty,
     sys_requests = [], sys_responses = [], sys_lost = {}\<rparr>"

definition sample_waiting :: http_system where
  "sample_waiting = sample_state\<lparr>
     sys_node := serveHttpRequest_wait sample_request 9 (note_request ''alice.httpbin_01.77'' 3 sample_csgw),
     sys_uuids := {''77''}, sys_chans := {9}, sys_tasks := [1 \<mapsto> (sample_req, Awaiting ''B'' sample_request new_ctx 9)],
     sys_requests := [(''B'', snd (WriteBytesViaStream no_stream (bytes_of_string ''alice.httpbin_01.77'')))]\<rparr>"

lemma sample_reaches_waiting: "(sys_step sample_net)\<^sup>*\<^sup>* sample_state sample_waiting" and sample_started: "sys_start sample_state"
proof -
  show "sys_start sample_state"
    using sample_csgw_facts(1,4) by (simp add: sys_start_def sample_state_def)
  let ?b = "bytes_of_string ''alice.httpbin_01.77''"
  obtain err d where e: "ExtractRequestDetailFromFasthttpRequest sample_req zero_detail = (err, d)"
    by fastforce
  have fwd: "StartForwardService (hn_mar sample_net) (hn_id sample_net) (hn_newStream sample_net) (hn_dump sample_net sample_req)
      sample_req False ''77'' 3 (sys_node sample_state) =
      Inr (Forwarded new_ctx ''B'' sample_request (snd (WriteBytesViaStream no_stream ?b)),
        note_request ''alice.httpbin_01.77'' 3 sample_csgw)"
    using StartForwardService_eq [OF sample_csgw_facts(1) e] sample_client_request [OF e] sample_extract(1,2) e
      sample_csgw_facts(2) commit_write [of no_stream ?b]
    by (simp add: hn_dump_def DumpRequestToBytes_def sample_net_def sample_state_def first_ctx_def Let_def sample_mar_one_def no_stream_def)
      (simp add: sample_request_def)
  have "sys_tasks sample_state 1 = None" "''77'' \<notin> sys_uuids sample_state" "no_dot ''77''"
    by (simp_all add: sample_state_def no_dot_def)
  note s1 = sys_forward [OF this fwd]
  have "sys_step sample_net (sample_state\<lparr>sys_node := note_request ''alice.httpbin_01.77'' 3 sample_csgw,
      sys_uuids := insert ''77'' (sys_uuids sample_state),
      sys_tasks := (sys_tasks sample_state)(1 \<mapsto> (sample_req, Sent ''B'' sample_request new_ctx)),
      sys_requests := sys_requests sample_state @ [(''B'', snd (WriteBytesViaStream no_stream ?b))]\<rparr>) sample_waiting"
    (is "sys_step _ ?S _")
  proof -
    have t: "sys_tasks ?S 1 = Some (sample_req, Sent ''B'' sample_request new_ctx)" "9 \<notin> sys_chans ?S"
      by (simp_all add: sample_state_def)
    show ?thesis
      using sys_wait [OF t, of sample_net] by (simp add: sample_waiting_def sample_state_def)
  qed
  with s1 show "(sys_step sample_net)\<^sup>*\<^sup>* sample_state sample_waiting"
    by (meson converse_rtranclp_into_rtranclp r_into_rtranclp)
qed

lemma sample_service_answer:
  "service_answer sample_net ''B'' sample_req (req_ServiceId sample_request) = Some (bytes_of_string ''http://host/base/get'')"
proof -
  have "path_Join ''/base'' ''get'' = ''/base/get''"
    by code_simp
  moreover have "services sample_csgw ''httpbin_01'' = Some (sample_service ''httpbin_01'')"
    using sample_csgw_facts(2) by (simp add: directory_Some_iff)
  ultimately show ?thesis
    using sample_extract(4)
    by (simp add: service_answer_def BuildHttpRequestToService_def sample_net_def sample_env_def service_at_def
        sample_request_def sample_service_def Let_def)
qed

theorem waiting_client_answered_witness:
  "\<exists>S'. (sys_step sample_net)\<^sup>*\<^sup>* sample_waiting S' \<and>
     sys_tasks S' 1 = Some (sample_req, Complete ''B'' sample_request (ctx_Write (bytes_of_string ''http://host/base/get'') new_ctx))"
  by (rule waiting_client_answered [OF sample_reaches_waiting sample_started sample_net_ok _ _ _ sample_service_answer])
    (simp_all add: sample_waiting_def sample_state_def sample_net_def sample_env_def sample_request_def)

lemma sample_completes:
  "\<exists>S'. (sys_step sample_net)\<^sup>*\<^sup>* sample_state S' \<and>
     sys_tasks S' 1 = Some (sample_req, Complete ''B'' sample_request (ctx_Write (bytes_of_string ''http://host/base/get'') new_ctx))"
proof -
  have inv: "sys_inv sample_net sample_waiting" "fate_inv sample_net sample_waiting"
    using sys_reach_inv [OF sample_reaches_waiting sample_started sample_net_ok] by simp_all
  have "\<exists>S'. (sys_step sample_net)\<^sup>*\<^sup>* sample_waiting S' \<and>
     sys_tasks S' 1 = Some (sample_req, Complete ''B'' sample_request (ctx_Write (bytes_of_string ''http://host/base/get'') new_ctx))"
    by (rule client_can_finish [OF inv sample_net_ok _ _ _ sample_service_answer])
      (simp_all add: sample_waiting_def sample_state_def sample_net_def sample_env_def sample_request_def)
  then show ?thesis
    using sample_reaches_waiting by (meson rtranclp_trans)
qed

theorem responses_not_mixed_witness:
  "\<exists>S ctx. (sys_step sample_net)\<^sup>*\<^sup>* sample_state S \<and> sys_tasks S 1 = Some (sample_req, Complete ''B'' sample_request ctx) \<and>
     ctx = \<lparr>ctx_status = 200, ctx_body = bytes_of_string ''http://host/base/get''\<rparr>"
proof -
  obtain S ctx where S: "(sys_step sample_net)\<^sup>*\<^sup>* sample_state S" "sys_tasks S 1 = Some (sample_req, Complete ''B'' sample_request ctx)"
    using sample_completes by blast
  have "req_ServiceId sample_request = ''httpbin_01''"
    by (simp add: sample_request_def)
  then have "ctx = \<lparr>ctx_status = 200, ctx_body = bytes_of_string ''http://host/base/get''\<rparr>"
    using responses_not_mixed [OF S(1) sample_started sample_net_ok S(2)] sample_extract(1,2) sample_service_answer by auto
  then show ?thesis
    using S by blast
qed

end
