(* ===== verification/Wire.thy ===== *)
theory Wire
  imports Models
begin

text \<open>
  How the messages of \<open>Models\<close> are laid out on the wire. The struct tags of the generated code
  (\<open>models.pb.go\<close>, \<open>ext_service.pb.go\<close>) give every field its number and its wire type; here each
  message is turned into its fields and rebuilt from them, by the rules of proto3: fields with the
  zero value are left out, a missing field reads as the zero value, of several occurrences the last
  counts, unknown fields are skipped, and strings have to be UTF-8.

  The runtime library that puts fields into bytes is an argument, \<open>wire_runtime\<close>, with one law:
  decoding an encoded list of fields gives the list. \<open>sample_runtime\<close> satisfies it. From the law and
  the field numbers follow the codec laws that the other theories use, and what one message type
  makes of the bytes of another, which is what the two gateways do with socket requests.
\<close>

section \<open>Fields\<close>

datatype wire_value = Varint uint64 | Bytes bytes

type_synonym wire_message = "(nat \<times> wire_value) list"

record wire_runtime =
  rt_encode :: "wire_message \<Rightarrow> bytes"
  rt_decode :: "bytes \<Rightarrow> go_error + wire_message"
  rt_utf8 :: "string \<Rightarrow> bool"

text \<open>Field numbers go from 1 to \<open>2\<^sup>2\<^sup>9 - 1\<close>.\<close>

definition wire_message_ok :: "wire_message \<Rightarrow> bool" where
  "wire_message_ok m \<longleftrightarrow> (\<forall>f \<in> set m. 1 \<le> fst f \<and> fst f < 2 ^ 29)"

definition runtime_ok :: "wire_runtime \<Rightarrow> bool" where
  "runtime_ok rt \<longleftrightarrow> (\<forall>m. wire_message_ok m \<longrightarrow> rt_decode rt (rt_encode rt m) = Inr m)"

text \<open>A field of a Go message; \<open>MessagesV\<close> is a repeated field of marshalled messages.\<close>

datatype field = StringV string | BytesV bytes | VarintV uint64 | MessagesV "bytes list"

fun wire_of :: "nat \<times> field \<Rightarrow> wire_message" where
  "wire_of (n, StringV s) = (if s = '''' then [] else [(n, Bytes (bytes_of_string s))])"
| "wire_of (n, BytesV b) = (if b = [] then [] else [(n, Bytes b)])"
| "wire_of (n, VarintV v) = (if v = 0 then [] else [(n, Varint v)])"
| "wire_of (n, MessagesV bs) = map (\<lambda>b. (n, Bytes b)) bs"

definition wire_fields :: "(nat \<times> field) list \<Rightarrow> wire_message" where
  "wire_fields fs = concat (map wire_of fs)"

fun field_valid :: "wire_runtime \<Rightarrow> nat \<times> field \<Rightarrow> bool" where
  "field_valid rt (n, StringV s) = rt_utf8 rt s"
| "field_valid rt (n, _) = True"

definition invalid_utf8 :: go_error where
  "invalid_utf8 = ErrMsg ''string field contains invalid UTF-8''"

definition Marshal :: "wire_runtime \<Rightarrow> (nat \<times> field) list \<Rightarrow> go_error + bytes" where
  "Marshal rt fs =
     (if \<forall>f \<in> set fs. field_valid rt f then Inr (rt_encode rt (wire_fields fs)) else Inl invalid_utf8)"

definition byte_values :: "nat \<Rightarrow> wire_message \<Rightarrow> bytes list" where
  "byte_values n m = concat (map (\<lambda>(k, v). case v of Bytes b \<Rightarrow> if k = n then [b] else [] | Varint _ \<Rightarrow> []) m)"

definition varint_values :: "nat \<Rightarrow> wire_message \<Rightarrow> uint64 list" where
  "varint_values n m = concat (map (\<lambda>(k, v). case v of Varint x \<Rightarrow> if k = n then [x] else [] | Bytes _ \<Rightarrow> []) m)"

definition get_bytes :: "wire_message \<Rightarrow> nat \<Rightarrow> bytes" where
  "get_bytes m n = last ([] # byte_values n m)"

definition get_string :: "wire_message \<Rightarrow> nat \<Rightarrow> string" where
  "get_string m n = string_of_bytes (get_bytes m n)"

definition get_varint :: "wire_message \<Rightarrow> nat \<Rightarrow> uint64" where
  "get_varint m n = last (0 # varint_values n m)"

text \<open>
  \<open>proto.Unmarshal\<close> into a message whose string fields have the numbers \<open>ns\<close> and that \<open>build\<close> fills.
\<close>

definition Unmarshal :: "wire_runtime \<Rightarrow> nat list \<Rightarrow> (wire_message \<Rightarrow> go_error + 'm) \<Rightarrow> 'm unmarshaller" where
  "Unmarshal rt ns build b =
     bindP (rt_decode rt b) (\<lambda>m.
       if \<forall>n \<in> set ns. \<forall>s \<in> set (byte_values n m). rt_utf8 rt (string_of_bytes s) then build m else Inl invalid_utf8)"

primrec mapP :: "('a \<Rightarrow> 'e + 'b) \<Rightarrow> 'a list \<Rightarrow> 'e + 'b list" where
  "mapP f [] = Inr []"
| "mapP f (x # xs) = bindP (f x) (\<lambda>y. bindP (mapP f xs) (\<lambda>ys. Inr (y # ys)))"

section \<open>The messages, by the struct tags of the generated code\<close>

definition bool_varint :: "bool \<Rightarrow> uint64" where
  "bool_varint b = (if b then 1 else 0)"

definition marshal_ApronServiceRequest :: "wire_runtime \<Rightarrow> ApronServiceRequest marshaller" where
  "marshal_ApronServiceRequest rt r = Marshal rt
     [(1, StringV (req_ServiceId r)), (2, StringV (req_RequestId r)), (3, StringV (req_PeerId r)),
      (4, VarintV (bool_varint (req_IsWsRequest r))), (10, BytesV (req_RawRequest r))]"

definition unmarshal_ApronServiceRequest :: "wire_runtime \<Rightarrow> ApronServiceRequest unmarshaller" where
  "unmarshal_ApronServiceRequest rt = Unmarshal rt [1, 2, 3] (\<lambda>m. Inr
     \<lparr>req_ServiceId = get_string m 1, req_RequestId = get_string m 2, req_PeerId = get_string m 3,
      req_IsWsRequest = (get_varint m 4 \<noteq> 0), req_RawRequest = get_bytes m 10\<rparr>)"

definition marshal_ApronServiceData :: "wire_runtime \<Rightarrow> ApronServiceData marshaller" where
  "marshal_ApronServiceData rt d = Marshal rt [(2, StringV (dat_RequestId d)), (10, BytesV (dat_RawData d))]"

definition unmarshal_ApronServiceData :: "wire_runtime \<Rightarrow> ApronServiceData unmarshaller" where
  "unmarshal_ApronServiceData rt = Unmarshal rt [2] (\<lambda>m. Inr
     \<lparr>dat_RequestId = get_string m 2, dat_RawData = get_bytes m 10\<rparr>)"

definition marshal_ApronSocketInitRequest :: "wire_runtime \<Rightarrow> ApronSocketInitRequest marshaller" where
  "marshal_ApronSocketInitRequest rt r = Marshal rt
     [(1, StringV (init_ServiceId r)), (2, StringV (init_RequestId r)), (3, StringV (init_PeerId r)),
      (4, StringV (init_UserId r))]"

definition unmarshal_ApronSocketInitRequest :: "wire_runtime \<Rightarrow> ApronSocketInitRequest unmarshaller" where
  "unmarshal_ApronSocketInitRequest rt = Unmarshal rt [1, 2, 3, 4] (\<lambda>m. Inr
     \<lparr>init_ServiceId = get_string m 1, init_RequestId = get_string m 2, init_PeerId = get_string m 3,
      init_UserId = get_string m 4\<rparr>)"

definition marshal_ApronSocketServiceRequest :: "wire_runtime \<Rightarrow> ApronSocketServiceRequest marshaller" where
  "marshal_ApronSocketServiceRequest rt r = Marshal rt
     [(1, StringV (sreq_ServiceId r)), (2, StringV (sreq_RequestId r)), (3, StringV (sreq_PeerId r))]"

definition marshal_ExtServiceData :: "wire_runtime \<Rightarrow> ExtServiceData marshaller" where
  "marshal_ExtServiceData rt d = Marshal rt
     [(1, StringV (ext_ServiceName d)), (2, StringV (ext_RequestId d)), (3, StringV (ext_MsgId d)),
      (10, VarintV (ucast (ext_ContentType d))), (20, BytesV (ext_Content d))]"

definition unmarshal_ExtServiceData :: "wire_runtime \<Rightarrow> ExtServiceData unmarshaller" where
  "unmarshal_ExtServiceData rt = Unmarshal rt [1, 2, 3] (\<lambda>m. Inr
     \<lparr>ext_ServiceName = get_string m 1, ext_RequestId = get_string m 2, ext_MsgId = get_string m 3,
      ext_ContentType = ucast (get_varint m 10), ext_Content = get_bytes m 20\<rparr>)"

text \<open>\<open>int64\<close> values are sent as the same 64 bits, an enum is sign extended.\<close>

definition marshal_ApronUsageRecord :: "wire_runtime \<Rightarrow> ApronUsageRecord marshaller" where
  "marshal_ApronUsageRecord rt r = Marshal rt
     [(1, StringV (rec_UserKey r)), (2, StringV (rec_ServiceId r)), (3, VarintV (rec_StartTs r)),
      (4, VarintV (rec_EndTs r)), (10, VarintV (rec_AccessCount r)), (11, VarintV (rec_UploadTraffic r)),
      (12, VarintV (rec_DownloadTraffic r))]"

definition unmarshal_ApronUsageRecord :: "wire_runtime \<Rightarrow> ApronUsageRecord unmarshaller" where
  "unmarshal_ApronUsageRecord rt = Unmarshal rt [1, 2] (\<lambda>m. Inr
     \<lparr>rec_UserKey = get_string m 1, rec_ServiceId = get_string m 2, rec_StartTs = get_varint m 3,
      rec_EndTs = get_varint m 4, rec_AccessCount = get_varint m 10, rec_UploadTraffic = get_varint m 11,
      rec_DownloadTraffic = get_varint m 12\<rparr>)"

definition marshal_NodeReport :: "wire_runtime \<Rightarrow> NodeReport marshaller" where
  "marshal_NodeReport rt r =
     bindP (mapP (marshal_ApronUsageRecord rt) (rep_Records r)) (\<lambda>bs.
       Marshal rt [(1, StringV (rep_NodeId r)), (10, MessagesV bs)])"

definition unmarshal_NodeReport :: "wire_runtime \<Rightarrow> NodeReport unmarshaller" where
  "unmarshal_NodeReport rt = Unmarshal rt [1] (\<lambda>m.
     bindP (mapP (unmarshal_ApronUsageRecord rt) (byte_values 10 m)) (\<lambda>rs. Inr
       \<lparr>rep_NodeId = get_string m 1, rep_Records = rs\<rparr>))"

text \<open>A nil pointer in a repeated field is sent as an empty message.\<close>

definition marshal_ApronServiceProvider :: "wire_runtime \<Rightarrow> ApronServiceProvider option marshaller" where
  "marshal_ApronServiceProvider rt x =
     (case x of
        None \<Rightarrow> Marshal rt []
      | Some p \<Rightarrow> Marshal rt
          [(1, StringV (prov_Id p)), (2, StringV (prov_Name p)), (3, StringV (prov_Desc p)),
           (4, VarintV (prov_CreatedAt p)), (5, VarintV (prov_UpdatedAt p)), (6, StringV (prov_ExtraDetail p)),
           (20, StringV (prov_BaseUrl p)), (21, StringV (prov_Schema p)),
           (22, VarintV (scast (prov_NetworkType p)))])"

definition unmarshal_ApronServiceProvider :: "wire_runtime \<Rightarrow> ApronServiceProvider option unmarshaller" where
  "unmarshal_ApronServiceProvider rt = Unmarshal rt [1, 2, 3, 6, 20, 21] (\<lambda>m. Inr (Some
     \<lparr>prov_Id = get_string m 1, prov_Name = get_string m 2, prov_Desc = get_string m 3,
      prov_CreatedAt = get_varint m 4, prov_UpdatedAt = get_varint m 5, prov_ExtraDetail = get_string m 6,
      prov_BaseUrl = get_string m 20, prov_Schema = get_string m 21,
      prov_NetworkType = ucast (get_varint m 22)\<rparr>))"

definition marshal_ApronService :: "wire_runtime \<Rightarrow> ApronService marshaller" where
  "marshal_ApronService rt s =
     bindP (mapP (marshal_ApronServiceProvider rt) (svc_Providers s)) (\<lambda>ps. Marshal rt
       [(1, StringV (svc_Id s)), (2, StringV (svc_Name s)), (3, StringV (svc_Desc s)), (4, StringV (svc_Logo s)),
        (5, StringV (svc_Usage s)), (6, StringV (svc_UserId s)), (10, MessagesV ps),
        (11, VarintV (bool_varint (svc_IsDeleted s)))])"

definition unmarshal_ApronService :: "wire_runtime \<Rightarrow> ApronService unmarshaller" where
  "unmarshal_ApronService rt = Unmarshal rt [1, 2, 3, 4, 5, 6] (\<lambda>m.
     bindP (mapP (unmarshal_ApronServiceProvider rt) (byte_values 10 m)) (\<lambda>ps. Inr
       \<lparr>svc_Id = get_string m 1, svc_Name = get_string m 2, svc_Desc = get_string m 3, svc_Logo = get_string m 4,
        svc_Usage = get_string m 5, svc_UserId = get_string m 6, svc_Providers = ps,
        svc_IsDeleted = (get_varint m 11 \<noteq> 0)\<rparr>))"

section \<open>Reading fields back\<close>

lemma byte_values_simps [simp]:
  "byte_values n [] = []"
  "byte_values n (xs @ ys) = byte_values n xs @ byte_values n ys"
  "byte_values n (wire_of (k, StringV s)) = (if k = n \<and> s \<noteq> '''' then [bytes_of_string s] else [])"
  "byte_values n (wire_of (k, BytesV b)) = (if k = n \<and> b \<noteq> [] then [b] else [])"
  "byte_values n (wire_of (k, VarintV v)) = []"
  "byte_values n (wire_of (k, MessagesV bs)) = (if k = n then bs else [])"
  by (simp_all add: byte_values_def comp_def)

lemma varint_values_simps [simp]:
  "varint_values n [] = []"
  "varint_values n (xs @ ys) = varint_values n xs @ varint_values n ys"
  "varint_values n (wire_of (k, StringV s)) = []"
  "varint_values n (wire_of (k, BytesV b)) = []"
  "varint_values n (wire_of (k, VarintV v)) = (if k = n \<and> v \<noteq> 0 then [v] else [])"
  "varint_values n (wire_of (k, MessagesV bs)) = []"
  by (simp_all add: varint_values_def comp_def)

declare wire_of.simps [simp del]

lemma values_at_other:
  "k \<noteq> n \<Longrightarrow> byte_values n (wire_of (k, v)) = []" "k \<noteq> n \<Longrightarrow> varint_values n (wire_of (k, v)) = []"
  by (cases v; simp)+

lemma empty_text [simp]: "bytes_of_string [] = []" "string_of_bytes [] = []"
  by (simp_all add: bytes_of_string_def string_of_bytes_def)

text \<open>A field is found under its number, and only there.\<close>

lemma values_fields:
  assumes "distinct (map fst fs)"
  shows "byte_values n (wire_fields fs) = (case map_of fs n of None \<Rightarrow> [] | Some v \<Rightarrow> byte_values n (wire_of (n, v)))"
    and "varint_values n (wire_fields fs) =
      (case map_of fs n of None \<Rightarrow> [] | Some v \<Rightarrow> varint_values n (wire_of (n, v)))"
  using assms
  by (induction fs)
    (auto simp: wire_fields_def values_at_other map_of_eq_None_iff dest: map_of_SomeD split: option.splits intro: rev_image_eqI)

fun string_at :: "field option \<Rightarrow> string" where
  "string_at (Some (StringV s)) = s"
| "string_at (Some (BytesV b)) = string_of_bytes b"
| "string_at (Some (MessagesV bs)) = string_of_bytes (last ([] # bs))"
| "string_at _ = ''''"

fun bytes_at :: "field option \<Rightarrow> bytes" where
  "bytes_at (Some (StringV s)) = bytes_of_string s"
| "bytes_at (Some (BytesV b)) = b"
| "bytes_at (Some (MessagesV bs)) = last ([] # bs)"
| "bytes_at _ = []"

fun varint_at :: "field option \<Rightarrow> uint64" where
  "varint_at (Some (VarintV v)) = v"
| "varint_at _ = 0"

lemma get_fields:
  assumes "distinct (map fst fs)"
  shows "get_bytes (wire_fields fs) n = bytes_at (map_of fs n)"
    and "get_string (wire_fields fs) n = string_at (map_of fs n)"
    and "get_varint (wire_fields fs) n = varint_at (map_of fs n)"
proof -
  show b: "get_bytes (wire_fields fs) n = bytes_at (map_of fs n)"
    by (cases "map_of fs n" rule: bytes_at.cases) (auto simp: get_bytes_def values_fields [OF assms])
  show "get_string (wire_fields fs) n = string_at (map_of fs n)"
    unfolding get_string_def b by (cases "map_of fs n" rule: string_at.cases) auto
  show "get_varint (wire_fields fs) n = varint_at (map_of fs n)"
    by (cases "map_of fs n" rule: varint_at.cases) (auto simp: get_varint_def values_fields [OF assms])
qed

lemma wire_of_numbers: "f \<in> set (wire_of nv) \<Longrightarrow> fst f = fst nv"
  by (cases nv rule: wire_of.cases) (auto simp: wire_of.simps split: if_splits)

text \<open>
  What a type with string fields \<open>ns\<close> makes of the marshalled fields \<open>fs\<close>, of the same or of another
  type, as long as the numbers \<open>ns\<close> are string fields there too.
\<close>

fun fits :: "nat list \<Rightarrow> nat \<times> field \<Rightarrow> bool" where
  "fits ns (n, StringV s) = (1 \<le> n \<and> n < 2 ^ 29)"
| "fits ns (n, v) = (1 \<le> n \<and> n < 2 ^ 29 \<and> n \<notin> set ns)"

lemma fits_bounds: "fits ns f \<Longrightarrow> 1 \<le> fst f \<and> fst f < 2 ^ 29"
  by (cases "(ns, f)" rule: fits.cases) auto

lemma Unmarshal_Marshal:
  assumes "runtime_ok rt" and m: "Marshal rt fs = Inr b" and "list_all (fits ns) fs" and d: "distinct (map fst fs)"
  shows "Unmarshal rt ns build b = build (wire_fields fs)"
proof -
  have "wire_message_ok (wire_fields fs)"
    using assms(3) fits_bounds
    by (fastforce simp: wire_message_ok_def wire_fields_def list_all_iff dest!: wire_of_numbers)
  then have "rt_decode rt b = Inr (wire_fields fs)"
    using assms(1) m by (auto simp: Marshal_def runtime_ok_def split: if_splits)
  moreover have "rt_utf8 rt (string_of_bytes s)" if n: "n \<in> set ns" "s \<in> set (byte_values n (wire_fields fs))" for n s
  proof -
    obtain v where v: "map_of fs n = Some v" "s \<in> set (byte_values n (wire_of (n, v)))"
      using n(2) values_fields(1) [OF d, of n] by (auto split: option.splits)
    then have "fits ns (n, v)" "field_valid rt (n, v)"
      using m assms(3) map_of_SomeD [OF v(1)] by (auto simp: list_all_iff Marshal_def split: if_splits)
    then show ?thesis
      using v(2) n(1) by (cases v) (auto split: if_splits)
  qed
  ultimately show ?thesis
    by (simp add: Unmarshal_def)
qed

lemma mapP_roundtrip:
  assumes "mapP f xs = Inr ys" and "\<forall>x \<in> set xs. \<forall>y. f x = Inr y \<longrightarrow> g y = Inr x"
  shows "mapP g ys = Inr xs"
  using assms by (induction xs arbitrary: ys) (auto simp: bindP_Inr_iff)

lemma enum_roundtrip [simp]: "ucast (scast (x :: 32 word) :: uint64) = x"
  by (rule bit_word_eqI) (auto simp: bit_simps)

lemma uint32_roundtrip [simp]: "ucast (ucast (x :: 32 word) :: uint64) = x"
  by (rule bit_word_eqI) (auto simp: bit_simps)

section \<open>The codec laws\<close>

lemma codec_okI:
  assumes "runtime_ok rt" and "\<And>m. list_all (fits ns) (fs m)" and "\<And>m. distinct (map fst (fs m))"
    and "\<And>m. build (wire_fields (fs m)) = Inr m"
  shows "codec_ok (\<lambda>m. Marshal rt (fs m)) (Unmarshal rt ns build)"
  unfolding codec_ok_def using Unmarshal_Marshal [OF assms(1) _ assms(2,3), of _ _ build] assms(4) by metis

lemma codec_ApronServiceRequest:
  "runtime_ok rt \<Longrightarrow> codec_ok (marshal_ApronServiceRequest rt) (unmarshal_ApronServiceRequest rt)"
  unfolding marshal_ApronServiceRequest_def [abs_def] unmarshal_ApronServiceRequest_def
  by (rule codec_okI) (simp_all add: get_fields bool_varint_def)

lemma codec_ApronServiceData:
  "runtime_ok rt \<Longrightarrow> codec_ok (marshal_ApronServiceData rt) (unmarshal_ApronServiceData rt)"
  unfolding marshal_ApronServiceData_def [abs_def] unmarshal_ApronServiceData_def
  by (rule codec_okI) (simp_all add: get_fields)

lemma codec_ApronSocketInitRequest:
  "runtime_ok rt \<Longrightarrow> codec_ok (marshal_ApronSocketInitRequest rt) (unmarshal_ApronSocketInitRequest rt)"
  unfolding marshal_ApronSocketInitRequest_def [abs_def] unmarshal_ApronSocketInitRequest_def
  by (rule codec_okI) (simp_all add: get_fields)

lemma codec_ExtServiceData:
  "runtime_ok rt \<Longrightarrow> codec_ok (marshal_ExtServiceData rt) (unmarshal_ExtServiceData rt)"
  unfolding marshal_ExtServiceData_def [abs_def] unmarshal_ExtServiceData_def
  by (rule codec_okI) (simp_all add: get_fields)

lemma codec_ApronUsageRecord:
  "runtime_ok rt \<Longrightarrow> codec_ok (marshal_ApronUsageRecord rt) (unmarshal_ApronUsageRecord rt)"
  unfolding marshal_ApronUsageRecord_def [abs_def] unmarshal_ApronUsageRecord_def
  by (rule codec_okI) (simp_all add: get_fields)

lemma codec_NodeReport:
  assumes "runtime_ok rt"
  shows "codec_ok (marshal_NodeReport rt) (unmarshal_NodeReport rt)"
proof -
  have "unmarshal_NodeReport rt b = Inr r" if m: "marshal_NodeReport rt r = Inr b" for r b
  proof -
    obtain bs where bs: "mapP (marshal_ApronUsageRecord rt) (rep_Records r) = Inr bs"
        "Marshal rt [(1, StringV (rep_NodeId r)), (10, MessagesV bs)] = Inr b"
      using m unfolding marshal_NodeReport_def bindP_Inr_iff by blast
    have "mapP (unmarshal_ApronUsageRecord rt) bs = Inr (rep_Records r)"
      by (rule mapP_roundtrip [OF bs(1)]) (use codec_okD [OF codec_ApronUsageRecord [OF assms]] in blast)
    then show ?thesis
      unfolding unmarshal_NodeReport_def
      by (subst Unmarshal_Marshal [OF assms bs(2)]) (simp_all add: get_fields values_fields)
  qed
  then show ?thesis
    by (simp add: codec_ok_def)
qed

lemma provider_roundtrip:
  assumes "runtime_ok rt" and "marshal_ApronServiceProvider rt (Some p) = Inr b"
  shows "unmarshal_ApronServiceProvider rt b = Inr (Some p)"
  unfolding unmarshal_ApronServiceProvider_def
  by (subst Unmarshal_Marshal [OF assms(1) assms(2) [unfolded marshal_ApronServiceProvider_def option.case]])
    (simp_all add: get_fields)

lemma codec_ApronService:
  assumes "runtime_ok rt"
  shows "codec_on wf_service (marshal_ApronService rt) (unmarshal_ApronService rt)"
proof -
  have "unmarshal_ApronService rt b = Inr s" if wf: "wf_service s" and m: "marshal_ApronService rt s = Inr b" for s b
  proof -
    obtain ps where ps: "mapP (marshal_ApronServiceProvider rt) (svc_Providers s) = Inr ps"
        "Marshal rt [(1, StringV (svc_Id s)), (2, StringV (svc_Name s)), (3, StringV (svc_Desc s)),
           (4, StringV (svc_Logo s)), (5, StringV (svc_Usage s)), (6, StringV (svc_UserId s)), (10, MessagesV ps),
           (11, VarintV (bool_varint (svc_IsDeleted s)))] = Inr b"
      using m unfolding marshal_ApronService_def bindP_Inr_iff by blast
    have "mapP (unmarshal_ApronServiceProvider rt) ps = Inr (svc_Providers s)"
      by (rule mapP_roundtrip [OF ps(1)]) (metis wf wf_service_def not_Some_eq provider_roundtrip [OF assms])
    then show ?thesis
      unfolding unmarshal_ApronService_def
      by (subst Unmarshal_Marshal [OF assms ps(2)]) (simp_all add: get_fields values_fields bool_varint_def)
  qed
  then show ?thesis
    by (simp add: codec_on_def)
qed

text \<open>
  The client side gateway sends an \<open>ApronSocketServiceRequest\<close>, the service side gateway reads it as
  an \<open>ApronSocketInitRequest\<close>.
\<close>

lemma socket_request_read:
  assumes "runtime_ok rt" and "marshal_ApronSocketServiceRequest rt r = Inr b"
  shows "unmarshal_ApronSocketInitRequest rt b = Inr
    \<lparr>init_ServiceId = sreq_ServiceId r, init_RequestId = sreq_RequestId r, init_PeerId = sreq_PeerId r,
     init_UserId = []\<rparr>"
  unfolding unmarshal_ApronSocketInitRequest_def
  by (subst Unmarshal_Marshal [OF assms(1) assms(2) [unfolded marshal_ApronSocketServiceRequest_def]])
    (simp_all add: get_fields)

section \<open>A runtime that satisfies the law\<close>

text \<open>
  Records of a key, the field number times 8 plus the wire type, and a value; numbers in base 128,
  lowest digit first, all digits but the last marked by the top bit.
\<close>

fun put_varint :: "nat \<Rightarrow> bytes" where
  "put_varint n = (if n < 128 then [word_of_nat n] else word_of_nat (n mod 128 + 128) # put_varint (n div 128))"

fun take_varint :: "bytes \<Rightarrow> (nat \<times> bytes) option" where
  "take_varint [] = None"
| "take_varint (b # bs) =
     (if unat b < 128 then Some (unat b, bs)
      else map_option (\<lambda>(m, r). (unat b - 128 + 128 * m, r)) (take_varint bs))"

lemma unat_small_byte: "n < 256 \<Longrightarrow> unat (word_of_nat n :: byte) = n"
  by (simp add: unat_of_nat take_bit_nat_eq_self)

lemma take_put_varint: "take_varint (put_varint n @ r) = Some (n, r)"
proof (induction n rule: put_varint.induct)
  case (1 n)
  show ?case
  proof (cases "n < 128")
    case True
    then show ?thesis by (simp add: unat_small_byte)
  next
    case False
    have "n mod 128 + 128 < 256"
      using mod_less_divisor [of 128 n] by linarith
    then have u: "unat (word_of_nat (n mod 128) + 128 :: byte) = n mod 128 + 128"
      using unat_small_byte [of "n mod 128 + 128"] by simp
    have "take_varint (put_varint (n div 128) @ r) = Some (n div 128, r)"
      using 1 False by simp
    then show ?thesis
      using False u by (simp add: put_varint.simps [of n] del: put_varint.simps)
  qed
qed

fun put_field :: "nat \<times> wire_value \<Rightarrow> bytes" where
  "put_field (n, Varint v) = put_varint (8 * n) @ put_varint (unat v)"
| "put_field (n, Bytes b) = put_varint (8 * n + 2) @ put_varint (length b) @ b"

definition take_field :: "bytes \<Rightarrow> ((nat \<times> wire_value) \<times> bytes) option" where
  "take_field bs =
     (case take_varint bs of None \<Rightarrow> None
      | Some (key, r) \<Rightarrow>
          (case take_varint r of None \<Rightarrow> None
           | Some (v, r') \<Rightarrow>
               if key mod 8 = 0 then Some ((key div 8, Varint (word_of_nat v)), r')
               else if key mod 8 = 2 \<and> v \<le> length r' then Some ((key div 8, Bytes (take v r')), drop v r')
               else None))"

fun take_fields :: "nat \<Rightarrow> bytes \<Rightarrow> go_error + wire_message" where
  "take_fields k [] = Inr []"
| "take_fields 0 bs = Inl ErrUnexpectedEOF"
| "take_fields (Suc k) bs =
     (case take_field bs of
        None \<Rightarrow> Inl ErrUnexpectedEOF
      | Some (f, r) \<Rightarrow> bindP (take_fields k r) (\<lambda>fs. Inr (f # fs)))"

lemma take_put_field: "take_field (put_field f @ r) = Some (f, r)"
proof (cases f rule: put_field.cases)
  case (1 n v)
  then show ?thesis
    by (simp add: take_field_def take_put_varint del: put_varint.simps)
next
  case (2 n b)
  moreover have "(8 * n + 2) mod 8 = 2" "(8 * n + 2) div 8 = n"
    by presburger+
  ultimately show ?thesis
    by (simp add: take_field_def take_put_varint del: put_varint.simps)
qed

lemma put_field_nonempty: "put_field f \<noteq> []"
  using take_put_field [of f "[]"] by (auto simp: take_field_def)

lemma take_put_fields: "length m \<le> k \<Longrightarrow> take_fields k (concat (map put_field m)) = Inr m"
proof (induction m arbitrary: k)
  case Nil
  then show ?case by simp
next
  case (Cons f m)
  then obtain k' where k': "k = Suc k'" "length m \<le> k'"
    by (cases k) auto
  obtain b bs where "put_field f = b # bs"
    using put_field_nonempty [of f] by (cases "put_field f") auto
  then show ?case
    using k' Cons.IH [OF k'(2)] take_put_field [of f "concat (map put_field m)"] by simp
qed

definition sample_runtime :: wire_runtime where
  "sample_runtime = \<lparr>rt_encode = (\<lambda>m. concat (map put_field m)), rt_decode = (\<lambda>b. take_fields (length b) b),
     rt_utf8 = (\<lambda>s. \<forall>c \<in> set s. of_char c < (128 :: nat))\<rparr>"

lemma sample_runtime_ok: "runtime_ok sample_runtime"
proof -
  have "length m \<le> length (concat (map put_field m))" for m
  proof (induction m)
    case (Cons f m)
    then show ?case
      using put_field_nonempty [of f] by (cases "put_field f") auto
  qed simp
  then show ?thesis
    by (simp add: runtime_ok_def sample_runtime_def take_put_fields)
qed

lemma nil_provider_sent_empty:
  "runtime_ok rt \<Longrightarrow> marshal_ApronServiceProvider rt None = Inr b \<Longrightarrow>
     unmarshal_ApronServiceProvider rt b = Inr (Some empty_provider)"
  unfolding unmarshal_ApronServiceProvider_def
  by (subst Unmarshal_Marshal [where fs = "[]"])
    (simp_all add: marshal_ApronServiceProvider_def get_fields empty_provider_def)

section \<open>Properties\<close>

text \<open>
  C9. Every message the gateways, agents and report programs exchange is read as it was sent: for
  any runtime that decodes what it encodes, unmarshalling the bytes of a marshalled message gives
  the message, field by field, zero values, negative time stamps and nested messages included. The
  request that opens a socket session is sent as an \<open>ApronSocketServiceRequest\<close> and read as an
  \<open>ApronSocketInitRequest\<close>: it arrives with the same service, request id and peer, and an empty user.
  A service with a nil provider is the one exception: it arrives with an empty provider in its place.
\<close>

theorem messages_roundtrip:
  assumes "runtime_ok rt"
  shows "codec_ok (marshal_ApronServiceRequest rt) (unmarshal_ApronServiceRequest rt) \<and>
    codec_ok (marshal_ApronServiceData rt) (unmarshal_ApronServiceData rt) \<and>
    codec_ok (marshal_ApronSocketInitRequest rt) (unmarshal_ApronSocketInitRequest rt) \<and>
    codec_ok (marshal_ExtServiceData rt) (unmarshal_ExtServiceData rt) \<and>
    codec_ok (marshal_ApronUsageRecord rt) (unmarshal_ApronUsageRecord rt) \<and>
    codec_ok (marshal_NodeReport rt) (unmarshal_NodeReport rt) \<and>
    codec_on wf_service (marshal_ApronService rt) (unmarshal_ApronService rt) \<and>
    (\<forall>r b. marshal_ApronSocketServiceRequest rt r = Inr b \<longrightarrow> unmarshal_ApronSocketInitRequest rt b = Inr
       \<lparr>init_ServiceId = sreq_ServiceId r, init_RequestId = sreq_RequestId r, init_PeerId = sreq_PeerId r, init_UserId = []\<rparr>) \<and>
    (\<forall>b. marshal_ApronServiceProvider rt None = Inr b \<longrightarrow>
       unmarshal_ApronServiceProvider rt b = Inr (Some empty_provider))"
  using assms by (simp add: nil_provider_sent_empty socket_request_read codec_ApronServiceRequest codec_ApronServiceData codec_ApronSocketInitRequest
      codec_ExtServiceData codec_ApronUsageRecord codec_NodeReport codec_ApronService)

theorem messages_roundtrip_witness:
  "marshal_ApronServiceData sample_runtime \<lparr>dat_RequestId = ''r'', dat_RawData = [7, 0]\<rparr> = Inr [18, 1, 114, 82, 2, 7, 0] \<and>
   unmarshal_ApronServiceData sample_runtime [18, 1, 114, 82, 2, 7, 0] = Inr \<lparr>dat_RequestId = ''r'', dat_RawData = [7, 0]\<rparr> \<and>
   marshal_ApronSocketServiceRequest sample_runtime \<lparr>sreq_ServiceId = ''s'', sreq_RequestId = ''r'', sreq_PeerId = ''A''\<rparr> =
     Inr [10, 1, 115, 18, 1, 114, 26, 1, 65] \<and>
   unmarshal_ApronSocketInitRequest sample_runtime [10, 1, 115, 18, 1, 114, 26, 1, 65] =
     Inr \<lparr>init_ServiceId = ''s'', init_RequestId = ''r'', init_PeerId = ''A'', init_UserId = ''''\<rparr>"
proof -
  have "marshal_ApronServiceData sample_runtime \<lparr>dat_RequestId = ''r'', dat_RawData = [7, 0]\<rparr> = Inr [18, 1, 114, 82, 2, 7, 0]"
    and "marshal_ApronSocketServiceRequest sample_runtime \<lparr>sreq_ServiceId = ''s'', sreq_RequestId = ''r'', sreq_PeerId = ''A''\<rparr> =
      Inr [10, 1, 115, 18, 1, 114, 26, 1, 65]"
    by code_simp+
  then show ?thesis
    using messages_roundtrip [OF sample_runtime_ok] by (fastforce intro: codec_okD)
qed

end
