(* ===== verification/Socket_Session.thy ===== *)
theory Socket_Session
  imports Socket_Proxy Wire
begin

text \<open>
  A socket session across both gateways: the client side gateway's handling of the init request
  (\<open>csgw_socket.go\<close>), the request on the stream between the gateways in the wire layout of \<open>Wire\<close>,
  and the service side gateway's handler (\<open>node_proxy_handler.go\<close>). The gateways use different message
  types for that request; they agree on the fields both have.
\<close>

section \<open>The init request in pieces\<close>

lemma read_loop_pieces:
  assumes "t \<noteq> []" and "[] \<notin> set hs" and "length (concat hs @ t) \<le> fuel" and "length (concat hs @ t) < defaultBufSize"
    and "length (t @ d) \<le> defaultBufSize"
  shows "read_loop fuel bufio_read (length (concat hs @ t)) acc \<lparr>bbuf = [], berr = None, under = c\<lparr>chunks := hs @ (t @ d) # cs\<rparr>\<rparr> =
    (acc @ concat hs @ t, None, \<lparr>bbuf = d, berr = None, under = c\<lparr>chunks := cs\<rparr>\<rparr>)"
  using assms
proof (induction hs arbitrary: fuel acc)
  case Nil
  then obtain k where k: "fuel = Suc k"
    by (cases fuel) auto
  have "conn_read (c\<lparr>chunks := (t @ d) # cs\<rparr>) defaultBufSize = (t @ d, None, c\<lparr>chunks := cs\<rparr>)"
    using conn_read_first [of "c\<lparr>chunks := (t @ d) # cs\<rparr>" "t @ d" cs defaultBufSize] Nil.prems by (simp add: defaultBufSize_def)
  then show ?case
    using Nil.prems k by (simp add: bufio_read_def)
next
  case (Cons h hs)
  then obtain k where k: "fuel = Suc k"
    by (cases fuel) auto
  have h: "h \<noteq> []" "length h < defaultBufSize" "length (concat hs @ t) \<le> k"
    using Cons.prems k by (cases h; auto)+
  have "conn_read (c\<lparr>chunks := h # hs @ (t @ d) # cs\<rparr>) defaultBufSize = (h, None, c\<lparr>chunks := hs @ (t @ d) # cs\<rparr>)"
    using conn_read_first [of "c\<lparr>chunks := h # hs @ (t @ d) # cs\<rparr>" h "hs @ (t @ d) # cs" defaultBufSize] h
    by (simp add: defaultBufSize_def)
  then have "bufio_read \<lparr>bbuf = [], berr = None, under = c\<lparr>chunks := h # hs @ (t @ d) # cs\<rparr>\<rparr> (length (concat (h # hs) @ t)) =
      (h, None, \<lparr>bbuf = [], berr = None, under = c\<lparr>chunks := hs @ (t @ d) # cs\<rparr>\<rparr>)"
    using Cons.prems h(1) by (simp add: bufio_read_def)
  then show ?case
    using Cons.IH [of k "acc @ h"] Cons.prems h k by simp
qed

text \<open>
  The header may arrive in any pieces, and its last piece may bring the body too; the body itself is
  read by a single \<open>Read\<close> and has to arrive in one piece, of at most 4096 bytes when it comes with a
  part of the header.
\<close>

lemma read_init_pieces:
  assumes c: "chunks c = hs @ (t @ d) # cs" and hdr: "concat hs @ t = be_put 8 (word_of_nat (length d) :: uint64)"
    and hs: "[] \<notin> set hs" "t @ d \<noteq> []" and len: "length d \<le> max_alloc" "t \<noteq> [] \<Longrightarrow> length (t @ d) \<le> defaultBufSize"
    and "unm d = Inr init"
  shows "read_init_request unm c = Inr (init, c\<lparr>chunks := cs\<rparr>)"
proof -
  let ?h = "be_put 8 (word_of_nat (length d) :: uint64)"
  have l8: "length (concat hs @ t) = 8"
    by (simp only: hdr length_be_put)
  have small: "(8::nat) < defaultBufSize"
    by (simp add: defaultBufSize_def)
  have same: "c\<lparr>chunks := xs\<rparr> = c" if "chunks c = xs" for xs
    using that by (cases c) simp
  have "\<exists>r. ReadFull bufio_read 8 (NewReader c) = (Inr ?h, r) \<and> (\<exists>x. bufio_read r (length d) = (d, None, x) \<and> under x = c\<lparr>chunks := cs\<rparr>)"
  proof (cases "t = []")
    case False
    have "ReadFull bufio_read 8 (NewReader c) = (Inr ?h, \<lparr>bbuf = d, berr = None, under = c\<lparr>chunks := cs\<rparr>\<rparr>)"
      using read_loop_pieces [OF False hs(1), of 8 d "[]" cs c] l8 small len(2) [OF False] hdr same [OF c]
      by (simp add: ReadFull_def NewReader_def)
    moreover have "\<exists>x. bufio_read \<lparr>bbuf = d, berr = None, under = c\<lparr>chunks := cs\<rparr>\<rparr> (length d) = (d, None, x) \<and> under x = c\<lparr>chunks := cs\<rparr>"
      by (cases "d = []") (simp_all add: bufio_read_def)
    ultimately show ?thesis
      by blast
  next
    case True
    then have d: "d \<noteq> []" and ne: "hs \<noteq> []"
      using hs(2) l8 by auto
    let ?b = "butlast hs" and ?l = "last hs"
    have bl: "hs = ?b @ [?l]"
      using ne by simp
    have l: "?l \<noteq> []" "[] \<notin> set ?b" "concat ?b @ ?l = ?h"
      using hs(1) ne hdr True bl last_in_set [OF ne] in_set_butlastD by (metis, metis, metis append_Nil2 concat.simps concat_append)
    have "length (concat ?b @ ?l) = 8"
      by (simp only: l(3) length_be_put)
    then have "length (?l @ []) \<le> defaultBufSize"
      using small by simp
    have "chunks c = ?b @ (?l @ []) # d # cs"
      using c True bl by (metis append.assoc append_Cons append_Nil append_Nil2)
    from same [OF this] have "ReadFull bufio_read 8 (NewReader c) = (Inr ?h, \<lparr>bbuf = [], berr = None, under = c\<lparr>chunks := d # cs\<rparr>\<rparr>)"
      using read_loop_pieces [OF l(1,2), of 8 "[]" "[]" "d # cs" c] \<open>length (concat ?b @ ?l) = 8\<close> small l(3) \<open>length (?l @ []) \<le> _\<close>
      by (simp add: ReadFull_def NewReader_def)
    moreover have "conn_read (c\<lparr>chunks := d # cs\<rparr>) n = (d, None, c\<lparr>chunks := cs\<rparr>)" if "length d \<le> n" "0 < n" for n
      using conn_read_first [of "c\<lparr>chunks := d # cs\<rparr>" d cs n] d that by simp
    then have "\<exists>x. bufio_read \<lparr>bbuf = [], berr = None, under = c\<lparr>chunks := d # cs\<rparr>\<rparr> (length d) = (d, None, x) \<and> under x = c\<lparr>chunks := cs\<rparr>"
      using d True small by (simp add: bufio_read_def)
    ultimately show ?thesis
      by blast
  qed
  then show ?thesis
    using len(1) assms(7) by (auto simp: read_init_request_def make_bytes_def unat_frame_length filled_def)
qed

section \<open>The two gateways\<close>

definition session_request :: "(peer_id \<Rightarrow> string) \<Rightarrow> ApronSocketInitRequest \<Rightarrow> ApronService \<Rightarrow> string \<Rightarrow> Node \<Rightarrow> ApronSocketServiceRequest" where
  "session_request id_string init s uuid n =
     \<lparr>sreq_ServiceId = svc_Id s, sreq_RequestId = make_request_id (init_UserId init) (svc_Id s) uuid,
      sreq_PeerId = id_string (node_Host n)\<rparr>"

definition init_arrives :: "net_in \<Rightarrow> bytes \<Rightarrow> bytes list \<Rightarrow> bool" where
  "init_arrives c d cs \<longleftrightarrow> (\<exists>hs t. chunks c = hs @ (t @ d) # cs \<and>
     concat hs @ t = be_put 8 (word_of_nat (length d) :: uint64) \<and> [] \<notin> set hs \<and> t @ d \<noteq> [] \<and>
     length d \<le> max_alloc \<and> (t \<noteq> [] \<longrightarrow> length (t @ d) \<le> defaultBufSize))"

lemma init_arrives_read:
  "init_arrives c d cs \<Longrightarrow> unm d = Inr init \<Longrightarrow> read_init_request unm c = Inr (init, c\<lparr>chunks := cs\<rparr>)"
  unfolding init_arrives_def using read_init_pieces [of c _ _ d cs unm init] by blast

lemma session_client_side:
  assumes rt: "runtime_ok rt" and "node_inv n" and i: "init_arrives c d cs"
    and "marshal_ApronSocketInitRequest rt init = Inr d"
    and "directory n (init_ServiceId init) = Some (p, s)" and "svc_Providers s \<noteq> []"
    and "\<forall>proto. newStream p proto = Inr no_stream"
    and m: "marshal_ApronSocketServiceRequest rt (session_request id_string init s uuid n) = Inr b"
  shows "\<exists>n' st. StartSocketForwardService (unmarshal_ApronSocketInitRequest rt) (marshal_ApronSocketServiceRequest rt)
        id_string newStream uuid ch h c n =
      Inr (Opened p (session_request id_string init s uuid n) st no_stream (c\<lparr>chunks := cs\<rparr>), n') \<and>
    out_bytes st = frame b \<and> clientSocketConns n' (sreq_RequestId (session_request id_string init s uuid n)) = Some h"
proof -
  have "unmarshal_ApronSocketInitRequest rt d = Inr init"
    by (rule codec_okD [OF codec_ApronSocketInitRequest [OF rt] assms(4)])
  then have "read_init_request (unmarshal_ApronSocketInitRequest rt) c = Inr (init, c\<lparr>chunks := cs\<rparr>)"
    by (rule init_arrives_read [OF i])
  moreover have "out_bytes (snd (WriteBytesViaStream no_stream b)) = frame b"
    by (simp add: WriteBytesViaStream_ok out_bytes_def frame_def no_stream_def)
  ultimately show ?thesis
    using StartSocketForwardService_eq [where newStream = newStream and mar = "marshal_ApronSocketServiceRequest rt" and
        id_string = id_string and ch = ch and h = h, OF assms(2) _ assms(5,6,7) m [unfolded session_request_def]]
    by (fastforce simp: session_request_def)
qed

lemma session_service_side:
  assumes rt: "runtime_ok rt" and "marshal_ApronSocketServiceRequest rt r = Inr b" and "length b \<le> max_alloc"
    and "concat cs = frame b" and "[] \<notin> set cs" and "peer_decode (sreq_PeerId r) = Inr p"
    and "services n (sreq_ServiceId r) = Some s" and "svc_Providers s = prov # provs"
    and "dial (GetBaseUrl prov) = Inr (h, fromService)" and "newStream p ProxySocketDataFromServiceSide = Inr st"
  shows "\<exists>n'. ProxySocketInitReqHandler (unmarshal_ApronSocketInitRequest rt) peer_decode dial newStream \<lparr>chunks = cs, fin = fn\<rparr> n =
      Inr (\<lparr>init_ServiceId = sreq_ServiceId r, init_RequestId = sreq_RequestId r, init_PeerId = sreq_PeerId r, init_UserId = []\<rparr>,
        NewReader fromService, Some st, n') \<and>
    serviceSocketConns n' (sreq_RequestId r) = Some h"
proof -
  have "fst (ReadOneFrameDataFromStream (Conn \<lparr>chunks = cs, fin = fn\<rparr>)) = Inr (Inr b)"
    using read_fresh_aligned [of "\<lparr>chunks = cs, fin = fn\<rparr>" cs "[]" b] assms(3-5) by simp
  then show ?thesis
    using socket_request_read [OF rt assms(2)] assms(6-10)
    by (simp add: ProxySocketInitReqHandler_def service_at_def)
qed

section \<open>Properties\<close>

text \<open>
  C8. A socket session connects the client and the service it asked for, and carries their data. A
  client sends its init request to a gateway that knows the service: the header in any pieces, the
  body in one piece (of at most 4096 bytes if that piece holds a part of the header too), since the
  gateway reads the body with a single \<open>Read\<close>. The gateway writes one request to the peer of the
  registry; the bytes, read as the other gateway's message type, name the service, the session and
  this gateway, while the user survives only inside the session id; the other gateway dials the
  service's first provider, and both gateways file their connection under the same id. Then the
  client sends messages and closes, and the service sends pieces of at most 40960 bytes. If no network
  piece on the client's connection, or on either stream between the gateways, joins the end of a frame
  with what follows it, then the service gets exactly the client's messages and the client the
  service's pieces, each as one frame, in order, and on no other connection.
\<close>

theorem socket_session_opens:
  assumes rt: "runtime_ok rt" and "node_inv nC" and "init_arrives c d (concat css)"
    and "marshal_ApronSocketInitRequest rt init = Inr d"
    and "directory nC (init_ServiceId init) = Some (pS, s)" and "svc_Providers s \<noteq> []"
    and "\<forall>proto. newStream pS proto = Inr no_stream"
    and req: "req = session_request id_string init s uuid nC"
    and m: "marshal_ApronSocketServiceRequest rt req = Inr b" and "length b \<le> max_alloc"
    and "concat cs1 = frame b" and "[] \<notin> set cs1"
    and "peer_decode (id_string (node_Host nC)) = Inr pC" and "services nS (svc_Id s) = Some s'"
    and "svc_Providers s' = prov # provs" and "dial (GetBaseUrl prov) = Inr (hS, fromService)"
    and "newStream' pC ProxySocketDataFromServiceSide = Inr no_stream"
    and "werrs (outs hC) = []" and "werrs (outs hS) = []"
    and enc: "\<forall>x \<in> set ms \<union> set rs. marshal_ApronServiceData rt \<lparr>dat_RequestId = sreq_RequestId req, dat_RawData = x\<rparr> = Inr (enc x)"
    and "aligned css ms" and "fin c = EOF" and up: "aligned css_up (map enc ms)" "chunks cu = concat css_up"
    and "chunks fromService = rs" and "\<forall>x \<in> set rs. x \<noteq> [] \<and> length x \<le> 40960"
    and down: "aligned css_down (map enc rs)" "chunks cd = concat css_down"
  shows "\<exists>st nC' nS' stU stD toS toC.
    StartSocketForwardService (unmarshal_ApronSocketInitRequest rt) (marshal_ApronSocketServiceRequest rt)
      id_string newStream uuid ch hC c nC = Inr (Opened pS req st no_stream (c\<lparr>chunks := concat css\<rparr>), nC') \<and>
    out_bytes st = concat cs1 \<and>
    ProxySocketInitReqHandler (unmarshal_ApronSocketInitRequest rt) peer_decode dial newStream' \<lparr>chunks = cs1, fin = fn\<rparr> nS =
      Inr (\<lparr>init_ServiceId = svc_Id s, init_RequestId = sreq_RequestId req, init_PeerId = id_string (node_Host nC),
            init_UserId = []\<rparr>, NewReader fromService, Some no_stream, nS') \<and>
    csgw_socket_loop (Suc (length ms)) (marshal_ApronServiceData rt) (sreq_RequestId req) (c\<lparr>chunks := concat css\<rparr>) no_stream =
      (Finished, stU) \<and> out_bytes stU = conn_pending cu \<and>
    socket_data_loop (unmarshal_ApronServiceData rt) ProxySocketDataFromClientSide
      (fst (ReadBytesViaStream (length ms) (Conn cu))) nS' outs = Inr toS \<and>
    toS = outs(hS := toS hS) \<and> out_bytes (toS hS) = out_bytes (outs hS) @ concat (map frame ms) \<and>
    socket_service_loop (length rs) (marshal_ApronServiceData rt) (sreq_RequestId req) (NewReader fromService) (Some no_stream) =
      (Running, Some stD) \<and> out_bytes stD = conn_pending cd \<and>
    socket_data_loop (unmarshal_ApronServiceData rt) ProxySocketDataFromServiceSide
      (fst (ReadBytesViaStream (length rs) (Conn cd))) nC' outs = Inr toC \<and>
    toC = outs(hC := toC hC) \<and> out_bytes (toC hC) = out_bytes (outs hC) @ concat (map frame rs)"
proof -
  let ?rid = "sreq_RequestId req" and ?mar = "marshal_ApronServiceData rt" and ?unm = "unmarshal_ApronServiceData rt"
  let ?c = "c\<lparr>chunks := concat css\<rparr>"
  have fields: "sreq_ServiceId req = svc_Id s" "sreq_PeerId req = id_string (node_Host nC)"
    by (simp_all add: req session_request_def)
  obtain nC' st where csgw: "StartSocketForwardService (unmarshal_ApronSocketInitRequest rt)
      (marshal_ApronSocketServiceRequest rt) id_string newStream uuid ch hC c nC = Inr (Opened pS req st no_stream ?c, nC')"
      and hC: "clientSocketConns nC' ?rid = Some hC" and st: "out_bytes st = frame b"
    using session_client_side [where newStream = newStream, OF rt assms(2-7) m [unfolded req], of ch hC] req by auto
  obtain nS' where ssgw: "ProxySocketInitReqHandler (unmarshal_ApronSocketInitRequest rt) peer_decode dial newStream'
      \<lparr>chunks = cs1, fin = fn\<rparr> nS = Inr (\<lparr>init_ServiceId = svc_Id s, init_RequestId = ?rid,
        init_PeerId = id_string (node_Host nC), init_UserId = []\<rparr>, NewReader fromService, Some no_stream, nS')"
      and hS: "serviceSocketConns nS' ?rid = Some hS"
    using session_service_side [where dial = dial and newStream = newStream' and peer_decode = peer_decode and fn = fn,
        OF rt m assms(10-12) assms(13) [folded fields(2)] assms(14) [folded fields(1)] assms(15-17)]
    unfolding fields by blast
  note codec = codec_ApronServiceData [OF rt]
  obtain stU toS where U: "csgw_socket_loop (Suc (length ms)) ?mar ?rid ?c no_stream = (Finished, stU)"
      "out_bytes stU = concat (map (frame \<circ> enc) ms)" "fst (ReadBytesViaStream (length ms) (Conn cu)) = map (Data \<circ> enc) ms"
      "socket_data_loop ?unm ProxySocketDataFromClientSide (map (Data \<circ> enc) ms) nS' outs = Inr toS"
      "out_bytes (toS hS) = out_bytes (outs hS) @ concat (map frame ms)" "\<forall>h. h \<noteq> hS \<longrightarrow> toS h = outs h"
    using socket_data_carried [where outs = outs, OF assms(21) _ _ _ codec up hS assms(19), of ?c] assms(22) enc by auto
  obtain stD toC where D: "socket_service_loop (length rs) ?mar ?rid (NewReader fromService) (Some no_stream) = (Running, Some stD)"
      "out_bytes stD = concat (map (frame \<circ> enc) rs)" "fst (ReadBytesViaStream (length rs) (Conn cd)) = map (Data \<circ> enc) rs"
      "socket_data_loop ?unm ProxySocketDataFromServiceSide (map (Data \<circ> enc) rs) nC' outs = Inr toC"
      "out_bytes (toC hC) = out_bytes (outs hC) @ concat (map frame rs)" "\<forall>h. h \<noteq> hC \<longrightarrow> toC h = outs h"
    using service_data_carried [where outs = outs, OF assms(25,26) _ codec down hC assms(18)] enc by auto
  have "toS = outs(hS := toS hS)" "toC = outs(hC := toC hC)"
    using U(6) D(6) by auto
  then show ?thesis
    using csgw ssgw st assms(11) U(1-5) D(1-5) aligned_pending [OF up] aligned_pending [OF down] by (simp add: comp_def)
qed

definition session_init :: ApronSocketInitRequest where
  "session_init = \<lparr>init_ServiceId = ''httpbin_01'', init_RequestId = '''', init_PeerId = '''', init_UserId = ''u''\<rparr>"

definition session_init_bytes :: bytes where
  "session_init_bytes = [10, 10, 104, 116, 116, 112, 98, 105, 110, 95, 48, 49, 34, 1, 117]"

definition session_req_bytes :: bytes where
  "session_req_bytes = [10, 10, 104, 116, 116, 112, 98, 105, 110, 95, 48, 49,
     18, 14, 117, 46, 104, 116, 116, 112, 98, 105, 110, 95, 48, 49, 46, 55, 26, 1, 65]"

definition session_enc :: "bytes \<Rightarrow> bytes" where
  "session_enc x = (case marshal_ApronServiceData sample_runtime
     \<lparr>dat_RequestId = ''u.httpbin_01.7'', dat_RawData = x\<rparr> of Inr b \<Rightarrow> b | Inl _ \<Rightarrow> [])"

lemma session_bytes:
  "marshal_ApronSocketInitRequest sample_runtime session_init = Inr session_init_bytes"
  "session_request id session_init (sample_service ''httpbin_01'') ''7'' sample_csgw =
     \<lparr>sreq_ServiceId = ''httpbin_01'', sreq_RequestId = ''u.httpbin_01.7'', sreq_PeerId = ''A''\<rparr>"
  "marshal_ApronSocketServiceRequest sample_runtime
     \<lparr>sreq_ServiceId = ''httpbin_01'', sreq_RequestId = ''u.httpbin_01.7'', sreq_PeerId = ''A''\<rparr> = Inr session_req_bytes"
proof -
  show "session_request id session_init (sample_service ''httpbin_01'') ''7'' sample_csgw =
     \<lparr>sreq_ServiceId = ''httpbin_01'', sreq_RequestId = ''u.httpbin_01.7'', sreq_PeerId = ''A''\<rparr>"
    by (simp add: session_request_def session_init_def make_request_id_def sample_csgw_facts(3))
qed code_simp+

theorem socket_session_opens_witness:
  "\<exists>st nC' nS' toS toC.
    StartSocketForwardService (unmarshal_ApronSocketInitRequest sample_runtime) (marshal_ApronSocketServiceRequest sample_runtime)
      id (\<lambda>_ _. Inr no_stream) ''7'' 1 2 \<lparr>chunks = [[0, 0, 0], [0, 0, 0, 0, 15], session_init_bytes, frame [7]], fin = EOF\<rparr> sample_csgw =
      Inr (Opened ''B'' \<lparr>sreq_ServiceId = ''httpbin_01'', sreq_RequestId = ''u.httpbin_01.7'', sreq_PeerId = ''A''\<rparr> st no_stream
        \<lparr>chunks = [frame [7]], fin = EOF\<rparr>, nC') \<and>
    ProxySocketInitReqHandler (unmarshal_ApronSocketInitRequest sample_runtime) Inr (\<lambda>_. Inr (4, \<lparr>chunks = [[9]], fin = EOF\<rparr>))
      (\<lambda>_ _. Inr no_stream) \<lparr>chunks = [frame session_req_bytes], fin = EOF\<rparr> sample_csgw =
      Inr (\<lparr>init_ServiceId = ''httpbin_01'', init_RequestId = ''u.httpbin_01.7'', init_PeerId = ''A'', init_UserId = ''''\<rparr>,
        NewReader \<lparr>chunks = [[9]], fin = EOF\<rparr>, Some no_stream, nS') \<and>
    socket_data_loop (unmarshal_ApronServiceData sample_runtime) ProxySocketDataFromClientSide
      (fst (ReadBytesViaStream 1 (Conn \<lparr>chunks = [frame (session_enc [7])], fin = EOF\<rparr>))) nS' (\<lambda>_. no_stream) = Inr toS \<and>
    out_bytes (toS 4) = frame [7] \<and>
    socket_data_loop (unmarshal_ApronServiceData sample_runtime) ProxySocketDataFromServiceSide
      (fst (ReadBytesViaStream 1 (Conn \<lparr>chunks = [frame (session_enc [9])], fin = EOF\<rparr>))) nC' (\<lambda>_. no_stream) = Inr toC \<and>
    out_bytes (toC 2) = frame [9]"
proof -
  let ?req = "\<lparr>sreq_ServiceId = ''httpbin_01'', sreq_RequestId = ''u.httpbin_01.7'', sreq_PeerId = ''A''\<rparr>"
  let ?s = "sample_service ''httpbin_01''"
  let ?c = "\<lparr>chunks = [[0, 0, 0], [0, 0, 0, 0, 15], session_init_bytes, frame [7]], fin = EOF\<rparr> :: net_in"
  let ?S = "\<lparr>chunks = [[9]], fin = EOF\<rparr> :: net_in"
  let ?cu = "\<lparr>chunks = [frame (session_enc [7])], fin = EOF\<rparr> :: net_in" and ?cd = "\<lparr>chunks = [frame (session_enc [9])], fin = EOF\<rparr> :: net_in"
  have sid: "init_ServiceId session_init = ''httpbin_01''"
    by (simp add: session_init_def)
  have len: "length session_req_bytes \<le> max_alloc" "session_init_bytes \<noteq> []" "length session_init_bytes \<le> max_alloc"
    by (simp_all add: session_init_bytes_def session_req_bytes_def max_alloc_def)
  have "concat [[0, 0, 0], [0, 0, 0, 0, 15]] @ [] = be_put 8 (word_of_nat (length session_init_bytes) :: uint64)"
    by code_simp
  then have arrives: "init_arrives ?c session_init_bytes (concat [[frame [7]]])"
    unfolding init_arrives_def using len(2,3) by (intro exI [of _ "[[0, 0, 0], [0, 0, 0, 0, 15]]"] exI [of _ "[]"]) simp
  have "rt_utf8 sample_runtime ''u.httpbin_01.7''"
    by code_simp
  then have enc: "\<forall>x \<in> set [[7]] \<union> set [[9]]. marshal_ApronServiceData sample_runtime
      \<lparr>dat_RequestId = sreq_RequestId ?req, dat_RawData = x\<rparr> = Inr (session_enc x)"
    by (simp add: session_enc_def marshal_ApronServiceData_def Marshal_def)
  have dir: "directory sample_csgw (init_ServiceId session_init) = Some (''B'', ?s)"
    "services sample_csgw (svc_Id ?s) = Some ?s" "node_Host sample_csgw = ''A''"
    using sample_csgw_facts(2,3) by (simp_all add: sid directory_Some_iff)
  have w: "werrs ((\<lambda>_. no_stream) (h :: handle)) = []" for h
    by (simp add: no_stream_def)
  have cs: "concat [frame session_req_bytes] = frame session_req_bytes" "[] \<notin> set [frame session_req_bytes]"
    by (simp_all add: frame_def)
  have prov: "svc_Providers ?s = Some empty_provider # []" "svc_Providers ?s \<noteq> []"
    by (simp_all add: sample_service_def)
  have host: "(Inr :: peer_id \<Rightarrow> go_error + peer_id) (id (node_Host sample_csgw)) = Inr ''A''"
    using dir(3) by simp
  have "length (session_enc [7]) \<le> 100" "length (session_enc [9]) \<le> 100"
    by code_simp+
  then have al: "aligned [[frame [7]]] [[7]]" "aligned [[frame (session_enc [7])]] (map session_enc [[7]])"
      "aligned [[frame (session_enc [9])]] (map session_enc [[9]])"
    using frame_not_Nil [THEN not_sym] by (auto simp: aligned_def max_alloc_def)
  note T = socket_session_opens [where newStream = "\<lambda>_ _. Inr no_stream" and newStream' = "\<lambda>_ _. Inr no_stream" and
        outs = "\<lambda>_. no_stream" and enc = session_enc and dial = "\<lambda>_. Inr (4, ?S)" and
        peer_decode = Inr and id_string = id and fn = EOF and ch = 1 and hC = 2 and hS = 4 and c = ?c and
        ms = "[[7]]" and rs = "[[9]]" and css = "[[frame [7]]]" and cu = ?cu and cd = ?cd,
        OF sample_runtime_ok sample_csgw_facts(1) arrives session_bytes(1) dir(1) prov(2) _ session_bytes(2) [symmetric]
          session_bytes(3) len(1) cs host dir(2) prov(1) refl refl w w enc al(1) _ al(2) _ _ _ al(3)]
  have out: "out_bytes no_stream = []"
    by (simp add: no_stream_def out_bytes_def)
  have "length [[7 :: byte]] = 1" "length [[9 :: byte]] = 1"
    by simp_all
  with T show ?thesis
    unfolding sid by (auto simp: dir(3) out)
qed

end
