(* ===== verification/Socket_System.thy ===== *)
theory Socket_System
  imports Http_System Socket_Session
begin

text \<open>
  Many socket sessions at the same time. Every gateway serves its clients and services in goroutines
  of their own: it is the client side of some sessions and the service side of others, and all of
  them share its tables of connections. The step relation \<open>sock_step\<close> interleaves the operations of
  \<open>Socket_Proxy\<close> and \<open>Node\<close> of any number of gateways in every order; \<open>sock_crash\<close> gives the states in
  which an operation of a gateway panics, which ends the gateway with all its sessions.

  \<open>StartSocketForwardService\<close> sends the init request before it enters the client's connection, and
  opens the stream for data before the service side gateway has dialled the service. Both races are
  kept: \<open>sock_open\<close> is the handler up to the entry, \<open>sock_ready\<close> the entry, and data may be under way
  before either of them is done.

  A session has one stream in each direction for as long as it lives (\<open>csgw_socket.go\<close> and
  \<open>ProxySocketInitReqHandler\<close> open them once). \<open>se_up\<close> and \<open>se_down\<close> are the bytes on them that have not
  been read: each forwarded message is written behind them, and \<open>reads\<close> is an iteration of
  \<open>ReadBytesViaStream\<close> in any segmentation of them. That function puts a new buffered reader before the
  stream in every iteration, so a read can take more than its message, and what it took is gone; the
  next read then starts wherever the lost bytes ended. All of that is in the relation. What a
  session sent counts from the frame or piece its gateway read.

  \<open>se_read_up\<close>, \<open>se_read_down\<close> and \<open>so_whole\<close> only observe a run; no operation depends on them. The
  first two count the messages read, the last is true as long as every read took its message and
  nothing else, which is to say that no piece of the network joined the end of a message with the
  bytes after it.
\<close>

record socket_session =
  se_csgw :: peer_id
  se_ssgw :: peer_id
  se_req :: ApronSocketServiceRequest
  se_client :: handle
  se_ready :: bool
  se_closed :: bool
  se_init :: "net_out option"
  se_service :: "handle option"
  se_resp :: "peer_id option"
  se_sent_up :: "bytes list"
  se_up :: bytes
  se_read_up :: nat
  se_sent_down :: "bytes list"
  se_down :: bytes
  se_read_down :: nat

abbreviation se_id :: "socket_session \<Rightarrow> string" where
  "se_id s \<equiv> sreq_RequestId (se_req s)"

record socket_system =
  so_nodes :: "peer_id \<Rightarrow> Node"
  so_alive :: "peer_id set"
  so_uuids :: "string set"
  so_handles :: "handle set"
  so_sessions :: "nat \<rightharpoonup> socket_session"
  so_outs :: "handle \<Rightarrow> net_out"
  so_whole :: bool

text \<open>The environment: codecs, peer ids and libp2p streams.\<close>

record socket_net =
  sn_mar_req :: "ApronSocketServiceRequest marshaller"
  sn_unm_init :: "ApronSocketInitRequest unmarshaller"
  sn_mar_data :: "ApronServiceData marshaller"
  sn_unm_data :: "ApronServiceData unmarshaller"
  sn_id :: "peer_id \<Rightarrow> string"
  sn_decode :: "string \<Rightarrow> go_error + peer_id"
  sn_newStream :: "peer_id \<Rightarrow> string \<Rightarrow> go_error + net_out"

section \<open>Operations of the system\<close>

definition csgw_open :: "socket_net \<Rightarrow> string \<Rightarrow> handle \<Rightarrow> handle \<Rightarrow> net_in \<Rightarrow> Node \<Rightarrow> go_stop + (socket_outcome \<times> Node)" where
  "csgw_open H uuid ch h c n =
     StartSocketForwardService (sn_unm_init H) (sn_mar_req H) (sn_id H) (sn_newStream H) uuid ch h c n"

definition enter_client :: "string \<Rightarrow> handle \<Rightarrow> Node \<Rightarrow> Node" where
  "enter_client k h n = n\<lparr>clientSocketConns := (clientSocketConns n)(k \<mapsto> h)\<rparr>"

definition ssgw_dial :: "socket_net \<Rightarrow> go_error + (handle \<times> net_in) \<Rightarrow> net_in \<Rightarrow> Node \<Rightarrow>
     go_stop + (ApronSocketInitRequest \<times> bufio \<times> net_out option \<times> Node)" where
  "ssgw_dial H res c n =
     ProxySocketInitReqHandler (sn_unm_init H) (sn_decode H) (\<lambda>_. res) (sn_newStream H) c n"

text \<open>
  One iteration of the loops that forward data; \<open>w\<close> collects what it writes to the session's stream.
\<close>

definition csgw_frame :: "socket_net \<Rightarrow> socket_session \<Rightarrow> net_in \<Rightarrow> net_out \<Rightarrow> loop_state \<times> net_out" where
  "csgw_frame H s c w = csgw_socket_loop 1 (sn_mar_data H) (se_id s) c w"

definition ssgw_piece :: "socket_net \<Rightarrow> socket_session \<Rightarrow> net_in \<Rightarrow> net_out \<Rightarrow> loop_state \<times> net_out option" where
  "ssgw_piece H s c w = socket_service_loop 1 (sn_mar_data H) (se_id s) (NewReader c) (map_option (\<lambda>_. w) (se_resp s))"

text \<open>
  An iteration of the reader on a stream with the unread bytes \<open>u\<close> sends \<open>b\<close> to the handler and leaves
  \<open>rest\<close> on the stream.
\<close>

definition reads :: "bytes \<Rightarrow> bytes \<Rightarrow> bytes \<Rightarrow> bool" where
  "reads u b rest \<longleftrightarrow> (\<exists>c x c'. conn_pending c = u \<and> ReadBytesViaStream 1 (Conn c) = ([Data b], x, Conn c') \<and> conn_pending c' = rest)"

definition relay :: "socket_net \<Rightarrow> string \<Rightarrow> chan_msg \<Rightarrow> peer_id \<Rightarrow> socket_system \<Rightarrow> go_stop + (handle \<Rightarrow> net_out)" where
  "relay H proto m p S = ProxySocketDataHandler (sn_unm_data H) proto m (so_nodes S p) (so_outs S)"

definition new_session :: "peer_id \<Rightarrow> peer_id \<Rightarrow> ApronSocketServiceRequest \<Rightarrow> handle \<Rightarrow> net_out \<Rightarrow> socket_session" where
  "new_session p q r h st =
     \<lparr>se_csgw = p, se_ssgw = q, se_req = r, se_client = h, se_ready = False, se_closed = False, se_init = Some st,
      se_service = None, se_resp = None, se_sent_up = [], se_up = [], se_read_up = 0,
      se_sent_down = [], se_down = [], se_read_down = 0\<rparr>"

abbreviation upd_session :: "nat \<Rightarrow> socket_session \<Rightarrow> socket_system \<Rightarrow> socket_system" where
  "upd_session i s S \<equiv> S\<lparr>so_sessions := (so_sessions S)(i \<mapsto> s)\<rparr>"

abbreviation upd_node :: "peer_id \<Rightarrow> Node \<Rightarrow> socket_system \<Rightarrow> socket_system" where
  "upd_node p n S \<equiv> S\<lparr>so_nodes := (so_nodes S)(p := n)\<rparr>"

text \<open>A write to a connection that is closed fails.\<close>

definition closed_conn :: "net_out \<Rightarrow> net_out" where
  "closed_conn w = w\<lparr>werrs := [Some (ErrMsg ''use of closed network connection'')]\<rparr>"

text \<open>
  Panics. Besides those of the set-up and of the forwarding loops: the handler of a message panics,
  the reader panics on a length it cannot allocate, and, when the gateway at the other end of a
  stream has ended, the stream is reset, so that its reader gets an error (the handler panics on it)
  and its writer may too.
\<close>

definition stream_to :: "peer_id \<Rightarrow> socket_system \<Rightarrow> net_out \<Rightarrow> bool" where
  "stream_to q S w \<longleftrightarrow> (q \<in> so_alive S \<longrightarrow> werrs w = [])"

inductive sock_crash :: "socket_net \<Rightarrow> socket_system \<Rightarrow> peer_id \<Rightarrow> bool" for H S where
  crash_open: "csgw_open H uuid ch h c (so_nodes S p) = Inl stop \<Longrightarrow> stop \<noteq> Blocked \<Longrightarrow> sock_crash H S p"
| crash_dial: "so_sessions S i = Some s \<Longrightarrow> se_init s = Some st \<Longrightarrow> conn_pending c = out_bytes st \<Longrightarrow>
    ssgw_dial H res c (so_nodes S (se_ssgw s)) = Inl stop \<Longrightarrow> stop \<noteq> Blocked \<Longrightarrow> sock_crash H S (se_ssgw s)"
| crash_frame: "so_sessions S i = Some s \<Longrightarrow> se_ready s \<Longrightarrow> \<not> se_closed s \<Longrightarrow> stream_to (se_ssgw s) S w \<Longrightarrow>
    csgw_frame H s c w = (Panicked stop, st) \<Longrightarrow> sock_crash H S (se_csgw s)"
| crash_piece: "so_sessions S i = Some s \<Longrightarrow> se_service s \<noteq> None \<Longrightarrow> stream_to (se_csgw s) S w \<Longrightarrow>
    ssgw_piece H s c w = (Panicked stop, st) \<Longrightarrow> sock_crash H S (se_ssgw s)"
| crash_up: "so_sessions S i = Some s \<Longrightarrow> reads (se_up s) b rest \<Longrightarrow>
    relay H ProxySocketDataFromClientSide (Data b) (se_ssgw s) S = Inl stop \<Longrightarrow> sock_crash H S (se_ssgw s)"
| crash_down: "so_sessions S i = Some s \<Longrightarrow> se_resp s = Some p \<Longrightarrow> reads (se_down s) b rest \<Longrightarrow>
    relay H ProxySocketDataFromServiceSide (Data b) p S = Inl stop \<Longrightarrow> sock_crash H S p"
| crash_read_up: "so_sessions S i = Some s \<Longrightarrow> conn_pending c = se_up s \<Longrightarrow>
    ReadBytesViaStream 1 (Conn c) = ([], Some stop, rd) \<Longrightarrow> sock_crash H S (se_ssgw s)"
| crash_read_down: "so_sessions S i = Some s \<Longrightarrow> se_resp s = Some p \<Longrightarrow> conn_pending c = se_down s \<Longrightarrow>
    ReadBytesViaStream 1 (Conn c) = ([], Some stop, rd) \<Longrightarrow> sock_crash H S p"
| crash_reset_up: "so_sessions S i = Some s \<Longrightarrow> se_csgw s \<notin> so_alive S \<Longrightarrow>
    ReadBytesViaStream 1 (Conn c) = (Err err # ms, x, rd) \<Longrightarrow>
    relay H ProxySocketDataFromClientSide (Err err) (se_ssgw s) S = Inl stop \<Longrightarrow> sock_crash H S (se_ssgw s)"
| crash_reset_down: "so_sessions S i = Some s \<Longrightarrow> se_resp s = Some p \<Longrightarrow> se_ssgw s \<notin> so_alive S \<Longrightarrow>
    ReadBytesViaStream 1 (Conn c) = (Err err # ms, x, rd) \<Longrightarrow>
    relay H ProxySocketDataFromServiceSide (Err err) p S = Inl stop \<Longrightarrow> sock_crash H S p"

inductive sock_step :: "socket_net \<Rightarrow> socket_system \<Rightarrow> socket_system \<Rightarrow> bool" for H where
  sock_open: "so_sessions S i = None \<Longrightarrow> p \<in> so_alive S \<Longrightarrow> uuid \<notin> so_uuids S \<Longrightarrow> no_dot uuid \<Longrightarrow> h \<notin> so_handles S \<Longrightarrow>
    csgw_open H uuid ch h c (so_nodes S p) = Inr (Opened q r st st' c', n') \<Longrightarrow>
    sock_step H S ((upd_session i (new_session p q r h st)
      (upd_node p (n'\<lparr>clientSocketConns := clientSocketConns (so_nodes S p)\<rparr>) S))
        \<lparr>so_uuids := insert uuid (so_uuids S), so_handles := insert h (so_handles S)\<rparr>)"
| sock_refuse: "p \<in> so_alive S \<Longrightarrow> csgw_open H uuid ch h c (so_nodes S p) = Inr (Refused t, n') \<Longrightarrow>
    sock_step H S (upd_node p n' S)"
| sock_ready: "so_sessions S i = Some s \<Longrightarrow> se_csgw s \<in> so_alive S \<Longrightarrow> \<not> se_ready s \<Longrightarrow>
    sock_step H S (upd_session i (s\<lparr>se_ready := True\<rparr>)
      (upd_node (se_csgw s) (enter_client (se_id s) (se_client s) (so_nodes S (se_csgw s))) S))"
| sock_dial: "so_sessions S i = Some s \<Longrightarrow> se_ssgw s \<in> so_alive S \<Longrightarrow> se_init s = Some st \<Longrightarrow>
    conn_pending c = out_bytes st \<Longrightarrow> h \<notin> so_handles S \<Longrightarrow>
    ssgw_dial H (Inr (h, from)) c (so_nodes S (se_ssgw s)) = Inr (r, rd, resp, n') \<Longrightarrow> sn_decode H (init_PeerId r) = Inr p \<Longrightarrow>
    sock_step H S ((upd_session i (s\<lparr>se_init := None, se_service := Some h, se_resp := map_option (\<lambda>_. p) resp\<rparr>)
      (upd_node (se_ssgw s) n' S))\<lparr>so_handles := insert h (so_handles S)\<rparr>)"
| sock_frame: "so_sessions S i = Some s \<Longrightarrow> se_csgw s \<in> so_alive S \<Longrightarrow> se_ready s \<Longrightarrow> \<not> se_closed s \<Longrightarrow>
    receive_frame c d c' \<Longrightarrow> csgw_frame H s c no_stream = (Running, st) \<Longrightarrow>
    sock_step H S (upd_session i (s\<lparr>se_sent_up := se_sent_up s @ [d], se_up := se_up s @ out_bytes st\<rparr>) S)"
| sock_close: "so_sessions S i = Some s \<Longrightarrow> se_csgw s \<in> so_alive S \<Longrightarrow> se_ready s \<Longrightarrow> \<not> se_closed s \<Longrightarrow>
    csgw_frame H s c no_stream = (Finished, st) \<Longrightarrow>
    sock_step H S ((upd_session i (s\<lparr>se_closed := True\<rparr>) S)
      \<lparr>so_outs := (so_outs S)(se_client s := closed_conn (so_outs S (se_client s)))\<rparr>)"
| sock_piece: "so_sessions S i = Some s \<Longrightarrow> se_ssgw s \<in> so_alive S \<Longrightarrow> se_service s \<noteq> None \<Longrightarrow>
    receive_piece c d c' \<Longrightarrow> ssgw_piece H s c no_stream = (Running, Some st) \<Longrightarrow>
    sock_step H S (upd_session i (s\<lparr>se_sent_down := se_sent_down s @ [d], se_down := se_down s @ out_bytes st\<rparr>) S)"
| sock_up: "so_sessions S i = Some s \<Longrightarrow> se_ssgw s \<in> so_alive S \<Longrightarrow> reads (se_up s) b rest \<Longrightarrow>
    relay H ProxySocketDataFromClientSide (Data b) (se_ssgw s) S = Inr outs \<Longrightarrow>
    sock_step H S ((upd_session i (s\<lparr>se_up := rest, se_read_up := Suc (se_read_up s)\<rparr>) S)
      \<lparr>so_outs := outs, so_whole := so_whole S \<and> se_up s = frame b @ rest\<rparr>)"
| sock_down: "so_sessions S i = Some s \<Longrightarrow> se_resp s = Some p \<Longrightarrow> p \<in> so_alive S \<Longrightarrow> reads (se_down s) b rest \<Longrightarrow>
    relay H ProxySocketDataFromServiceSide (Data b) p S = Inr outs \<Longrightarrow>
    sock_step H S ((upd_session i (s\<lparr>se_down := rest, se_read_down := Suc (se_read_down s)\<rparr>) S)
      \<lparr>so_outs := outs, so_whole := so_whole S \<and> se_down s = frame b @ rest\<rparr>)"
| sock_dies: "sock_crash H S p \<Longrightarrow> sock_step H S (S\<lparr>so_alive := so_alive S - {p}\<rparr>)"
| sock_register: "p \<in> so_alive S \<Longrightarrow> registers q sv (so_nodes S p) n' \<Longrightarrow> sock_step H S (upd_node p n' S)"
| sock_prune: "p \<in> so_alive S \<Longrightarrow> prunes ps (so_nodes S p) n' \<Longrightarrow> sock_step H S (upd_node p n' S)"

definition sock_start :: "socket_system \<Rightarrow> bool" where
  "sock_start S \<longleftrightarrow>
     (\<forall>p. node_inv (so_nodes S p) \<and> node_Host (so_nodes S p) = p \<and> clientSocketConns (so_nodes S p) = Map.empty \<and>
        serviceSocketConns (so_nodes S p) = Map.empty) \<and>
     so_sessions S = Map.empty \<and> so_outs S = (\<lambda>_. no_stream) \<and> so_whole S"

text \<open>
  What is relied on: messages are read as they were sent, below the allocation limit, a peer id is
  decoded from its text, new streams are empty and accept what is written. \<open>Wire\<close> gives the laws of
  the codecs.
\<close>

definition socket_net_ok :: "socket_net \<Rightarrow> bool" where
  "socket_net_ok H \<longleftrightarrow>
     (\<forall>r b. sn_mar_req H r = Inr b \<longrightarrow> length b \<le> max_alloc \<and> sn_unm_init H b = Inr
        \<lparr>init_ServiceId = sreq_ServiceId r, init_RequestId = sreq_RequestId r, init_PeerId = sreq_PeerId r, init_UserId = []\<rparr>) \<and>
     (\<forall>d b. sn_mar_data H d = Inr b \<longrightarrow> length b \<le> max_alloc \<and> sn_unm_data H b = Inr d) \<and>
     (\<forall>p. sn_decode H (sn_id H p) = Inr p) \<and>
     (\<forall>p proto st. sn_newStream H p proto = Inr st \<longrightarrow> st = no_stream)"

section \<open>Single operations\<close>

definition carries :: "socket_net \<Rightarrow> string \<Rightarrow> bytes \<Rightarrow> bytes \<Rightarrow> bool" where
  "carries H k d u \<longleftrightarrow> (\<exists>b. sn_mar_data H \<lparr>dat_RequestId = k, dat_RawData = d\<rparr> = Inr b \<and> u = frame b)"

text \<open>An operation that leaves the tables of connections of a gateway alone.\<close>

definition same_tables :: "Node \<Rightarrow> Node \<Rightarrow> bool" where
  "same_tables n n' \<longleftrightarrow> node_inv n' \<and> node_Host n' = node_Host n \<and> clientSocketConns n' = clientSocketConns n \<and>
     serviceSocketConns n' = serviceSocketConns n"

lemma socket_net_okD:
  assumes "socket_net_ok H"
  shows "sn_mar_req H r = Inr b \<Longrightarrow> length b \<le> max_alloc"
    and "sn_mar_req H r = Inr b \<Longrightarrow> sn_unm_init H b = Inr
        \<lparr>init_ServiceId = sreq_ServiceId r, init_RequestId = sreq_RequestId r, init_PeerId = sreq_PeerId r, init_UserId = []\<rparr>"
    and "sn_mar_data H d = Inr b \<Longrightarrow> length b \<le> max_alloc"
    and "sn_mar_data H d = Inr b \<Longrightarrow> sn_unm_data H b = Inr d"
    and "sn_decode H (sn_id H p) = Inr p"
    and "sn_newStream H p proto = Inr st \<Longrightarrow> st = no_stream"
  using assms by (auto simp: socket_net_ok_def)

text \<open>How the handler of a new connection goes on once it has read an init request.\<close>

lemma csgw_open_cases:
  assumes inv: "node_inv n" and o: "csgw_open H uuid ch h c n = Inr (res, n')"
  obtains t where "res = Refused t" "n' = n"
  | t k where "res = Refused t" "n' = note_request k ch n"
  | init :: ApronSocketInitRequest and p st0 st1 st2 r c' b where "sn_newStream H p ProxySocketInitReq = Inr st0"
      "sn_newStream H p ProxySocketDataFromClientSide = Inr st2"
      "r = \<lparr>sreq_ServiceId = init_ServiceId init, sreq_RequestId = make_request_id (init_UserId init) (init_ServiceId init) uuid,
         sreq_PeerId = sn_id H (node_Host n)\<rparr>"
      "sn_mar_req H r = Inr b" "WriteBytesViaStream st0 b = (Inr (), st1)" "res = Opened p r st1 st2 c'"
      "n' = enter_client (sreq_RequestId r) h (note_request (sreq_RequestId r) ch n)"
proof -
  obtain init c' where i: "read_init_request (sn_unm_init H) c = Inr (init, c')"
    using o by (cases "read_init_request (sn_unm_init H) c") (auto simp: csgw_open_def StartSocketForwardService_def)
  have u: "Unlock (n\<lparr>node_mutex := True\<rparr>) = n" "Lock n = Inr (n\<lparr>node_mutex := True\<rparr>)"
    using inv by (cases n; simp add: node_inv_def Unlock_def Lock_def)+
  show ?thesis
  proof (cases "directory n (init_ServiceId init)")
    case None
    then have "res = Refused ''ClientSideGateway: Service not found''" "n' = n"
      using o i u inv by (auto simp: csgw_open_def StartSocketForwardService_def directory_def node_inv_def
          split: option.splits)
    then show ?thesis
      using that(1) by blast
  next
    case (Some ps)
    then obtain p s where d: "servicePeerMapping n (init_ServiceId init) = Some p" "services n (init_ServiceId init) = Some s"
      by (cases ps) (auto simp: directory_Some_iff)
    have id: "svc_Id s = init_ServiceId init"
      using d(2) inv by (simp add: node_inv_def)
    let ?r = "\<lparr>sreq_ServiceId = init_ServiceId init, sreq_RequestId = make_request_id (init_UserId init) (init_ServiceId init) uuid,
         sreq_PeerId = sn_id H (node_Host n)\<rparr>"
    let ?n = "note_request (sreq_RequestId ?r) ch n"
    have eq: "csgw_open H uuid ch h c n =
        (if svc_Providers s = [] then Inr (Refused ''ClientSideGateway: Service data error, contract help'', n)
         else case sn_newStream H p ProxySocketInitReq of
             Inl err \<Rightarrow> Inr (Refused [], ?n)
           | Inr st0 \<Rightarrow> bindP (must (sn_mar_req H ?r)) (\<lambda>b. bindP (commit (WriteBytesViaStream st0 b)) (\<lambda>st1.
               case sn_newStream H p ProxySocketDataFromClientSide of
                 Inl err \<Rightarrow> Inr (Refused [], ?n)
               | Inr st2 \<Rightarrow> Inr (Opened p ?r st1 st2 c', enter_client (sreq_RequestId ?r) h ?n))))"
      by (simp add: csgw_open_def StartSocketForwardService_def i u d id Let_def note_request_def enter_client_def
          cong: sum.case_cong if_cong)
    show ?thesis
    proof (cases "svc_Providers s = []")
      case True
      then show ?thesis
        using eq o that(1) by auto
    next
      case False
      show ?thesis
      proof (cases "sn_newStream H p ProxySocketInitReq")
        case (Inl err)
        then show ?thesis
          using eq o False that(2) by simp
      next
        case st0: (Inr st0)
        then obtain b where m: "sn_mar_req H ?r = Inr b"
          using eq o False by (cases "sn_mar_req H ?r") simp_all
        obtain st1 where w: "WriteBytesViaStream st0 b = (Inr (), st1)"
          using eq o False st0 m by (cases "WriteBytesViaStream st0 b" rule: prod.exhaust)
            (auto simp: commit_def split: sum.splits)
        show ?thesis
        proof (cases "sn_newStream H p ProxySocketDataFromClientSide")
          case (Inl err)
          then show ?thesis
            using eq o False st0 m w Inl that(2) by (simp add: commit_def)
        next
          case (Inr st2)
          then show ?thesis
            using eq o False st0 m w Inr that(3) [OF st0 Inr refl m w, of c'] by (simp add: commit_def)
        qed
      qed
    qed
  qed
qed

lemma same_tables_note [simp]: "same_tables n (note_request k ch n) = node_inv n"
  by (simp add: same_tables_def) (simp add: note_request_def)

lemma opened_session:
  assumes ok: "socket_net_ok H" and inv: "node_inv n"
    and o: "csgw_open H uuid ch h c n = Inr (Opened q r st st' c', n')"
  shows "(\<exists>u k b. sreq_RequestId r = make_request_id u k uuid \<and> sreq_PeerId r = sn_id H (node_Host n) \<and>
      sn_mar_req H r = Inr b \<and> out_bytes st = frame b) \<and>
    same_tables n (n'\<lparr>clientSocketConns := clientSocketConns n\<rparr>) \<and>
    n' = enter_client (sreq_RequestId r) h (n'\<lparr>clientSocketConns := clientSocketConns n\<rparr>)"
proof (cases rule: csgw_open_cases [OF inv o, case_names Refused Noted Opened])
  case (Opened init p st0 st1 st2 r' c'' b)
  have "st0 = no_stream"
    by (rule socket_net_okD(6) [OF ok Opened(1)])
  then have "out_bytes st = frame b"
    using Opened(5,6) write_no_stream by simp
  moreover have "n'\<lparr>clientSocketConns := clientSocketConns n\<rparr> = note_request (sreq_RequestId r) ch n"
    using Opened(6,7) by (simp add: enter_client_def note_request_def)
  ultimately show ?thesis
    using Opened(3,4,6,7) inv by auto
qed simp_all

lemma refused_session:
  assumes "node_inv n" and "csgw_open H uuid ch h c n = Inr (Refused t, n')"
  shows "same_tables n n'"
  using assms(1) by (cases rule: csgw_open_cases [OF assms]) (simp_all add: same_tables_def [of n n])

lemma registry_same_tables:
  assumes "node_inv n"
  shows "registers q s n n' \<Longrightarrow> same_tables n n'" and "prunes ps n n' \<Longrightarrow> same_tables n n'"
proof -
  show "same_tables n n'" if r: "registers q s n n'"
    using registry_keeps(1) [OF assms r] registers_enters [OF assms r] by (simp add: same_tables_def enter_service_def)
  show "same_tables n n'" if "prunes ps n n'"
    using registry_keeps(2) [OF assms that] UpdatePeers_eq [OF assms] that
    by (auto simp: same_tables_def prunes_def drop_services_def)
qed

lemma frame_from_stream:
  assumes "conn_pending c = frame b" and "length b \<le> max_alloc"
  shows "fst (ReadOneFrameDataFromStream (Conn c)) = Inr (Inr b)"
  using read_frame_ok [of "NewReader c" b "[]"] assms by (auto simp: ReadOneFrameDataFromStream_def)

lemma dialled_session:
  assumes ok: "socket_net_ok H" and m: "sn_mar_req H r = Inr b" and "conn_pending c = frame b"
    and d: "ssgw_dial H (Inr (h, from)) c n = Inr (x, rd, resp, n')"
  shows "n' = n\<lparr>serviceSocketConns := (serviceSocketConns n)(sreq_RequestId r \<mapsto> h)\<rparr> \<and> init_PeerId x = sreq_PeerId r"
proof (cases "svc_Providers (service_at n (sreq_ServiceId r))")
  case Nil
  then show ?thesis
    using d socket_net_okD(2) [OF ok m] frame_from_stream [OF assms(3) socket_net_okD(1) [OF ok m]]
    by (simp add: ssgw_dial_def ProxySocketInitReqHandler_def bindP_Inr_iff must_Inr_iff)
next
  case (Cons prov provs)
  then show ?thesis
    using d socket_net_okD(2) [OF ok m] frame_from_stream [OF assms(3) socket_net_okD(1) [OF ok m]]
    by (auto simp: ssgw_dial_def ProxySocketInitReqHandler_def bindP_Inr_iff must_Inr_iff Let_def)
qed

lemma forwarded_carries:
  "forward_data (sn_mar_data H) k d no_stream = (Inr (), st) \<Longrightarrow> carries H k d (out_bytes st)"
  using write_no_stream by (auto simp: forward_data_def carries_def split: sum.splits)

lemma framed_message:
  assumes "receive_frame c d c'" and "csgw_frame H s c no_stream = (Running, st)"
  shows "carries H (se_id s) d (out_bytes st)"
proof -
  obtain r where "read_frame (NewReader c) = (Inr (Inr d), r)"
    using assms(1) by (auto simp: receive_frame_def)
  then have "forward_data (sn_mar_data H) (se_id s) d no_stream = (Inr (), st)"
    using assms(2) by (cases "forward_data (sn_mar_data H) (se_id s) d no_stream") (simp add: csgw_frame_def split: sum.splits)
  then show ?thesis
    by (rule forwarded_carries)
qed

lemma piece_message:
  assumes "receive_piece c d c'" and "ssgw_piece H s c no_stream = (Running, Some st)"
  shows "carries H (se_id s) d (out_bytes st) \<and> se_resp s \<noteq> None"
proof (cases "se_resp s")
  case None
  then show ?thesis
    using assms by (simp add: ssgw_piece_def receive_piece_def split: sum.splits)
next
  case (Some p)
  then have "forward_data (sn_mar_data H) (se_id s) d no_stream = (Inr (), st)"
    using assms by (cases "forward_data (sn_mar_data H) (se_id s) d no_stream")
      (simp add: ssgw_piece_def receive_piece_def split: sum.splits)
  then show ?thesis
    using Some forwarded_carries by simp
qed

text \<open>
  Reading a stream that starts with a complete frame. The read always gives that frame, but what is
  left behind it is up to the network: everything, or, when it is short enough to arrive in the same
  piece, nothing.
\<close>

lemma reader_data:
  "ReadBytesViaStream 1 (Conn c) = ([Data b], x, Conn c') \<longleftrightarrow>
     (\<exists>r. read_frame (NewReader c) = (Inr (Inr b), r) \<and> x = None \<and> c' = under r)"
proof (cases "read_frame (NewReader c)")
  case (Pair res r)
  then show ?thesis
    by (cases res) (auto simp: ReadOneFrameDataFromStream_def split: sum.splits)
qed

lemma reads_iff:
  "reads u b rest \<longleftrightarrow> (\<exists>c r. conn_pending c = u \<and> read_frame (NewReader c) = (Inr (Inr b), r) \<and> conn_pending (under r) = rest)"
  unfolding reads_def reader_data by blast

lemma reads_first:
  assumes "reads (frame b @ u) b' rest" and "length b \<le> max_alloc"
  shows "b' = b"
  using assms read_frame_ok [of "NewReader _", OF _ assms(2)] unfolding reads_iff by fastforce

lemma reads_whole:
  assumes "length b \<le> max_alloc"
  shows "reads (frame b @ u) b u"
proof -
  have "ReadOneFrameDataFromStream (Conn \<lparr>chunks = [frame b, u], fin = EOF\<rparr>) = (Inr (Inr b), Conn \<lparr>chunks = [u], fin = EOF\<rparr>)"
    using read_fresh_aligned [of "\<lparr>chunks = [frame b, u], fin = EOF\<rparr>" "[frame b]" "[u]" b] assms frame_not_Nil [of b] by force
  then show ?thesis
    unfolding reads_def by (intro exI [of _ "\<lparr>chunks = [frame b, u], fin = EOF\<rparr>"]) (simp add: conn_pending_def)
qed

lemma reads_joined:
  assumes "length (frame b @ u) \<le> defaultBufSize"
  shows "reads (frame b @ u) b []"
  using fresh_reader_loses_rest [of "\<lparr>chunks = [frame b @ u], fin = EOF\<rparr>" b u "[]"] assms
  unfolding reads_def by (intro exI [of _ "\<lparr>chunks = [frame b @ u], fin = EOF\<rparr>"]) (simp add: conn_pending_def)

lemma reads_carried:
  assumes ok: "socket_net_ok H" and "carries H k d u"
  shows "reads (u @ u') b rest \<Longrightarrow> sn_mar_data H \<lparr>dat_RequestId = k, dat_RawData = d\<rparr> = Inr b \<and> u = frame b"
    and "\<exists>b. reads (u @ u') b u'"
  using assms(2) reads_first reads_whole socket_net_okD(3) [OF ok] unfolding carries_def by blast+

text \<open>Whatever was read, a handler that does not panic writes one frame to a connection of its table.\<close>

lemma relay_Inr:
  assumes "relay H proto (Data b) p S = Inr outs"
  shows "\<exists>k d h w. socket_conns proto (so_nodes S p) k = Some h \<and> WriteBytesViaStream (so_outs S h) d = (Inr (), w) \<and>
    outs = (so_outs S)(h := w)"
  using assms unfolding relay_def ProxySocketDataHandler_def socket_conns_def
  by (auto simp: bindP_Inr_iff must_Inr_iff commit_Inr_iff Let_def split: option.splits if_splits) blast+

lemma relayed_message:
  assumes ok: "socket_net_ok H" and m: "sn_mar_data H \<lparr>dat_RequestId = k, dat_RawData = d\<rparr> = Inr b"
    and proto: "proto = ProxySocketDataFromClientSide \<or> proto = ProxySocketDataFromServiceSide"
  shows "relay H proto (Data b) p S = (case socket_conns proto (so_nodes S p) k of
       None \<Rightarrow> Inl PanicNil
     | Some h \<Rightarrow> bindP (commit (WriteBytesViaStream (so_outs S h) d)) (\<lambda>w. Inr ((so_outs S)(h := w))))"
proof -
  have "ProxySocketDataFromServiceSide \<noteq> ProxySocketDataFromClientSide"
    by (simp add: protocol_defs)
  then show ?thesis
    using proto by (elim disjE) (simp_all add: relay_def ProxySocketDataHandler_def socket_conns_def
        socket_net_okD(4) [OF ok m] cong: option.case_cong)
qed

section \<open>The invariant\<close>

text \<open>The tables of the gateways hold the connections of their sessions, each under its request id.\<close>

definition some_session :: "(nat \<rightharpoonup> socket_session) \<Rightarrow> (socket_session \<Rightarrow> bool) \<Rightarrow> bool" where
  "some_session m P \<longleftrightarrow> (\<exists>i s. m i = Some s \<and> P s)"

definition entered :: "socket_system \<Rightarrow> peer_id \<Rightarrow> string \<Rightarrow> handle \<Rightarrow> bool" where
  "entered S p k h \<longleftrightarrow>
     some_session (so_sessions S) (\<lambda>s. se_csgw s = p \<and> se_ready s \<and> se_id s = k \<and> se_client s = h)"

definition dialled :: "socket_system \<Rightarrow> peer_id \<Rightarrow> string \<Rightarrow> handle \<Rightarrow> bool" where
  "dialled S p k h \<longleftrightarrow> some_session (so_sessions S) (\<lambda>s. se_ssgw s = p \<and> se_id s = k \<and> se_service s = Some h)"

lemma some_session_new: "m i = None \<Longrightarrow> some_session (m(i \<mapsto> s)) P \<longleftrightarrow> P s \<or> some_session m P"
  by (auto simp: some_session_def) (metis option.distinct(1))

lemma some_session_changed:
  assumes "m i = Some s"
  shows "P s' = P s \<Longrightarrow> some_session (m(i \<mapsto> s')) P \<longleftrightarrow> some_session m P"
    and "\<not> P s \<Longrightarrow> some_session (m(i \<mapsto> s')) P \<longleftrightarrow> P s' \<or> some_session m P"
  using assms unfolding some_session_def by (auto split: if_splits) (metis option.inject)+

lemmas table_defs = entered_def dialled_def fun_eq_iff

definition tables_inv :: "socket_system \<Rightarrow> bool" where
  "tables_inv S \<longleftrightarrow>
     (\<forall>p. node_inv (so_nodes S p) \<and> node_Host (so_nodes S p) = p) \<and>
     (\<forall>p k h. clientSocketConns (so_nodes S p) k = Some h \<longleftrightarrow> entered S p k h) \<and>
     (\<forall>p k h. serviceSocketConns (so_nodes S p) k = Some h \<longleftrightarrow> dialled S p k h)"

text \<open>No two sessions have the same request id.\<close>

definition id_ok :: "socket_net \<Rightarrow> string set \<Rightarrow> socket_session \<Rightarrow> bool" where
  "id_ok H U s \<longleftrightarrow> sreq_PeerId (se_req s) = sn_id H (se_csgw s) \<and>
     (\<exists>u k uuid. se_id s = make_request_id u k uuid \<and> uuid \<in> U \<and> no_dot uuid)"

definition ids_inv :: "socket_net \<Rightarrow> socket_system \<Rightarrow> bool" where
  "ids_inv H S \<longleftrightarrow>
     (\<forall>i s. so_sessions S i = Some s \<longrightarrow> id_ok H (so_uuids S) s) \<and>
     (\<forall>i j s t. so_sessions S i = Some s \<longrightarrow> so_sessions S j = Some t \<longrightarrow> se_id s = se_id t \<longrightarrow> i = j)"

lemma id_ok_mono: "id_ok H U s \<Longrightarrow> id_ok H (insert x U) s"
  by (auto simp: id_ok_def)

text \<open>No two sessions share a connection, and nothing is written to a connection of no session.\<close>

definition ends :: "socket_session \<Rightarrow> handle set" where
  "ends s = insert (se_client s) (set_option (se_service s))"

definition ends_inv :: "socket_system \<Rightarrow> bool" where
  "ends_inv S \<longleftrightarrow>
     (\<forall>i s. so_sessions S i = Some s \<longrightarrow> ends s \<subseteq> so_handles S \<and> se_service s \<noteq> Some (se_client s)) \<and>
     (\<forall>i j s t. so_sessions S i = Some s \<longrightarrow> so_sessions S j = Some t \<longrightarrow> i \<noteq> j \<longrightarrow> ends s \<inter> ends t = {}) \<and>
     (\<forall>h. (\<forall>i s. so_sessions S i = Some s \<longrightarrow> h \<notin> ends s) \<longrightarrow> so_outs S h = no_stream)"

text \<open>
  What is unread of a stream that carries only whole messages, and a direction of a session of which
  \<open>n\<close> messages were read: they arrived, framed, and the others are unread.
\<close>

definition unread :: "socket_net \<Rightarrow> string \<Rightarrow> bytes list \<Rightarrow> bytes \<Rightarrow> bool" where
  "unread H k ds u \<longleftrightarrow> (\<exists>us. list_all2 (carries H k) ds us \<and> u = concat us)"

definition flow :: "socket_net \<Rightarrow> string \<Rightarrow> bytes list \<Rightarrow> nat \<Rightarrow> bytes \<Rightarrow> bytes \<Rightarrow> bool" where
  "flow H k ds n u arrived \<longleftrightarrow> n \<le> length ds \<and> unread H k (drop n ds) u \<and> arrived = concat (map frame (take n ds))"

definition service_out :: "(handle \<Rightarrow> net_out) \<Rightarrow> socket_session \<Rightarrow> bytes" where
  "service_out outs s = (case se_service s of None \<Rightarrow> [] | Some h \<Rightarrow> out_bytes (outs h))"

text \<open>What holds of a session in every state, and what holds as long as messages were read whole.\<close>

definition session_ok :: "socket_net \<Rightarrow> (handle \<Rightarrow> net_out) \<Rightarrow> socket_session \<Rightarrow> bool" where
  "session_ok H outs s \<longleftrightarrow>
     (se_service s = None \<longrightarrow> unread H (se_id s) (se_sent_up s) (se_up s)) \<and>
     (\<not> se_ready s \<longrightarrow> unread H (se_id s) (se_sent_down s) (se_down s)) \<and>
     (\<forall>st. se_init s = Some st \<longrightarrow> (\<exists>b. sn_mar_req H (se_req s) = Inr b \<and> out_bytes st = frame b)) \<and>
     (se_init s = None \<longleftrightarrow> se_service s \<noteq> None) \<and> (se_service s = None \<longrightarrow> se_resp s = None) \<and>
     (se_resp s = None \<longrightarrow> se_sent_down s = [] \<and> se_down s = []) \<and> se_resp s \<in> {None, Some (se_csgw s)} \<and>
     (\<forall>h. se_service s = Some h \<longrightarrow> werrs (outs h) = []) \<and>
     (if se_closed s then se_ready s \<and> (\<exists>w. outs (se_client s) = closed_conn w) else werrs (outs (se_client s)) = []) \<and>
     (\<not> se_ready s \<longrightarrow> outs (se_client s) = no_stream)"

definition session_flows :: "socket_net \<Rightarrow> (handle \<Rightarrow> net_out) \<Rightarrow> socket_session \<Rightarrow> bool" where
  "session_flows H outs s \<longleftrightarrow>
     flow H (se_id s) (se_sent_up s) (se_read_up s) (se_up s) (service_out outs s) \<and>
     flow H (se_id s) (se_sent_down s) (se_read_down s) (se_down s) (out_bytes (outs (se_client s)))"

definition sock_inv :: "socket_net \<Rightarrow> socket_system \<Rightarrow> bool" where
  "sock_inv H S \<longleftrightarrow> tables_inv S \<and> ids_inv H S \<and> ends_inv S \<and>
     (\<forall>i s. so_sessions S i = Some s \<longrightarrow> session_ok H (so_outs S) s \<and> (so_whole S \<longrightarrow> session_flows H (so_outs S) s))"

lemma sock_start_inv: "sock_start S \<Longrightarrow> sock_inv H S"
  by (simp add: sock_start_def sock_inv_def tables_inv_def ids_inv_def ends_inv_def table_defs some_session_def)

lemma sock_invD:
  assumes "sock_inv H S"
  shows "tables_inv S" and "ids_inv H S" and "ends_inv S"
    and "so_sessions S i = Some s \<Longrightarrow> session_ok H (so_outs S) s"
    and "node_inv (so_nodes S p)" and "node_Host (so_nodes S p) = p"
    and "so_sessions S i = Some s \<Longrightarrow> so_whole S \<Longrightarrow> session_flows H (so_outs S) s"
  using assms by (simp_all add: sock_inv_def tables_inv_def)

lemma same_id: "ids_inv H S \<Longrightarrow> so_sessions S i = Some s \<Longrightarrow> so_sessions S j = Some t \<Longrightarrow> se_id s = se_id t \<Longrightarrow> i = j \<and> s = t"
  unfolding ids_inv_def by (metis option.inject)

lemma session_ok_cong: "\<forall>h \<in> ends s. outs' h = outs h \<Longrightarrow> session_ok H outs' s = session_ok H outs s"
  by (simp add: session_ok_def ends_def)

lemma session_flows_cong: "\<forall>h \<in> ends s. outs' h = outs h \<Longrightarrow> session_flows H outs' s = session_flows H outs s"
  by (simp add: session_flows_def service_out_def ends_def split: option.split)

lemma session_okD:
  assumes "session_ok H outs s"
  shows "se_service s = None \<Longrightarrow> unread H (se_id s) (se_sent_up s) (se_up s)"
    and "\<not> se_ready s \<Longrightarrow> unread H (se_id s) (se_sent_down s) (se_down s)"
    and "se_init s = Some st \<Longrightarrow> \<exists>b. sn_mar_req H (se_req s) = Inr b \<and> out_bytes st = frame b"
    and "se_init s = None \<longleftrightarrow> se_service s \<noteq> None" and "se_service s = None \<Longrightarrow> se_resp s = None"
    and "se_resp s = None \<Longrightarrow> se_sent_down s = [] \<and> se_down s = []" and "se_resp s = Some p \<Longrightarrow> p = se_csgw s"
    and "se_service s = Some h \<Longrightarrow> werrs (outs h) = []"
    and "if se_closed s then se_ready s \<and> (\<exists>w. outs (se_client s) = closed_conn w) else werrs (outs (se_client s)) = []"
    and "\<not> se_ready s \<Longrightarrow> outs (se_client s) = no_stream"
  using assms by (simp_all add: session_ok_def)

text \<open>Messages put on a stream and taken off it.\<close>

lemma unread_Nil [simp]: "unread H k [] u \<longleftrightarrow> u = []"
  by (simp add: unread_def)

lemma unread_send:
  assumes "unread H k ds u" and "carries H k d v"
  shows "unread H k (ds @ [d]) (u @ v)"
proof -
  obtain us where us: "list_all2 (carries H k) ds us" "u = concat us"
    using assms(1) unfolding unread_def by blast
  then have "list_all2 (carries H k) (ds @ [d]) (us @ [v])"
    using assms(2) by (intro list_all2_appendI) simp_all
  then show ?thesis
    using us(2) unfolding unread_def by (intro exI [of _ "us @ [v]"]) simp
qed

lemma unread_Cons: "unread H k (d # ds) u \<longleftrightarrow> (\<exists>v u'. u = v @ u' \<and> carries H k d v \<and> unread H k ds u')"
proof
  assume "unread H k (d # ds) u"
  then show "\<exists>v u'. u = v @ u' \<and> carries H k d v \<and> unread H k ds u'"
    unfolding unread_def list_all2_Cons1 by fastforce
next
  assume "\<exists>v u'. u = v @ u' \<and> carries H k d v \<and> unread H k ds u'"
  then obtain v us where "u = concat (v # us)" "list_all2 (carries H k) (d # ds) (v # us)"
    unfolding unread_def by auto
  then show "unread H k (d # ds) u"
    unfolding unread_def by blast
qed

lemma unread_first:
  assumes "unread H k ds u" and "u \<noteq> []"
  obtains d ds' v u' where "ds = d # ds'" "u = v @ u'" "carries H k d v" "unread H k ds' u'"
  using assms by (cases ds) (auto simp: unread_Cons)

lemma flow_send: "flow H k ds n u b \<Longrightarrow> carries H k d v \<Longrightarrow> flow H k (ds @ [d]) n (u @ v) b"
  by (simp add: flow_def unread_send)

lemma flow_first:
  assumes "flow H k ds n u b" and "u \<noteq> []"
  obtains d v u' where "ds ! n = d" "u = v @ u'" "carries H k d v" "n < length ds" "flow H k ds (Suc n) u' (b @ frame d)"
proof -
  have f: "n \<le> length ds" "unread H k (drop n ds) u" "b = concat (map frame (take n ds))"
    using assms(1) by (simp_all add: flow_def)
  obtain d ds' v u' where d: "drop n ds = d # ds'" "u = v @ u'" "carries H k d v" "unread H k ds' u'"
    using unread_first [OF f(2) assms(2)] by blast
  have n: "n < length ds"
    using d(1) by (metis drop_all linorder_not_le list.distinct(1))
  then have "d = ds ! n" "ds' = drop (Suc n) ds"
    using d(1) Cons_nth_drop_Suc [OF n] by simp_all
  then show ?thesis
    using that [of d v u'] d n f(3) by (simp add: flow_def take_Suc_conv_app_nth)
qed

lemma reads_not_empty: "reads u b rest \<Longrightarrow> u \<noteq> []"
  using read_frame_end [of "NewReader _"] unfolding reads_iff by fastforce

text \<open>Steps that change a registry, and no table.\<close>

lemma inv_node:
  assumes inv: "sock_inv H S" and n: "same_tables (so_nodes S p) n'"
  shows "sock_inv H (upd_node p n' S)"
proof -
  have "entered (upd_node p n' S) = entered S" "dialled (upd_node p n' S) = dialled S"
    by (simp_all add: table_defs)
  then show ?thesis
    using inv n by (simp add: sock_inv_def tables_inv_def same_tables_def ids_inv_def ends_inv_def)
qed

lemma ends_inv_session:
  assumes inv: "ends_inv S" and apart: "\<And>j t. so_sessions S j = Some t \<Longrightarrow> j \<noteq> i \<Longrightarrow> ends s' \<inter> ends t = {}"
    and s': "ends s' \<subseteq> Hs" "so_handles S \<subseteq> Hs" "se_service s' \<noteq> Some (se_client s')"
    and old: "\<And>s. so_sessions S i = Some s \<Longrightarrow> ends s \<subseteq> ends s'"
    and outs: "\<And>h. h \<notin> ends s' \<Longrightarrow> outs h = so_outs S h"
    and eq: "so_sessions S' = (so_sessions S)(i \<mapsto> s')" "so_handles S' = Hs" "so_outs S' = outs"
  shows "ends_inv S'"
  unfolding ends_inv_def eq
proof (intro conjI allI impI)
  fix j t assume t: "((so_sessions S)(i \<mapsto> s')) j = Some t"
  show "ends t \<subseteq> Hs" "se_service t \<noteq> Some (se_client t)"
    using t inv s' unfolding ends_inv_def by (auto split: if_splits) blast
next
  fix j k t u assume "((so_sessions S)(i \<mapsto> s')) j = Some t" "((so_sessions S)(i \<mapsto> s')) k = Some u" "j \<noteq> k"
  then show "ends t \<inter> ends u = {}"
    using inv apart unfolding ends_inv_def by (auto split: if_splits)
next
  fix h assume h: "\<forall>j t. ((so_sessions S)(i \<mapsto> s')) j = Some t \<longrightarrow> h \<notin> ends t"
  then have "h \<notin> ends s'"
    by (metis fun_upd_same)
  moreover have "h \<notin> ends t" if "so_sessions S j = Some t" for j t
    using spec [OF spec [OF h, of j], of t] that old [of t] \<open>h \<notin> ends s'\<close> by (cases "j = i") auto
  ultimately show "outs h = no_stream"
    using outs inv unfolding ends_inv_def by metis
qed

text \<open>Steps of one session that open no connection and write to none of the others'.\<close>

lemma inv_session:
  assumes inv: "sock_inv H S" and i: "so_sessions S i = Some s"
    and s': "se_csgw s' = se_csgw s" "se_ssgw s' = se_ssgw s" "se_req s' = se_req s" "se_client s' = se_client s"
      "se_ready s' = se_ready s" "se_service s' = se_service s"
    and outs: "\<forall>h. h \<notin> ends s \<longrightarrow> outs h = so_outs S h" and ok: "session_ok H outs s'"
    and w: "w \<Longrightarrow> so_whole S \<and> session_flows H outs s'"
  shows "sock_inv H ((upd_session i s' S)\<lparr>so_outs := outs, so_whole := w\<rparr>)" (is "sock_inv H ?S")
proof -
  note I = sock_invD [OF inv]
  have e: "ends s' = ends s"
    using s' by (simp add: ends_def)
  have "entered ?S = entered S" "dialled ?S = dialled S"
    using i s' by (simp_all add: table_defs some_session_changed)
  then have "tables_inv ?S"
    using I(1) by (simp add: tables_inv_def)
  moreover have "ids_inv H ?S"
    using I(2) i s' unfolding ids_inv_def id_ok_def by (simp, metis)
  moreover have "ends_inv ?S"
    by (rule ends_inv_session [OF I(3), where i = i and s' = s' and Hs = "so_handles S" and outs = outs])
      (use I(3) i s'(4,6) outs in \<open>unfold ends_inv_def e, auto\<close>)
  moreover have "session_ok H outs t \<and> (w \<longrightarrow> session_flows H outs t)" if t: "so_sessions S j = Some t" "j \<noteq> i" for j t
  proof -
    have "ends t \<inter> ends s = {}"
      using I(3) t i unfolding ends_inv_def by blast
    then have same: "\<forall>h \<in> ends t. outs h = so_outs S h"
      using outs by auto
    show ?thesis
      using session_ok_cong [OF same] session_flows_cong [OF same] I(4,7) [OF t(1)] w by blast
  qed
  ultimately show ?thesis
    using ok w by (simp add: sock_inv_def)
qed

text \<open>A write to a connection of a table, by whatever session.\<close>

lemma table_owner:
  assumes inv: "sock_inv H S" and "socket_conns proto (so_nodes S p) k = Some h"
  obtains j t where "so_sessions S j = Some t" "h \<in> ends t" "h = se_client t \<longrightarrow> se_ready t"
proof -
  note I = sock_invD [OF inv]
  have "entered S p k h \<or> dialled S p k h"
    using assms(2) I(1) by (auto simp: socket_conns_def tables_inv_def split: if_splits)
  then obtain j t where t: "so_sessions S j = Some t" "(se_ready t \<and> h = se_client t) \<or> se_service t = Some h"
    unfolding entered_def dialled_def some_session_def by blast
  then have "h \<in> ends t" "h = se_client t \<longrightarrow> se_ready t"
    using I(3) unfolding ends_inv_def by (auto simp: ends_def)
  then show ?thesis
    using that t(1) by blast
qed

lemma Write_Inr: "WriteBytesViaStream w d = (Inr (), w') \<Longrightarrow> werrs w = [] \<Longrightarrow>
    werrs w' = [] \<and> out_bytes w' = out_bytes w @ frame d"
  by (auto simp: WriteBytesViaStream_ok out_bytes_def frame_def)

lemma Write_closed: "commit (WriteBytesViaStream (closed_conn w) d) = Inl (PanicErr (ErrMsg ''use of closed network connection''))"
  by (simp add: commit_def WriteBytesViaStream_def closed_conn_def conn_write_def CheckError_def Let_def)

lemma Write_closed_fails: "WriteBytesViaStream (closed_conn w) d \<noteq> (Inr u, w')"
  using Write_closed [of w d] by (cases "WriteBytesViaStream (closed_conn w) d") (auto simp: commit_def)

lemma inv_write:
  assumes inv: "sock_inv H S" and c: "socket_conns proto (so_nodes S p) k = Some h"
    and w: "WriteBytesViaStream (so_outs S h) d = (Inr (), w)"
  shows "sock_inv H (S\<lparr>so_outs := (so_outs S)(h := w), so_whole := False\<rparr>)" (is "sock_inv H ?S")
proof -
  note I = sock_invD [OF inv]
  obtain j t where t: "so_sessions S j = Some t" "h \<in> ends t" "h = se_client t \<longrightarrow> se_ready t"
    by (rule table_owner [OF inv c])
  note T = session_okD [OF I(4) [OF t(1)]]
  have open_conn: "h = se_client t \<longrightarrow> \<not> se_closed t"
    using T(9) w Write_closed_fails by (metis (full_types))
  have "werrs (so_outs S h) = []"
    using t(2) T(8,9) open_conn by (auto simp: ends_def)
  then have we: "werrs w = []"
    using Write_Inr [OF w] by simp
  have ok: "session_ok H ((so_outs S)(h := w)) u" if u: "so_sessions S i = Some u" for i u
  proof (cases "i = j")
    case True
    then have "u = t"
      using t(1) u by simp
    then show ?thesis
      using I(4) [OF u] t(3) open_conn we by (auto simp: session_ok_def)
  next
    case False
    then have "h \<notin> ends u"
      using I(3) t(1,2) u unfolding ends_inv_def by blast
    then show ?thesis
      using session_ok_cong [of u "(so_outs S)(h := w)" "so_outs S" H] I(4) [OF u] by auto
  qed
  have "entered ?S = entered S" "dialled ?S = dialled S"
    by (simp_all add: table_defs)
  then have "tables_inv ?S"
    using I(1) by (simp add: tables_inv_def)
  moreover have "ids_inv H ?S"
    using I(2) by (simp add: ids_inv_def)
  moreover have "ends_inv ?S"
    using I(3) t(1,2) unfolding ends_inv_def by auto
  ultimately show ?thesis
    using ok by (simp add: sock_inv_def)
qed

lemma inv_open:
  assumes ok: "socket_net_ok H" and inv: "sock_inv H S" and i: "so_sessions S i = None"
    and fresh: "uuid \<notin> so_uuids S" "no_dot uuid" "h \<notin> so_handles S"
    and o: "csgw_open H uuid ch h c (so_nodes S p) = Inr (Opened q r st st' c', n')"
  shows "sock_inv H ((upd_session i (new_session p q r h st)
      (upd_node p (n'\<lparr>clientSocketConns := clientSocketConns (so_nodes S p)\<rparr>) S))
        \<lparr>so_uuids := insert uuid (so_uuids S), so_handles := insert h (so_handles S)\<rparr>)" (is "sock_inv H ?S")
proof -
  note I = sock_invD [OF inv]
  obtain u k b where r: "sreq_RequestId r = make_request_id u k uuid" "sreq_PeerId r = sn_id H p"
      "sn_mar_req H r = Inr b" "out_bytes st = frame b"
      and n': "same_tables (so_nodes S p) (n'\<lparr>clientSocketConns := clientSocketConns (so_nodes S p)\<rparr>)"
    using opened_session [OF ok I(5) o] I(6) by auto
  let ?s = "new_session p q r h st"
  have s: "se_req ?s = r" "se_csgw ?s = p" "ends ?s = {h}" "\<not> se_ready ?s" "se_service ?s = None"
    by (simp_all add: new_session_def ends_def)
  have "entered ?S = entered S" "dialled ?S = dialled S"
    using i s by (simp_all add: table_defs some_session_new)
  then have tables: "tables_inv ?S"
    using I(1) n' by (simp add: tables_inv_def same_tables_def)
  have "se_id t \<noteq> make_request_id u k uuid" if "so_sessions S j = Some t" for j t
  proof -
    obtain u' k' uuid' where "se_id t = make_request_id u' k' uuid'" "uuid' \<in> so_uuids S" "no_dot uuid'"
      using I(2) \<open>so_sessions S j = Some t\<close> unfolding ids_inv_def id_ok_def by blast
    then show ?thesis
      using make_request_id_uuid fresh(1,2) by metis
  qed
  moreover have "id_ok H (insert uuid (so_uuids S)) ?s"
    using r(1,2) fresh(2) by (auto simp: id_ok_def s)
  ultimately have "ids_inv H ?S"
    using I(2) i r(1) id_ok_mono unfolding ids_inv_def by (simp add: s) metis
  moreover have new: "h \<notin> ends t" if "so_sessions S j = Some t" for j t
    using I(3) that fresh(3) unfolding ends_inv_def by blast
  then have "so_outs S h = no_stream"
    using I(3) unfolding ends_inv_def by blast
  then have "session_ok H (so_outs S) ?s" "session_flows H (so_outs S) ?s"
    using r(3,4) by (simp_all add: session_ok_def session_flows_def new_session_def service_out_def flow_def no_stream_def out_bytes_def)
  moreover have "ends_inv ?S"
    by (rule ends_inv_session [OF I(3), where i = i and s' = ?s and Hs = "insert h (so_handles S)" and outs = "so_outs S"])
      (use i new in \<open>auto simp: s\<close>)
  ultimately show ?thesis
    using I(4,7) tables by (simp add: sock_inv_def)
qed

section \<open>Steps keep the invariant\<close>

lemma node_inv_tables [simp]:
  "node_inv (n\<lparr>clientSocketConns := m\<rparr>) = node_inv n" "node_inv (n\<lparr>serviceSocketConns := m\<rparr>) = node_inv n"
  by (simp_all add: node_inv_def)

lemma inv_ready:
  assumes inv: "sock_inv H S" and i: "so_sessions S i = Some s" and "\<not> se_ready s"
  shows "sock_inv H (upd_session i (s\<lparr>se_ready := True\<rparr>)
      (upd_node (se_csgw s) (enter_client (se_id s) (se_client s) (so_nodes S (se_csgw s))) S))" (is "sock_inv H ?S")
proof -
  note I = sock_invD [OF inv]
  let ?s = "s\<lparr>se_ready := True\<rparr>"
  have only: "k = se_id s \<Longrightarrow> \<not> entered S p k h" for p k h
    using same_id [OF I(2) i] assms(3) unfolding entered_def some_session_def by metis
  have e: "entered ?S p k h \<longleftrightarrow> (p = se_csgw s \<and> k = se_id s \<and> h = se_client s) \<or> entered S p k h" for p k h
    using i assms(3) unfolding entered_def by (simp, subst some_session_changed(2)) auto
  have d: "dialled ?S = dialled S"
    using i by (simp add: table_defs some_session_changed)
  have "tables_inv ?S"
    unfolding tables_inv_def e d using I(1) only by (auto simp: tables_inv_def enter_client_def)
  moreover have "ids_inv H ?S"
    using I(2) i unfolding ids_inv_def id_ok_def by (simp, metis)
  moreover have "ends ?s = ends s"
    by (simp add: ends_def)
  then have "ends_inv ?S"
    by (intro ends_inv_session [OF I(3), where i = i and s' = ?s and Hs = "so_handles S" and outs = "so_outs S"])
      (use I(3) i in \<open>unfold ends_inv_def, auto\<close>)
  moreover have "session_ok H (so_outs S) ?s"
    using I(4) [OF i] by (simp add: session_ok_def)
  moreover have "session_flows H (so_outs S) ?s" if "so_whole S"
    using I(7) [OF i that] by (simp add: session_flows_def service_out_def)
  ultimately show ?thesis
    using I(4,7) by (simp add: sock_inv_def)
qed

lemma inv_dial:
  assumes ok: "socket_net_ok H" and inv: "sock_inv H S" and i: "so_sessions S i = Some s" and st: "se_init s = Some st"
    and c: "conn_pending c = out_bytes st" and h: "h \<notin> so_handles S"
    and dial: "ssgw_dial H (Inr (h, from)) c (so_nodes S (se_ssgw s)) = Inr (r, rd, resp, n')"
    and p: "sn_decode H (init_PeerId r) = Inr p"
  shows "sock_inv H ((upd_session i (s\<lparr>se_init := None, se_service := Some h, se_resp := map_option (\<lambda>_. p) resp\<rparr>)
      (upd_node (se_ssgw s) n' S))\<lparr>so_handles := insert h (so_handles S)\<rparr>)" (is "sock_inv H ?S")
proof -
  note I = sock_invD [OF inv]
  let ?s = "s\<lparr>se_init := None, se_service := Some h, se_resp := map_option (\<lambda>_. p) resp\<rparr>"
  note s = session_okD [OF I(4) [OF i]]
  have none: "se_service s = None"
    using s(4) st by simp
  obtain b where b: "sn_mar_req H (se_req s) = Inr b" "out_bytes st = frame b"
    using s(3) [OF st] by blast
  have n': "n' = (so_nodes S (se_ssgw s))\<lparr>serviceSocketConns := (serviceSocketConns (so_nodes S (se_ssgw s)))(se_id s \<mapsto> h)\<rparr>"
    and peer: "init_PeerId r = sn_id H (se_csgw s)"
    using dialled_session [OF ok b(1) _ dial] c b(2) I(2) i unfolding ids_inv_def id_ok_def by auto
  have p': "p = se_csgw s"
    using p peer socket_net_okD(5) [OF ok] by simp
  have only: "k = se_id s \<Longrightarrow> \<not> dialled S q k x" for q k x
    using same_id [OF I(2) i] none unfolding dialled_def some_session_def by (metis option.distinct(1))
  have d: "dialled ?S q k x \<longleftrightarrow> (q = se_ssgw s \<and> k = se_id s \<and> x = h) \<or> dialled S q k x" for q k x
    unfolding dialled_def using i none by (simp, subst some_session_changed(2)) auto
  have e: "entered ?S = entered S"
    using i by (simp add: table_defs some_session_changed)
  have "tables_inv ?S"
    unfolding tables_inv_def e d using I(1) only by (auto simp: tables_inv_def n')
  moreover have "ids_inv H ?S"
    using I(2) i unfolding ids_inv_def id_ok_def by (simp, metis)
  moreover have es: "ends ?s = insert h (ends s)"
    using none by (auto simp: ends_def)
  moreover have new: "h \<notin> ends t" if "so_sessions S j = Some t" for j t
    using I(3) that h unfolding ends_inv_def by blast
  then have "ends_inv ?S"
    by (intro ends_inv_session [OF I(3), where i = i and s' = ?s and Hs = "insert h (so_handles S)" and outs = "so_outs S"])
      (use I(3) i none new in \<open>unfold ends_inv_def es, auto simp: ends_def\<close>)
  moreover have new_out: "so_outs S h = no_stream"
    using I(3) new unfolding ends_inv_def by blast
  then have "session_ok H (so_outs S) ?s"
    using I(4) [OF i] none p' s(5) [OF none] s(6) [OF s(5) [OF none]] by (cases resp) (simp_all add: session_ok_def no_stream_def)
  moreover have "session_flows H (so_outs S) ?s" if "so_whole S"
    using I(7) [OF i that] none new_out by (simp add: session_flows_def service_out_def no_stream_def out_bytes_def)
  ultimately show ?thesis
    using I(4,7) by (simp add: sock_inv_def)
qed

lemma inv_frame:
  assumes inv: "sock_inv H S" and i: "so_sessions S i = Some s" and c: "carries H (se_id s) d v"
  shows "sock_inv H (upd_session i (s\<lparr>se_sent_up := se_sent_up s @ [d], se_up := se_up s @ v\<rparr>) S)"
proof -
  let ?s = "s\<lparr>se_sent_up := se_sent_up s @ [d], se_up := se_up s @ v\<rparr>"
  have "session_ok H (so_outs S) ?s"
    using sock_invD(4) [OF inv i] unread_send [OF _ c] by (simp add: session_ok_def)
  moreover have "session_flows H (so_outs S) ?s" if "so_whole S"
    using sock_invD(7) [OF inv i that] flow_send [OF _ c] by (simp add: session_flows_def service_out_def)
  ultimately show ?thesis
    using inv_session [OF inv i, of ?s "so_outs S" "so_whole S"] by simp
qed

lemma inv_piece:
  assumes inv: "sock_inv H S" and i: "so_sessions S i = Some s" and c: "carries H (se_id s) d v" and "se_resp s \<noteq> None"
  shows "sock_inv H (upd_session i (s\<lparr>se_sent_down := se_sent_down s @ [d], se_down := se_down s @ v\<rparr>) S)"
proof -
  let ?s = "s\<lparr>se_sent_down := se_sent_down s @ [d], se_down := se_down s @ v\<rparr>"
  have "session_ok H (so_outs S) ?s"
    using sock_invD(4) [OF inv i] unread_send [OF _ c] assms(4) by (simp add: session_ok_def)
  moreover have "session_flows H (so_outs S) ?s" if "so_whole S"
    using sock_invD(7) [OF inv i that] flow_send [OF _ c] by (simp add: session_flows_def service_out_def)
  ultimately show ?thesis
    using inv_session [OF inv i, of ?s "so_outs S" "so_whole S"] by simp
qed

lemma inv_close:
  assumes inv: "sock_inv H S" and i: "so_sessions S i = Some s" and "se_ready s"
  shows "sock_inv H ((upd_session i (s\<lparr>se_closed := True\<rparr>) S)
      \<lparr>so_outs := (so_outs S)(se_client s := closed_conn (so_outs S (se_client s)))\<rparr>)"
proof -
  let ?s = "s\<lparr>se_closed := True\<rparr>" and ?outs = "(so_outs S)(se_client s := closed_conn (so_outs S (se_client s)))"
  have no: "se_service s \<noteq> Some (se_client s)"
    using sock_invD(3) [OF inv] i unfolding ends_inv_def by blast
  then have "session_ok H ?outs ?s"
    using sock_invD(4) [OF inv i] assms(3) by (auto simp: session_ok_def)
  moreover have "session_flows H ?outs ?s" if "so_whole S"
    using sock_invD(7) [OF inv i that] no
    by (auto simp: session_flows_def service_out_def closed_conn_def out_bytes_def split: option.split)
  ultimately show ?thesis
    using inv_session [OF inv i, of ?s ?outs "so_whole S"] by (simp add: ends_def)
qed

text \<open>The tables at the ends of a session.\<close>

lemma session_conns:
  assumes inv: "sock_inv H S" and i: "so_sessions S i = Some s"
  shows "socket_conns ProxySocketDataFromClientSide (so_nodes S (se_ssgw s)) (se_id s) = se_service s"
    and "socket_conns ProxySocketDataFromServiceSide (so_nodes S (se_csgw s)) (se_id s) = (if se_ready s then Some (se_client s) else None)"
proof -
  note I = sock_invD [OF inv]
  have "dialled S (se_ssgw s) (se_id s) h \<longleftrightarrow> se_service s = Some h" for h
    using same_id [OF I(2) i] i unfolding dialled_def some_session_def by metis
  then have "serviceSocketConns (so_nodes S (se_ssgw s)) (se_id s) = se_service s"
    using I(1) unfolding tables_inv_def by (metis not_None_eq)
  then show "socket_conns ProxySocketDataFromClientSide (so_nodes S (se_ssgw s)) (se_id s) = se_service s"
    by (simp add: socket_conns_def)
  have "entered S (se_csgw s) (se_id s) h \<longleftrightarrow> se_ready s \<and> h = se_client s" for h
    using same_id [OF I(2) i] i unfolding entered_def some_session_def by metis
  then have "clientSocketConns (so_nodes S (se_csgw s)) (se_id s) = (if se_ready s then Some (se_client s) else None)"
    using I(1) unfolding tables_inv_def by (metis not_None_eq)
  then show "socket_conns ProxySocketDataFromServiceSide (so_nodes S (se_csgw s)) (se_id s) = (if se_ready s then Some (se_client s) else None)"
    by (simp add: socket_conns_def protocol_defs)
qed

lemma relay_ends:
  assumes ok: "socket_net_ok H" and inv: "sock_inv H S" and i: "so_sessions S i = Some s"
    and m: "sn_mar_data H \<lparr>dat_RequestId = se_id s, dat_RawData = d\<rparr> = Inr b"
  shows "relay H ProxySocketDataFromClientSide (Data b) (se_ssgw s) S = (case se_service s of
       None \<Rightarrow> Inl PanicNil | Some h \<Rightarrow> bindP (commit (WriteBytesViaStream (so_outs S h) d)) (\<lambda>w. Inr ((so_outs S)(h := w))))"
    and "relay H ProxySocketDataFromServiceSide (Data b) (se_csgw s) S =
      (if se_ready s then bindP (commit (WriteBytesViaStream (so_outs S (se_client s)) d)) (\<lambda>w. Inr ((so_outs S)(se_client s := w)))
       else Inl PanicNil)"
  using relayed_message [OF ok m] session_conns [OF inv i] by simp_all

lemma bind_write_Inr:
  "bindP (commit (WriteBytesViaStream w d)) (\<lambda>w. Inr (f(h := w))) = Inr outs \<longleftrightarrow>
    (\<exists>w'. WriteBytesViaStream w d = (Inr (), w') \<and> outs = f(h := w'))"
  by (auto simp: bindP_Inr_iff commit_Inr_iff)

lemma read_needs_end:
  assumes ok: "socket_net_ok H" and inv: "sock_inv H S" and i: "so_sessions S i = Some s"
  shows "reads (se_up s) b rest \<Longrightarrow> relay H ProxySocketDataFromClientSide (Data b) (se_ssgw s) S = Inr outs \<Longrightarrow> se_service s \<noteq> None"
    and "reads (se_down s) b rest \<Longrightarrow> relay H ProxySocketDataFromServiceSide (Data b) (se_csgw s) S = Inr outs \<Longrightarrow> se_ready s"
proof -
  note s = session_okD [OF sock_invD(4) [OF inv i]]
  have first: "\<exists>d. sn_mar_data H \<lparr>dat_RequestId = se_id s, dat_RawData = d\<rparr> = Inr b"
    if r: "reads u b rest" "unread H (se_id s) ds u" for u ds b rest
  proof (rule unread_first [OF r(2) reads_not_empty [OF r(1)]])
    fix d ds' v u' assume "u = v @ u'" "carries H (se_id s) d v"
    then show ?thesis
      using reads_carried(1) [OF ok] r(1) by blast
  qed
  show "se_service s \<noteq> None" if rd: "reads (se_up s) b rest" "relay H ProxySocketDataFromClientSide (Data b) (se_ssgw s) S = Inr outs"
  proof
    assume none: "se_service s = None"
    obtain d where "sn_mar_data H \<lparr>dat_RequestId = se_id s, dat_RawData = d\<rparr> = Inr b"
      using first [OF rd(1) s(1) [OF none]] by blast
    from relay_ends(1) [OF ok inv i this] show False
      using none rd(2) by simp
  qed
  show "se_ready s" if rd: "reads (se_down s) b rest" "relay H ProxySocketDataFromServiceSide (Data b) (se_csgw s) S = Inr outs"
  proof (rule ccontr)
    assume no: "\<not> se_ready s"
    obtain d where "sn_mar_data H \<lparr>dat_RequestId = se_id s, dat_RawData = d\<rparr> = Inr b"
      using first [OF rd(1) s(2) [OF no]] by blast
    from relay_ends(2) [OF ok inv i this] show False
      using no rd(2) by simp
  qed
qed

text \<open>A read that took more than its message: only what holds in every state is kept.\<close>

lemma inv_lossy:
  assumes inv: "sock_inv H S" and i: "so_sessions S i = Some s" and r: "relay H proto (Data b) p S = Inr outs"
    and s': "se_csgw s' = se_csgw s" "se_ssgw s' = se_ssgw s" "se_req s' = se_req s" "se_client s' = se_client s"
      "se_ready s' = se_ready s" "se_service s' = se_service s"
    and ok: "\<And>outs. session_ok H outs s \<Longrightarrow> session_ok H outs s'"
  shows "sock_inv H ((upd_session i s' S)\<lparr>so_outs := outs, so_whole := False\<rparr>)"
proof -
  obtain k d h w where w: "socket_conns proto (so_nodes S p) k = Some h" "WriteBytesViaStream (so_outs S h) d = (Inr (), w)"
      "outs = (so_outs S)(h := w)"
    using relay_Inr [OF r] by blast
  let ?S = "S\<lparr>so_outs := outs, so_whole := False\<rparr>"
  have inv': "sock_inv H ?S"
    unfolding w(3) by (rule inv_write [OF inv w(1,2)])
  have i': "so_sessions ?S i = Some s"
    using i by simp
  have "session_ok H outs s'"
    using ok sock_invD(4) [OF inv' i'] by simp
  then have "sock_inv H ((upd_session i s' ?S)\<lparr>so_outs := outs, so_whole := False\<rparr>)"
    by (intro inv_session [OF inv' i' s']) simp_all
  then show ?thesis
    by simp
qed

lemma inv_up:
  assumes ok: "socket_net_ok H" and inv: "sock_inv H S" and i: "so_sessions S i = Some s"
    and rd: "reads (se_up s) b rest" and r: "relay H ProxySocketDataFromClientSide (Data b) (se_ssgw s) S = Inr outs"
  shows "sock_inv H ((upd_session i (s\<lparr>se_up := rest, se_read_up := Suc (se_read_up s)\<rparr>) S)
      \<lparr>so_outs := outs, so_whole := so_whole S \<and> se_up s = frame b @ rest\<rparr>)"
    (is "sock_inv H ((upd_session i ?s S)\<lparr>so_outs := outs, so_whole := ?w\<rparr>)")
proof -
  note s = session_okD [OF sock_invD(4) [OF inv i]]
  have dialled: "se_service s \<noteq> None"
    by (rule read_needs_end(1) [OF ok inv i rd r])
  then have keeps: "session_ok H outs ?s" if "session_ok H outs s" for outs
    using that by (auto simp: session_ok_def)
  show ?thesis
  proof (cases ?w)
    case False
    then have "?w = False"
      by blast
    then show ?thesis
      unfolding \<open>?w = False\<close> using inv_lossy [OF inv i r, of ?s] keeps by simp
  next
    case True
    then have whole: "so_whole S" and u: "se_up s = frame b @ rest"
      by simp_all
    have f: "flow H (se_id s) (se_sent_up s) (se_read_up s) (se_up s) (service_out (so_outs S) s)"
      using sock_invD(7) [OF inv i whole] by (simp add: session_flows_def)
    obtain d v u' where d: "se_up s = v @ u'" "carries H (se_id s) d v"
        "flow H (se_id s) (se_sent_up s) (Suc (se_read_up s)) u' (service_out (so_outs S) s @ frame d)"
      using flow_first [OF f reads_not_empty [OF rd]] by metis
    have b: "sn_mar_data H \<lparr>dat_RequestId = se_id s, dat_RawData = d\<rparr> = Inr b" "v = frame b"
      using reads_carried(1) [OF ok d(2)] rd d(1) by auto
    then have rest: "u' = rest"
      using d(1) u by simp
    obtain h w where h: "se_service s = Some h" "WriteBytesViaStream (so_outs S h) d = (Inr (), w)" "outs = (so_outs S)(h := w)"
      using r relay_ends(1) [OF ok inv i b(1)] by (auto simp: bind_write_Inr split: option.splits)
    have w: "werrs w = []" "out_bytes w = out_bytes (so_outs S h) @ frame d"
      using Write_Inr [OF h(2) s(8) [OF h(1)]] by simp_all
    have other: "h \<noteq> se_client s"
      using sock_invD(3) [OF inv] i h(1) unfolding ends_inv_def by blast
    have ok': "session_ok H outs ?s"
      using sock_invD(4) [OF inv i] h(1,3) w other by (simp add: session_ok_def)
    have "session_flows H outs ?s"
      using sock_invD(7) [OF inv i whole] d(3) h(1,3) w other rest by (simp add: session_flows_def service_out_def)
    then show ?thesis
      using inv_session [OF inv i, of ?s outs ?w] ok' whole h(1,3) by (simp add: ends_def)
  qed
qed

lemma inv_down:
  assumes ok: "socket_net_ok H" and inv: "sock_inv H S" and i: "so_sessions S i = Some s" and p: "se_resp s = Some p"
    and rd: "reads (se_down s) b rest" and r: "relay H ProxySocketDataFromServiceSide (Data b) p S = Inr outs"
  shows "sock_inv H ((upd_session i (s\<lparr>se_down := rest, se_read_down := Suc (se_read_down s)\<rparr>) S)
      \<lparr>so_outs := outs, so_whole := so_whole S \<and> se_down s = frame b @ rest\<rparr>)"
    (is "sock_inv H ((upd_session i ?s S)\<lparr>so_outs := outs, so_whole := ?w\<rparr>)")
proof -
  note s = session_okD [OF sock_invD(4) [OF inv i]]
  let ?h = "se_client s"
  have r': "relay H ProxySocketDataFromServiceSide (Data b) (se_csgw s) S = Inr outs"
    using r s(7) [OF p] by simp
  have rdy: "se_ready s"
    by (rule read_needs_end(2) [OF ok inv i rd r'])
  then have keeps: "session_ok H outs ?s" if "session_ok H outs s" for outs
    using that p by (simp add: session_ok_def)
  show ?thesis
  proof (cases ?w)
    case False
    then have "?w = False"
      by blast
    then show ?thesis
      unfolding \<open>?w = False\<close> using inv_lossy [OF inv i r, of ?s] keeps by simp
  next
    case True
    then have whole: "so_whole S" and u: "se_down s = frame b @ rest"
      by simp_all
    have f: "flow H (se_id s) (se_sent_down s) (se_read_down s) (se_down s) (out_bytes (so_outs S ?h))"
      using sock_invD(7) [OF inv i whole] by (simp add: session_flows_def)
    obtain d v u' where d: "se_down s = v @ u'" "carries H (se_id s) d v"
        "flow H (se_id s) (se_sent_down s) (Suc (se_read_down s)) u' (out_bytes (so_outs S ?h) @ frame d)"
      using flow_first [OF f reads_not_empty [OF rd]] by metis
    have b: "sn_mar_data H \<lparr>dat_RequestId = se_id s, dat_RawData = d\<rparr> = Inr b" "v = frame b"
      using reads_carried(1) [OF ok d(2)] rd d(1) by auto
    then have rest: "u' = rest"
      using d(1) u by simp
    obtain w where h: "WriteBytesViaStream (so_outs S ?h) d = (Inr (), w)" "outs = (so_outs S)(?h := w)"
      using r' relay_ends(2) [OF ok inv i b(1)] rdy by (auto simp: bind_write_Inr)
    have open_conn: "\<not> se_closed s"
      using s(9) h(1) Write_closed_fails by (metis (full_types))
    then have w: "werrs w = []" "out_bytes w = out_bytes (so_outs S ?h) @ frame d"
      using Write_Inr [OF h(1)] s(9) by simp_all
    have other: "se_service s \<noteq> Some ?h"
      using sock_invD(3) [OF inv] i unfolding ends_inv_def by blast
    have ok': "session_ok H outs ?s"
      using sock_invD(4) [OF inv i] p rdy h(2) w other open_conn by (auto simp: session_ok_def)
    have "session_flows H outs ?s"
      using sock_invD(7) [OF inv i whole] d(3) h(2) w other rest
      by (auto simp: session_flows_def service_out_def split: option.splits)
    then show ?thesis
      using inv_session [OF inv i, of ?s outs ?w] ok' whole h(2) by (simp add: ends_def)
  qed
qed

lemma sock_step_inv:
  assumes "sock_step H S S'" and ok: "socket_net_ok H" and inv: "sock_inv H S"
  shows "sock_inv H S'"
  using assms(1)
proof cases
  case (sock_open i p uuid h ch c q r st st' c' n')
  show ?thesis
    unfolding sock_open(1) by (rule inv_open [OF ok inv sock_open(2,4,5,6,7)])
next
  case (sock_refuse p uuid ch h c t n')
  then show ?thesis
    using inv_node [OF inv refused_session] sock_invD(5) [OF inv] by simp
next
  case (sock_ready i s)
  then show ?thesis using inv_ready [OF inv] by simp
next
  case (sock_dial i s st c h "from" r rd resp n' p)
  show ?thesis
    unfolding sock_dial(1) by (rule inv_dial [OF ok inv sock_dial(2,4,5,6,7,8)])
next
  case (sock_frame i s c d c' st)
  then show ?thesis using inv_frame [OF inv] framed_message by simp
next
  case (sock_close i s c st)
  then show ?thesis using inv_close [OF inv] by simp
next
  case (sock_piece i s c d c' st)
  then show ?thesis using inv_piece [OF inv] piece_message by simp
next
  case (sock_up i s b rest outs)
  then show ?thesis using inv_up [OF ok inv] by simp
next
  case (sock_down i s p b rest outs)
  then show ?thesis using inv_down [OF ok inv] by simp
next
  case (sock_dies p)
  then show ?thesis
    using inv by (simp add: sock_inv_def tables_inv_def ids_inv_def ends_inv_def table_defs)
next
  case (sock_register p q sv n')
  then show ?thesis
    using inv_node [OF inv registry_same_tables(1)] sock_invD(5) [OF inv] by simp
next
  case (sock_prune p ps n')
  then show ?thesis
    using inv_node [OF inv registry_same_tables(2)] sock_invD(5) [OF inv] by simp
qed

lemma sock_reach_inv:
  assumes "(sock_step H)\<^sup>*\<^sup>* S0 S" and "sock_start S0" and ok: "socket_net_ok H"
  shows "sock_inv H S"
  using assms(1) by (induction rule: rtranclp_induct) (use sock_start_inv [OF assms(2)] sock_step_inv [OF _ ok] in auto)

end
