(* ===== verification/Socket_Delivery.thy ===== *)
theory Socket_Delivery
  imports Socket_System
begin

text \<open>
  What the system of socket sessions does. As long as messages are read whole, everything under way
  can arrive and arrives in order; sessions never share a connection; messages that arrive joined are
  lost; and data that overtakes the set-up of its session ends a gateway. At the end a concrete run
  of two gateways.
\<close>

section \<open>What is under way can arrive\<close>

lemma up_enabled:
  assumes ok: "socket_net_ok H" and inv: "sock_inv H S" and i: "so_sessions S i = Some s" and whole: "so_whole S"
    and q: "se_up s \<noteq> []" and h: "se_service s = Some h" and p: "se_ssgw s \<in> so_alive S"
  shows "\<exists>S' u. sock_step H S S' \<and> so_sessions S' i = Some (s\<lparr>se_up := u, se_read_up := Suc (se_read_up s)\<rparr>) \<and>
    so_alive S' = so_alive S \<and> so_whole S' \<and> length u < length (se_up s)"
proof -
  note s = session_okD [OF sock_invD(4) [OF inv i]]
  have f: "flow H (se_id s) (se_sent_up s) (se_read_up s) (se_up s) (service_out (so_outs S) s)"
    using sock_invD(7) [OF inv i whole] by (simp add: session_flows_def)
  obtain d v u where d: "se_up s = v @ u" "carries H (se_id s) d v"
    using flow_first [OF f q] by metis
  obtain b where rd: "reads (se_up s) b u"
    using reads_carried(2) [OF ok d(2)] d(1) by metis
  have b: "sn_mar_data H \<lparr>dat_RequestId = se_id s, dat_RawData = d\<rparr> = Inr b" "v = frame b"
    using reads_carried(1) [OF ok d(2)] rd d(1) by auto
  have "relay H ProxySocketDataFromClientSide (Data b) (se_ssgw s) S = Inr ((so_outs S)(h := snd (WriteBytesViaStream (so_outs S h) d)))"
    using relay_ends(1) [OF ok inv i b(1)] h commit_write [OF s(8) [OF h]] by simp
  from sock_up [OF i p rd this] have "sock_step H S ((upd_session i (s\<lparr>se_up := u, se_read_up := Suc (se_read_up s)\<rparr>) S)
      \<lparr>so_outs := (so_outs S)(h := snd (WriteBytesViaStream (so_outs S h) d)), so_whole := so_whole S \<and> se_up s = frame b @ u\<rparr>)"
    (is "sock_step H S ?S") .
  then show ?thesis
    using whole d(1) b(2) by (intro exI [of _ ?S] exI [of _ u]) simp
qed

lemma down_enabled:
  assumes ok: "socket_net_ok H" and inv: "sock_inv H S" and i: "so_sessions S i = Some s" and whole: "so_whole S"
    and r: "se_resp s = Some r" and q: "se_down s \<noteq> []" and rdy: "se_ready s" "\<not> se_closed s" and p: "se_csgw s \<in> so_alive S"
  shows "\<exists>S' u. sock_step H S S' \<and> so_sessions S' i = Some (s\<lparr>se_down := u, se_read_down := Suc (se_read_down s)\<rparr>) \<and>
    so_alive S' = so_alive S \<and> so_whole S' \<and> length u < length (se_down s)"
proof -
  note s = session_okD [OF sock_invD(4) [OF inv i]]
  have f: "flow H (se_id s) (se_sent_down s) (se_read_down s) (se_down s) (out_bytes (so_outs S (se_client s)))"
    using sock_invD(7) [OF inv i whole] by (simp add: session_flows_def)
  obtain d v u where d: "se_down s = v @ u" "carries H (se_id s) d v"
    using flow_first [OF f q] by metis
  obtain b where rd: "reads (se_down s) b u"
    using reads_carried(2) [OF ok d(2)] d(1) by metis
  have b: "sn_mar_data H \<lparr>dat_RequestId = se_id s, dat_RawData = d\<rparr> = Inr b" "v = frame b"
    using reads_carried(1) [OF ok d(2)] rd d(1) by auto
  have "werrs (so_outs S (se_client s)) = []"
    using s(9) rdy(2) by simp
  then have "relay H ProxySocketDataFromServiceSide (Data b) r S =
      Inr ((so_outs S)(se_client s := snd (WriteBytesViaStream (so_outs S (se_client s)) d)))"
    using relay_ends(2) [OF ok inv i b(1)] rdy(1) commit_write s(7) [OF r] by simp
  from sock_down [OF i r _ rd this] have "sock_step H S
      ((upd_session i (s\<lparr>se_down := u, se_read_down := Suc (se_read_down s)\<rparr>) S)
        \<lparr>so_outs := (so_outs S)(se_client s := snd (WriteBytesViaStream (so_outs S (se_client s)) d)),
          so_whole := so_whole S \<and> se_down s = frame b @ u\<rparr>)" (is "sock_step H S ?S")
    using p s(7) [OF r] by simp
  then show ?thesis
    using whole d(1) b(2) by (intro exI [of _ ?S] exI [of _ u]) simp
qed

lemma carries_not_Nil: "\<not> carries H k d []"
  using frame_not_Nil unfolding carries_def by metis

lemma flow_empty:
  assumes "flow H k ds n [] b"
  shows "b = concat (map frame ds)"
proof -
  have "unread H k (drop n ds) []" "n \<le> length ds" "b = concat (map frame (take n ds))"
    using assms by (simp_all add: flow_def)
  then have "drop n ds = []"
    by (cases "drop n ds") (auto simp: unread_Cons carries_not_Nil)
  then show ?thesis
    using \<open>b = _\<close> by simp
qed

lemma up_drained:
  assumes ok: "socket_net_ok H" and "sock_inv H S" and "so_sessions S i = Some s" and "so_whole S"
    and "se_service s = Some h" and "se_ssgw s \<in> so_alive S"
  shows "\<exists>S' n. (sock_step H)\<^sup>*\<^sup>* S S' \<and> so_sessions S' i = Some (s\<lparr>se_up := [], se_read_up := n\<rparr>) \<and>
    so_alive S' = so_alive S \<and> so_whole S'"
  using assms(2-)
proof (induction "length (se_up s)" arbitrary: S s rule: less_induct)
  case less
  show ?case
  proof (cases "se_up s = []")
    case True
    then show ?thesis
      using less.prems by (intro exI [of _ S] exI [of _ "se_read_up s"]) simp
  next
    case False
    obtain S1 u where S1: "sock_step H S S1" "so_sessions S1 i = Some (s\<lparr>se_up := u, se_read_up := Suc (se_read_up s)\<rparr>)"
        "so_alive S1 = so_alive S" "so_whole S1" "length u < length (se_up s)"
      using up_enabled [OF ok less.prems(1,2,3) False less.prems(4,5)] by blast
    have "\<exists>S' n. (sock_step H)\<^sup>*\<^sup>* S1 S' \<and> so_sessions S' i = Some (s\<lparr>se_up := [], se_read_up := n\<rparr>) \<and>
        so_alive S' = so_alive S1 \<and> so_whole S'"
      using less.hyps [OF _ sock_step_inv [OF S1(1) ok less.prems(1)] S1(2,4)] S1(3,5) less.prems(4,5) by simp
    then show ?thesis
      using S1(1,3) by (auto intro: converse_rtranclp_into_rtranclp)
  qed
qed

lemma down_drained:
  assumes ok: "socket_net_ok H" and "sock_inv H S" and "so_sessions S i = Some s" and "so_whole S" and "se_resp s = Some r"
    and "se_ready s" and "\<not> se_closed s" and "se_csgw s \<in> so_alive S"
  shows "\<exists>S' n. (sock_step H)\<^sup>*\<^sup>* S S' \<and> so_sessions S' i = Some (s\<lparr>se_down := [], se_read_down := n\<rparr>) \<and>
    so_alive S' = so_alive S \<and> so_whole S'"
  using assms(2-)
proof (induction "length (se_down s)" arbitrary: S s rule: less_induct)
  case less
  show ?case
  proof (cases "se_down s = []")
    case True
    then show ?thesis
      using less.prems by (intro exI [of _ S] exI [of _ "se_read_down s"]) simp
  next
    case False
    obtain S1 u where S1: "sock_step H S S1" "so_sessions S1 i = Some (s\<lparr>se_down := u, se_read_down := Suc (se_read_down s)\<rparr>)"
        "so_alive S1 = so_alive S" "so_whole S1" "length u < length (se_down s)"
      using down_enabled [OF ok less.prems(1,2,3,4) False less.prems(5,6,7)] by blast
    have "\<exists>S' n. (sock_step H)\<^sup>*\<^sup>* S1 S' \<and> so_sessions S' i = Some (s\<lparr>se_down := [], se_read_down := n\<rparr>) \<and>
        so_alive S' = so_alive S1 \<and> so_whole S'"
      using less.hyps [OF _ sock_step_inv [OF S1(1) ok less.prems(1)] S1(2,4)] S1(3,5) less.prems(4-7) by simp
    then show ?thesis
      using S1(1,3) by (auto intro: converse_rtranclp_into_rtranclp)
  qed
qed

text \<open>An open session whose service is registered at a running gateway gets its connections.\<close>

lemma ready_enabled:
  assumes inv: "sock_inv H S" and i: "so_sessions S i = Some s" and p: "se_csgw s \<in> so_alive S"
  shows "\<exists>S'. (sock_step H)\<^sup>*\<^sup>* S S' \<and> so_sessions S' i = Some (s\<lparr>se_ready := True\<rparr>) \<and> so_alive S' = so_alive S \<and>
    so_whole S' = so_whole S \<and>
    so_handles S' = so_handles S \<and> (\<forall>q. services (so_nodes S' q) = services (so_nodes S q))"
proof (cases "se_ready s")
  case True
  then show ?thesis
    using i by (intro exI [of _ S]) simp
next
  case False
  from sock_ready [OF i p False, of H] show ?thesis
    by (intro exI conjI, rule r_into_rtranclp) (auto simp: enter_client_def)
qed

lemma dial_enabled:
  assumes ok: "socket_net_ok H" and inv: "sock_inv H S" and i: "so_sessions S i = Some s" and p: "se_ssgw s \<in> so_alive S"
    and svc: "svc_Providers (service_at (so_nodes S (se_ssgw s)) (sreq_ServiceId (se_req s))) = prov # provs" and h: "h \<notin> so_handles S"
  shows "\<exists>S' s'. (sock_step H)\<^sup>*\<^sup>* S S' \<and> so_sessions S' i = Some s' \<and> so_alive S' = so_alive S \<and> so_whole S' = so_whole S \<and> se_service s' \<noteq> None \<and>
    se_csgw s' = se_csgw s \<and> se_ssgw s' = se_ssgw s \<and> se_client s' = se_client s \<and> se_ready s' = se_ready s \<and>
    se_closed s' = se_closed s \<and> se_sent_up s' = se_sent_up s \<and> se_sent_down s' = se_sent_down s \<and>
    se_up s' = se_up s \<and> se_read_up s' = se_read_up s"
proof (cases "se_service s")
  case (Some h)
  then show ?thesis
    using i by (intro exI [of _ S] exI [of _ s]) simp
next
  case None
  note s = session_okD [OF sock_invD(4) [OF inv i]]
  obtain st b where st: "se_init s = Some st" "sn_mar_req H (se_req s) = Inr b" "out_bytes st = frame b"
    using s(3,4) None by (cases "se_init s") auto
  let ?c = "\<lparr>chunks = [frame b], fin = EOF\<rparr>" and ?n = "so_nodes S (se_ssgw s)"
  have "conn_pending ?c = frame b"
    by (simp add: conn_pending_def)
  then have f: "fst (ReadOneFrameDataFromStream (Conn ?c)) = Inr (Inr b)"
    by (rule frame_from_stream [OF _ socket_net_okD(1) [OF ok st(2)]])
  have peer: "sn_decode H (sreq_PeerId (se_req s)) = Inr (se_csgw s)"
    using sock_invD(2) [OF inv] i socket_net_okD(5) [OF ok] unfolding ids_inv_def id_ok_def by metis
  obtain r rd resp n' where dialled: "ssgw_dial H (Inr (h, ?c)) ?c ?n = Inr (r, rd, resp, n')" "sn_decode H (init_PeerId r) = Inr (se_csgw s)"
    using socket_net_okD(2) [OF ok st(2)] f peer svc by (simp add: ssgw_dial_def ProxySocketInitReqHandler_def Let_def)
  let ?s = "s\<lparr>se_init := None, se_service := Some h, se_resp := map_option (\<lambda>_. se_csgw s) resp\<rparr>"
  let ?S = "(upd_session i ?s (upd_node (se_ssgw s) n' S))\<lparr>so_handles := insert h (so_handles S)\<rparr>"
  have "sock_step H S ?S"
    using st(3) dialled by (intro sock_dial [OF i p st(1) _ h]) (simp_all add: conn_pending_def)
  then show ?thesis
    by (intro exI [of _ ?S] exI [of _ ?s]) auto
qed

lemma session_can_deliver:
  assumes ok: "socket_net_ok H" and inv: "sock_inv H S" and i: "so_sessions S i = Some s" and whole: "so_whole S" and "\<not> se_closed s"
    and p: "se_csgw s \<in> so_alive S" "se_ssgw s \<in> so_alive S"
    and svc: "svc_Providers (service_at (so_nodes S (se_ssgw s)) (sreq_ServiceId (se_req s))) = prov # provs" and h: "x \<notin> so_handles S"
  shows "\<exists>S' s' h. (sock_step H)\<^sup>*\<^sup>* S S' \<and> so_whole S' \<and> so_sessions S' i = Some s' \<and> se_service s' = Some h \<and> se_client s' = se_client s \<and>
    out_bytes (so_outs S' h) = concat (map frame (se_sent_up s)) \<and>
    out_bytes (so_outs S' (se_client s)) = concat (map frame (se_sent_down s))"
proof -
  have steps_inv: "sock_inv H S''" if "(sock_step H)\<^sup>*\<^sup>* S' S''" "sock_inv H S'" for S' S''
    using that by (induction rule: rtranclp_induct) (auto intro: sock_step_inv [OF _ ok])
  obtain S1 where S1: "(sock_step H)\<^sup>*\<^sup>* S S1" "so_sessions S1 i = Some (s\<lparr>se_ready := True\<rparr>)" "so_alive S1 = so_alive S"
      "so_whole S1" "so_handles S1 = so_handles S" "\<forall>q. services (so_nodes S1 q) = services (so_nodes S q)"
    using ready_enabled [OF inv i p(1)] whole by blast
  have I1: "sock_inv H S1"
    by (rule steps_inv [OF S1(1) inv])
  obtain S2 s2 where S2: "(sock_step H)\<^sup>*\<^sup>* S1 S2" "so_sessions S2 i = Some s2" "so_alive S2 = so_alive S" "so_whole S2"
      "se_service s2 \<noteq> None" "se_csgw s2 = se_csgw s" "se_ssgw s2 = se_ssgw s" "se_client s2 = se_client s" "se_ready s2"
      "\<not> se_closed s2" "se_sent_up s2 = se_sent_up s" "se_sent_down s2 = se_sent_down s"
    using dial_enabled [OF ok I1 S1(2), of prov provs x] p(2) svc h S1(3-6) assms(5) by (auto simp: service_at_def)
  then obtain h where h: "se_service s2 = Some h"
    by blast
  have I2: "sock_inv H S2"
    by (rule steps_inv [OF S2(1) I1])
  obtain S3 n where S3: "(sock_step H)\<^sup>*\<^sup>* S2 S3" "so_sessions S3 i = Some (s2\<lparr>se_up := [], se_read_up := n\<rparr>)"
      "so_alive S3 = so_alive S" "so_whole S3"
    using up_drained [OF ok I2 S2(2,4) h] S2(3,7) p(2) by auto
  have I3: "sock_inv H S3"
    by (rule steps_inv [OF S3(1) I2])
  have "\<exists>S4 m. (sock_step H)\<^sup>*\<^sup>* S3 S4 \<and> so_sessions S4 i = Some (s2\<lparr>se_up := [], se_read_up := n, se_down := [], se_read_down := m\<rparr>) \<and>
      so_whole S4"
  proof (cases "se_resp s2")
    case None
    then have "se_down s2 = []"
      using session_okD(6) [OF sock_invD(4) [OF I2 S2(2)]] by blast
    then show ?thesis
      using S3(2,4) by (intro exI [of _ S3] exI [of _ "se_read_down s2"]) simp
  next
    case (Some r)
    then show ?thesis
      using down_drained [OF ok I3 S3(2,4), of r] S2(6,9,10) S3(3) p(1) by auto
  qed
  then obtain S4 m where S4: "(sock_step H)\<^sup>*\<^sup>* S3 S4" "so_whole S4"
      "so_sessions S4 i = Some (s2\<lparr>se_up := [], se_read_up := n, se_down := [], se_read_down := m\<rparr>)" (is "_ = Some ?s4")
    by blast
  have "session_flows H (so_outs S4) ?s4"
    by (rule sock_invD(7) [OF steps_inv [OF S4(1) I3] S4(3,2)])
  then have "out_bytes (so_outs S4 h) = concat (map frame (se_sent_up s))"
    "out_bytes (so_outs S4 (se_client s)) = concat (map frame (se_sent_down s))"
    using h S2(8,11,12) by (auto simp: session_flows_def service_out_def dest!: flow_empty)
  moreover have "(sock_step H)\<^sup>*\<^sup>* S S4"
    using S1(1) S2(1) S3(1) S4(1) by (meson rtranclp_trans)
  ultimately show ?thesis
    using S4(2,3) h S2(8) by (intro exI [of _ S4] exI [of _ ?s4] exI [of _ h]) simp
qed

lemma flow_prefix: "flow H k ds n u b \<Longrightarrow> \<exists>k. b = concat (map frame (take k ds))"
  unfolding flow_def by blast

section \<open>Properties\<close>

text \<open>
  C7. Socket sessions do not see each other's data. Whatever number of sessions any number of
  gateways serve at the same time, and in whatever order they open, dial, send, close and die: no two
  sessions share a connection, and nothing is written to a connection of no session. As long as every
  read of the run took one message whole and no more (no network piece joined the end of a message
  with what follows it), what was written to the client of a session is a beginning of what its own
  service sent, and what was written to its service a beginning of what its own client sent, message
  for message and in order.
\<close>

theorem sessions_isolated:
  assumes "(sock_step H)\<^sup>*\<^sup>* S0 S" and "sock_start S0" and "socket_net_ok H" and i: "so_sessions S i = Some s"
  shows "(so_whole S \<longrightarrow>
      (\<exists>k. out_bytes (so_outs S (se_client s)) = concat (map frame (take k (se_sent_down s)))) \<and>
      (\<forall>h. se_service s = Some h \<longrightarrow> (\<exists>k. out_bytes (so_outs S h) = concat (map frame (take k (se_sent_up s)))))) \<and>
    (\<forall>j t. so_sessions S j = Some t \<longrightarrow> j \<noteq> i \<longrightarrow> ends t \<inter> ends s = {}) \<and>
    (\<forall>h. sent (so_outs S h) \<noteq> [] \<longrightarrow> (\<exists>j t. so_sessions S j = Some t \<and> h \<in> ends t))"
proof -
  have inv: "sock_inv H S"
    by (rule sock_reach_inv [OF assms(1-3)])
  have "(\<exists>k. out_bytes (so_outs S (se_client s)) = concat (map frame (take k (se_sent_down s)))) \<and>
      (\<forall>h. se_service s = Some h \<longrightarrow> (\<exists>k. out_bytes (so_outs S h) = concat (map frame (take k (se_sent_up s)))))"
    if "so_whole S"
    using sock_invD(7) [OF inv i that] flow_prefix unfolding session_flows_def service_out_def by fastforce
  moreover have "\<exists>j t. so_sessions S j = Some t \<and> h \<in> ends t" if "sent (so_outs S h) \<noteq> []" for h
    using sock_invD(3) [OF inv] that unfolding ends_inv_def by (metis no_stream_def net_out.select_convs(1))
  ultimately show ?thesis
    using sock_invD(3) [OF inv] i unfolding ends_inv_def by blast
qed

text \<open>
  C6. A session can always go on. In every state reached by reads that took one message whole and no
  more, whatever other sessions did, a session whose client did not close, whose gateways run and
  whose service is still registered at the service side gateway can be brought to a state in which
  its service has received everything its client sent so far and its client everything its service
  sent.
\<close>

theorem session_delivers:
  assumes "(sock_step H)\<^sup>*\<^sup>* S0 S" and "sock_start S0" and "socket_net_ok H" and "so_sessions S i = Some s" and "so_whole S"
    and "\<not> se_closed s" and "se_csgw s \<in> so_alive S" and "se_ssgw s \<in> so_alive S"
    and "svc_Providers (service_at (so_nodes S (se_ssgw s)) (sreq_ServiceId (se_req s))) = prov # provs" and "x \<notin> so_handles S"
  shows "\<exists>S' s' h. (sock_step H)\<^sup>*\<^sup>* S S' \<and> so_sessions S' i = Some s' \<and> se_service s' = Some h \<and> se_client s' = se_client s \<and>
    out_bytes (so_outs S' h) = concat (map frame (se_sent_up s)) \<and>
    out_bytes (so_outs S' (se_client s)) = concat (map frame (se_sent_down s))"
  using session_can_deliver [OF assms(3) sock_reach_inv [OF assms(1-3)] assms(4-10)] by blast

text \<open>
  C31. Messages that arrive together are lost. Take any state reached by reads that took one message
  whole and no more, and a session with a dialled service and at least two messages of its client
  unread, together of at most 4096 bytes. Then the next read can be one after which the service has
  got the first of them and none of the others is on the stream any more: the buffered reader that
  took them with the first message is thrown away.
\<close>

theorem joined_messages_lost:
  assumes "(sock_step H)\<^sup>*\<^sup>* S0 S" and "sock_start S0" and ok: "socket_net_ok H" and i: "so_sessions S i = Some s"
    and whole: "so_whole S" and p: "se_ssgw s \<in> so_alive S" and h: "se_service s = Some h"
    and two: "se_read_up s + 2 \<le> length (se_sent_up s)" and short: "length (se_up s) \<le> defaultBufSize"
  shows "\<exists>S' s'. sock_step H S S' \<and> so_sessions S' i = Some s' \<and> se_sent_up s' = se_sent_up s \<and> se_up s' = [] \<and>
    out_bytes (so_outs S' h) = out_bytes (so_outs S h) @ frame (se_sent_up s ! se_read_up s) \<and>
    out_bytes (so_outs S' h) \<noteq> concat (map frame (se_sent_up s')) \<and> \<not> so_whole S'"
proof -
  have inv: "sock_inv H S"
    by (rule sock_reach_inv [OF assms(1-3)])
  note s = session_okD [OF sock_invD(4) [OF inv i]]
  let ?ds = "se_sent_up s" and ?n = "se_read_up s"
  have f: "flow H (se_id s) ?ds ?n (se_up s) (out_bytes (so_outs S h))"
    using sock_invD(7) [OF inv i whole] h by (simp add: session_flows_def service_out_def)
  have "drop ?n ?ds = ?ds ! ?n # ?ds ! Suc ?n # drop (Suc (Suc ?n)) ?ds"
    using two by (simp add: Cons_nth_drop_Suc)
  then have "unread H (se_id s) (?ds ! ?n # ?ds ! Suc ?n # drop (Suc (Suc ?n)) ?ds) (se_up s)"
    using f by (simp add: flow_def)
  then obtain v v' u where d: "se_up s = v @ v' @ u" "carries H (se_id s) (?ds ! ?n) v" "carries H (se_id s) (?ds ! Suc ?n) v'"
    unfolding unread_Cons by blast
  obtain b where b: "sn_mar_data H \<lparr>dat_RequestId = se_id s, dat_RawData = ?ds ! ?n\<rparr> = Inr b" "v = frame b"
    using d(2) unfolding carries_def by blast
  have rd: "reads (se_up s) b []"
    using reads_joined [of b "v' @ u"] short d(1) b(2) by simp
  have more: "se_up s \<noteq> frame b @ []"
    using d(1,3) b(2) carries_not_Nil [of H "se_id s" "?ds ! Suc ?n"] by auto
  define w where "w = snd (WriteBytesViaStream (so_outs S h) (?ds ! ?n))"
  have w: "out_bytes w = out_bytes (so_outs S h) @ frame (?ds ! ?n)"
    using WriteBytesViaStream_ok [OF s(8) [OF h]] by (simp add: w_def out_bytes_def frame_def)
  have "relay H ProxySocketDataFromClientSide (Data b) (se_ssgw s) S = Inr ((so_outs S)(h := w))"
    using relay_ends(1) [OF ok inv i b(1)] h commit_write [OF s(8) [OF h]] by (simp add: w_def)
  from sock_up [OF i p rd this] have "sock_step H S ((upd_session i (s\<lparr>se_up := [], se_read_up := Suc ?n\<rparr>) S)
      \<lparr>so_outs := (so_outs S)(h := w), so_whole := False\<rparr>)" (is "sock_step H S ?S")
    using more by simp
  moreover have "out_bytes w = concat (map frame (take (Suc ?n) ?ds))"
    using w f two by (simp add: flow_def take_Suc_conv_app_nth)
  moreover have "concat (map frame ?ds) = concat (map frame (take (Suc ?n) ?ds)) @ concat (map frame (drop (Suc ?n) ?ds))"
    by (metis append_take_drop_id concat_append map_append)
  moreover have "drop (Suc ?n) ?ds = ?ds ! Suc ?n # drop (Suc (Suc ?n)) ?ds"
    using two by (simp add: Cons_nth_drop_Suc)
  ultimately show ?thesis
    using w by (intro exI [of _ ?S] exI [of _ "s\<lparr>se_up := [], se_read_up := Suc ?n\<rparr>"]) simp
qed

text \<open>
  C29. Data can overtake the set-up of its session, and then ends a gateway. In every reachable state,
  when a message of a client is under way while the service side gateway has not dialled yet, that
  gateway can read it, and whatever it reads, its handler panics on the missing connection, which
  ends the gateway; the same happens at the client side gateway with a message of the service before
  the client's connection is entered, and, as long as reads took one message whole and no more, after
  the client closed it.
\<close>

theorem early_data_ends_gateway:
  assumes "(sock_step H)\<^sup>*\<^sup>* S0 S" and "sock_start S0" and ok: "socket_net_ok H" and i: "so_sessions S i = Some s"
  shows "(se_service s = None \<and> se_up s \<noteq> [] \<longrightarrow>
      (\<exists>b rest. reads (se_up s) b rest) \<and>
      (\<forall>b rest. reads (se_up s) b rest \<longrightarrow> relay H ProxySocketDataFromClientSide (Data b) (se_ssgw s) S = Inl PanicNil) \<and>
      (\<exists>S'. sock_step H S S' \<and> so_alive S' = so_alive S - {se_ssgw s})) \<and>
    ((\<not> se_ready s \<or> se_closed s \<and> so_whole S) \<and> se_down s \<noteq> [] \<longrightarrow>
      (\<exists>b rest. reads (se_down s) b rest) \<and>
      (\<forall>b rest. reads (se_down s) b rest \<longrightarrow> (\<exists>stop. relay H ProxySocketDataFromServiceSide (Data b) (se_csgw s) S = Inl stop)) \<and>
      (\<exists>S'. sock_step H S S' \<and> so_alive S' = so_alive S - {se_csgw s}))"
proof -
  have inv: "sock_inv H S"
    by (rule sock_reach_inv [OF assms(1-3)])
  note s = session_okD [OF sock_invD(4) [OF inv i]]
  have dies: "\<exists>S'. sock_step H S S' \<and> so_alive S' = so_alive S - {p}" if "sock_crash H S p" for p
    using sock_dies [OF that] by fastforce
  have first: "(\<exists>b rest. reads u b rest) \<and> (\<forall>b rest. reads u b rest \<longrightarrow> (\<exists>d. sn_mar_data H \<lparr>dat_RequestId = se_id s, dat_RawData = d\<rparr> = Inr b))"
    if u: "unread H (se_id s) ds u" "u \<noteq> []" for ds u
  proof -
    obtain d ds' v u' where d: "u = v @ u'" "carries H (se_id s) d v"
      using unread_first [OF u] by metis
    then show ?thesis
      using reads_carried [OF ok d(2)] by blast
  qed
  have "(\<exists>b rest. reads (se_up s) b rest) \<and>
      (\<forall>b rest. reads (se_up s) b rest \<longrightarrow> relay H ProxySocketDataFromClientSide (Data b) (se_ssgw s) S = Inl PanicNil) \<and> sock_crash H S (se_ssgw s)"
    if none: "se_service s = None" and up: "se_up s \<noteq> []"
  proof -
    note up = first [OF s(1) [OF none] up]
    have nil: "relay H ProxySocketDataFromClientSide (Data b) (se_ssgw s) S = Inl PanicNil" if "reads (se_up s) b rest" for b rest
      using up that relay_ends(1) [OF ok inv i] none by auto
    then show ?thesis
      using up crash_up [OF i] by blast
  qed
  moreover have "(\<exists>b rest. reads (se_down s) b rest) \<and>
      (\<forall>b rest. reads (se_down s) b rest \<longrightarrow> (\<exists>stop. relay H ProxySocketDataFromServiceSide (Data b) (se_csgw s) S = Inl stop)) \<and>
      sock_crash H S (se_csgw s)"
    if late: "\<not> se_ready s \<or> se_closed s \<and> so_whole S" and down: "se_down s \<noteq> []"
  proof -
    have "\<exists>ds. unread H (se_id s) ds (se_down s)"
      using late s(2) sock_invD(7) [OF inv i] unfolding session_flows_def flow_def by blast
    then have down': "(\<exists>b rest. reads (se_down s) b rest) \<and> (\<forall>b rest. reads (se_down s) b rest \<longrightarrow>
        (\<exists>d. sn_mar_data H \<lparr>dat_RequestId = se_id s, dat_RawData = d\<rparr> = Inr b))"
      using first down by blast
    have r: "se_resp s = Some (se_csgw s)"
      using s(6,7) down by (cases "se_resp s") auto
    have stops: "\<exists>stop. relay H ProxySocketDataFromServiceSide (Data b) (se_csgw s) S = Inl stop" if rd: "reads (se_down s) b rest" for b rest
    proof -
      obtain d where "sn_mar_data H \<lparr>dat_RequestId = se_id s, dat_RawData = d\<rparr> = Inr b"
        using down' rd by blast
      from relay_ends(2) [OF ok inv i this] show ?thesis
        using late s(9) Write_closed by (auto split: if_splits)
    qed
    then show ?thesis
      using down' crash_down [OF i r] by blast
  qed
  ultimately show ?thesis
    using dies by blast
qed

section \<open>A sample run\<close>

definition limited :: "('m \<Rightarrow> go_error + bytes) \<Rightarrow> 'm \<Rightarrow> go_error + bytes" where
  "limited mar m = (case mar m of Inl err \<Rightarrow> Inl err | Inr b \<Rightarrow> if length b \<le> max_alloc then Inr b else Inl EOF)"

lemma limited_Inr_iff: "limited mar m = Inr b \<longleftrightarrow> mar m = Inr b \<and> length b \<le> max_alloc"
  by (auto simp: limited_def split: sum.splits)

definition sample_sockets :: socket_net where
  "sample_sockets = \<lparr>sn_mar_req = limited (marshal_ApronSocketServiceRequest sample_runtime),
     sn_unm_init = unmarshal_ApronSocketInitRequest sample_runtime,
     sn_mar_data = limited (marshal_ApronServiceData sample_runtime), sn_unm_data = unmarshal_ApronServiceData sample_runtime,
     sn_id = id, sn_decode = Inr, sn_newStream = (\<lambda>_ _. Inr no_stream)\<rparr>"

lemma sample_sockets_ok: "socket_net_ok sample_sockets"
  using socket_request_read [OF sample_runtime_ok] codec_okD [OF codec_ApronServiceData [OF sample_runtime_ok]]
  by (simp add: socket_net_ok_def sample_sockets_def limited_Inr_iff)

definition sample_gateways :: socket_system where
  "sample_gateways = \<lparr>so_nodes = (\<lambda>p. sample_csgw\<lparr>node_Host := p\<rparr>), so_alive = {''A'', ''B''}, so_uuids = {}, so_handles = {},
     so_sessions = Map.empty, so_outs = (\<lambda>_. no_stream), so_whole = True\<rparr>"

lemma sample_gateways_start: "sock_start sample_gateways"
  using sample_csgw_facts(1)
  by (auto simp: sock_start_def sample_gateways_def node_inv_def sample_csgw_def enter_service_def sample_node_def)

abbreviation sample_session_req :: ApronSocketServiceRequest where
  "sample_session_req \<equiv> \<lparr>sreq_ServiceId = ''httpbin_01'', sreq_RequestId = ''u.httpbin_01.7'', sreq_PeerId = ''A''\<rparr>"

text \<open>A client opens a session and sends one message before the service side gateway dials.\<close>

lemma sample_session_opens:
  "\<exists>st n'. csgw_open sample_sockets ''7'' 1 2 \<lparr>chunks = [frame session_init_bytes], fin = EOF\<rparr> (so_nodes sample_gateways ''A'') =
     Inr (Opened ''B'' sample_session_req st no_stream \<lparr>chunks = [], fin = EOF\<rparr>, n')"
proof -
  let ?n = "so_nodes sample_gateways ''A''" and ?c = "\<lparr>chunks = [frame session_init_bytes], fin = EOF\<rparr> :: net_in"
  let ?H = sample_sockets
  have n: "?n = sample_csgw"
    using sample_csgw_facts(3) by (simp add: sample_gateways_def)
  have len: "length (frame session_init_bytes @ []) \<le> defaultBufSize" "length session_req_bytes \<le> max_alloc"
    by (simp_all add: frame_def session_init_bytes_def session_req_bytes_def defaultBufSize_def max_alloc_def)
  have "sn_unm_init ?H session_init_bytes = Inr session_init"
    using codec_okD [OF codec_ApronSocketInitRequest [OF sample_runtime_ok] session_bytes(1)] by (simp add: sample_sockets_def)
  then have i: "read_init_request (sn_unm_init ?H) ?c = Inr (session_init, \<lparr>chunks = [], fin = EOF\<rparr>)"
    using read_init_one_chunk [of ?c session_init_bytes "[]" "[]"] len(1) by simp
  have d: "directory sample_csgw (init_ServiceId session_init) = Some (''B'', sample_service ''httpbin_01'')"
    using sample_csgw_facts(2) by (simp add: session_init_def)
  have "\<lparr>sreq_ServiceId = svc_Id (sample_service ''httpbin_01''),
      sreq_RequestId = make_request_id (init_UserId session_init) (svc_Id (sample_service ''httpbin_01'')) ''7'',
      sreq_PeerId = sn_id ?H (node_Host sample_csgw)\<rparr> = sample_session_req"
    using session_bytes(2) by (simp add: session_request_def sample_sockets_def)
  moreover have "sn_mar_req ?H sample_session_req = Inr session_req_bytes"
    using session_bytes(3) len(2) by (simp add: sample_sockets_def limited_Inr_iff)
  ultimately show ?thesis
    using StartSocketForwardService_eq [where newStream = "sn_newStream ?H" and mar = "sn_mar_req ?H" and id_string = "sn_id ?H"
        and uuid = "''7''" and h = 2 and ch = 1, OF sample_csgw_facts(1) i d]
    unfolding n csgw_open_def by (auto simp: sample_sockets_def sample_service_def)
qed

definition sample_message :: "bytes \<Rightarrow> net_out" where
  "sample_message d = snd (WriteBytesViaStream no_stream (session_enc d))"

lemma sample_frame:
  assumes "se_id s = ''u.httpbin_01.7''" and d: "d \<in> {[7], [9]}"
  shows "\<exists>c'. receive_frame \<lparr>chunks = [frame d], fin = EOF\<rparr> d c' \<and>
    csgw_frame sample_sockets s \<lparr>chunks = [frame d], fin = EOF\<rparr> no_stream = (Running, sample_message d)"
proof -
  let ?c = "\<lparr>chunks = [frame d], fin = EOF\<rparr> :: net_in"
  obtain r where r: "read_frame (NewReader ?c) = (Inr (Inr d), r)"
    using frame_from_stream [of ?c d] d by (auto simp: conn_pending_def max_alloc_def ReadOneFrameDataFromStream_def split: prod.splits)
  have "marshal_ApronServiceData sample_runtime \<lparr>dat_RequestId = ''u.httpbin_01.7'', dat_RawData = [7]\<rparr> = Inr (session_enc [7])"
    and "marshal_ApronServiceData sample_runtime \<lparr>dat_RequestId = ''u.httpbin_01.7'', dat_RawData = [9]\<rparr> = Inr (session_enc [9])"
    and "length (session_enc [7]) \<le> 100" and "length (session_enc [9]) \<le> 100"
    by code_simp+
  then have "marshal_ApronServiceData sample_runtime \<lparr>dat_RequestId = ''u.httpbin_01.7'', dat_RawData = d\<rparr> = Inr (session_enc d)"
    and "length (session_enc d) \<le> max_alloc"
    using d by (auto simp: max_alloc_def)
  then have "forward_data (sn_mar_data sample_sockets) (se_id s) d no_stream = (Inr (), sample_message d)"
    using assms(1) by (simp add: forward_data_def sample_sockets_def limited_def sample_message_def WriteBytesViaStream_ok no_stream_def)
  then show ?thesis
    using r by (auto simp: receive_frame_def csgw_frame_def)
qed

lemma sample_sockets_run:
  "\<exists>S s. (sock_step sample_sockets)\<^sup>*\<^sup>* sample_gateways S \<and> so_sessions S 1 = Some s \<and> so_alive S = {''A'', ''B''} \<and>
     se_csgw s = ''A'' \<and> se_ssgw s = ''B'' \<and> se_req s = sample_session_req \<and> se_client s = 2 \<and> se_ready s \<and> \<not> se_closed s \<and>
     se_service s = None \<and> se_sent_up s = [[7]] \<and> se_sent_down s = [] \<and> se_up s = out_bytes (sample_message [7]) \<and> se_read_up s = 0 \<and>
     so_handles S = {2} \<and> so_whole S \<and> services (so_nodes S ''B'') = services sample_csgw"
proof -
  obtain st n' where o: "csgw_open sample_sockets ''7'' 1 2 \<lparr>chunks = [frame session_init_bytes], fin = EOF\<rparr>
      (so_nodes sample_gateways ''A'') = Inr (Opened ''B'' sample_session_req st no_stream \<lparr>chunks = [], fin = EOF\<rparr>, n')"
    using sample_session_opens by blast
  let ?s = "new_session ''A'' ''B'' sample_session_req 2 st"
  let ?S1 = "(upd_session 1 ?s (upd_node ''A'' (n'\<lparr>clientSocketConns := clientSocketConns (so_nodes sample_gateways ''A'')\<rparr>)
      sample_gateways))\<lparr>so_uuids := insert ''7'' (so_uuids sample_gateways), so_handles := insert 2 (so_handles sample_gateways)\<rparr>"
  have s1: "sock_step sample_sockets sample_gateways ?S1"
    by (rule sock_open [OF _ _ _ _ _ o]) (simp_all add: sample_gateways_def no_dot_def)
  let ?S2 = "upd_session 1 (?s\<lparr>se_ready := True\<rparr>) (upd_node ''A'' (enter_client ''u.httpbin_01.7'' 2 (so_nodes ?S1 ''A'')) ?S1)"
  have s2: "sock_step sample_sockets ?S1 ?S2"
    using sock_ready [of ?S1 1 ?s sample_sockets] by (simp add: new_session_def sample_gateways_def)
  obtain c' where f: "receive_frame \<lparr>chunks = [frame [7]], fin = EOF\<rparr> [7] c'"
      "csgw_frame sample_sockets (?s\<lparr>se_ready := True\<rparr>) \<lparr>chunks = [frame [7]], fin = EOF\<rparr> no_stream = (Running, sample_message [7])"
    using sample_frame [of "?s\<lparr>se_ready := True\<rparr>" "[7]"] by (auto simp: new_session_def)
  let ?s3 = "?s\<lparr>se_ready := True, se_sent_up := [[7]], se_up := out_bytes (sample_message [7])\<rparr>"
  let ?S3 = "upd_session 1 ?s3 ?S2"
  have s3: "sock_step sample_sockets ?S2 ?S3"
    using sock_frame [of ?S2 1 "?s\<lparr>se_ready := True\<rparr>", OF _ _ _ _ f] by (simp add: new_session_def sample_gateways_def)
  have "(sock_step sample_sockets)\<^sup>*\<^sup>* sample_gateways ?S3"
    using s1 s2 s3 by (meson converse_rtranclp_into_rtranclp r_into_rtranclp)
  then show ?thesis
    by (intro exI [of _ ?S3] exI [of _ ?s3]) (simp add: new_session_def sample_gateways_def)
qed

lemma sample_message_bytes:
  "out_bytes (sample_message d) = frame (session_enc d)"
  by (simp add: sample_message_def WriteBytesViaStream_ok no_stream_def out_bytes_def frame_def)

lemma sample_provider:
  assumes "services n = services sample_csgw"
  shows "svc_Providers (service_at n (sreq_ServiceId sample_session_req)) = Some empty_provider # []"
  using assms sample_csgw_facts(2) by (simp add: service_at_def directory_Some_iff sample_service_def)

theorem session_delivers_witness:
  "\<exists>S0 S S' s' h. (sock_step sample_sockets)\<^sup>*\<^sup>* S0 S \<and> sock_start S0 \<and> (sock_step sample_sockets)\<^sup>*\<^sup>* S S' \<and>
     so_sessions S' 1 = Some s' \<and> se_service s' = Some h \<and> out_bytes (so_outs S' h) = frame [7]"
proof -
  obtain S s where S: "(sock_step sample_sockets)\<^sup>*\<^sup>* sample_gateways S" "so_sessions S 1 = Some s" "so_alive S = {''A'', ''B''}"
      "se_csgw s = ''A''" "se_ssgw s = ''B''" "se_req s = sample_session_req" "\<not> se_closed s" "se_sent_up s = [[7]]"
      "so_handles S = {2}" "services (so_nodes S ''B'') = services sample_csgw" "so_whole S"
    using sample_sockets_run by blast
  then show ?thesis
    using session_delivers [OF S(1) sample_gateways_start sample_sockets_ok S(2,11), of "Some empty_provider" "[]" 3]
      sample_provider [OF S(10)] sample_gateways_start by fastforce
qed

theorem early_data_ends_gateway_witness:
  "\<exists>S S'. (sock_step sample_sockets)\<^sup>*\<^sup>* sample_gateways S \<and> so_alive S = {''A'', ''B''} \<and>
     sock_step sample_sockets S S' \<and> so_alive S' = {''A''}"
proof -
  obtain S s where S: "(sock_step sample_sockets)\<^sup>*\<^sup>* sample_gateways S" "so_sessions S 1 = Some s" "so_alive S = {''A'', ''B''}"
      "se_ssgw s = ''B''" "se_service s = None" "se_up s = frame (session_enc [7])"
    unfolding sample_message_bytes [symmetric] using sample_sockets_run by blast
  obtain S' where "sock_step sample_sockets S S'" "so_alive S' = so_alive S - {se_ssgw s}"
    using early_data_ends_gateway [OF S(1) sample_gateways_start sample_sockets_ok S(2)] S(5,6) frame_not_Nil by metis
  moreover have "{''A'', ''B''} - {''B''} = {''A''}"
    by auto
  ultimately show ?thesis
    using S(1,3,4) by (intro exI [of _ S] exI [of _ S']) simp
qed

theorem sessions_isolated_witness:
  "\<exists>S s h k. (sock_step sample_sockets)\<^sup>*\<^sup>* sample_gateways S \<and> so_whole S \<and> so_sessions S 1 = Some s \<and> se_service s = Some h \<and>
     out_bytes (so_outs S h) = frame [7] \<and> out_bytes (so_outs S h) = concat (map frame (take k (se_sent_up s)))"
proof -
  obtain S s where S: "(sock_step sample_sockets)\<^sup>*\<^sup>* sample_gateways S" "so_sessions S 1 = Some s" "so_alive S = {''A'', ''B''}"
      "se_csgw s = ''A''" "se_ssgw s = ''B''" "se_req s = sample_session_req" "\<not> se_closed s" "se_sent_up s = [[7]]"
      "so_handles S = {2}" "services (so_nodes S ''B'') = services sample_csgw" "so_whole S"
    using sample_sockets_run by blast
  have inv: "sock_inv sample_sockets S"
    by (rule sock_reach_inv [OF S(1) sample_gateways_start sample_sockets_ok])
  obtain S' s' h where S': "(sock_step sample_sockets)\<^sup>*\<^sup>* S S'" "so_sessions S' 1 = Some s'" "se_service s' = Some h"
      "out_bytes (so_outs S' h) = frame [7]" "so_whole S'"
    using session_can_deliver [OF sample_sockets_ok inv S(2,11), of "Some empty_provider" "[]" 3] S(3-9) sample_provider [OF S(10)]
    by fastforce
  have r: "(sock_step sample_sockets)\<^sup>*\<^sup>* sample_gateways S'"
    using S(1) S'(1) by (rule rtranclp_trans)
  then show ?thesis
    using sessions_isolated [OF r sample_gateways_start sample_sockets_ok S'(2)] S'(2-5) by blast
qed

text \<open>The same client sends a second message, and then the service side gateway dials.\<close>

lemma sample_two_messages:
  "\<exists>S s h. (sock_step sample_sockets)\<^sup>*\<^sup>* sample_gateways S \<and> so_sessions S 1 = Some s \<and> so_whole S \<and> se_ssgw s \<in> so_alive S \<and>
     se_service s = Some h \<and> se_sent_up s = [[7], [9]] \<and> se_read_up s = 0 \<and>
     se_up s = frame (session_enc [7]) @ frame (session_enc [9])"
proof -
  obtain S s where S: "(sock_step sample_sockets)\<^sup>*\<^sup>* sample_gateways S" "so_sessions S 1 = Some s" "so_alive S = {''A'', ''B''}"
      "se_csgw s = ''A''" "se_ssgw s = ''B''" "se_req s = sample_session_req" "se_ready s" "\<not> se_closed s" "se_sent_up s = [[7]]"
      "se_up s = out_bytes (sample_message [7])" "se_read_up s = 0" "so_handles S = {2}" "so_whole S"
      "services (so_nodes S ''B'') = services sample_csgw"
    using sample_sockets_run by blast
  obtain c' where f: "receive_frame \<lparr>chunks = [frame [9]], fin = EOF\<rparr> [9] c'"
      "csgw_frame sample_sockets s \<lparr>chunks = [frame [9]], fin = EOF\<rparr> no_stream = (Running, sample_message [9])"
    using sample_frame [of s "[9]"] S(6) by auto
  let ?s = "s\<lparr>se_sent_up := se_sent_up s @ [[9]], se_up := se_up s @ out_bytes (sample_message [9])\<rparr>"
  let ?S = "upd_session 1 ?s S"
  have "sock_step sample_sockets S ?S"
    using sock_frame [OF S(2) _ S(7,8) f] S(3,4) by simp
  then have r: "(sock_step sample_sockets)\<^sup>*\<^sup>* sample_gateways ?S"
    using S(1) by (rule rtranclp.rtrancl_into_rtrancl [rotated])
  have "sock_inv sample_sockets ?S"
    by (rule sock_reach_inv [OF r sample_gateways_start sample_sockets_ok])
  then obtain S' s' where S': "(sock_step sample_sockets)\<^sup>*\<^sup>* ?S S'" "so_sessions S' 1 = Some s'" "so_alive S' = so_alive S"
      "so_whole S'" "se_service s' \<noteq> None" "se_ssgw s' = se_ssgw s" "se_sent_up s' = [[7], [9]]" "se_read_up s' = 0"
      "se_up s' = frame (session_enc [7]) @ frame (session_enc [9])"
    using dial_enabled [OF sample_sockets_ok, of ?S 1 ?s "Some empty_provider" "[]" 3] S(3,5,6,9-13) sample_provider [OF S(14)]
    by (auto simp: sample_message_bytes)
  have "(sock_step sample_sockets)\<^sup>*\<^sup>* sample_gateways S'"
    using r S'(1) by (rule rtranclp_trans)
  then show ?thesis
    using S'(2-) S(3,5) by (intro exI [of _ S']) auto
qed

theorem joined_messages_lost_witness:
  "\<exists>S S' s s' h. (sock_step sample_sockets)\<^sup>*\<^sup>* sample_gateways S \<and> so_sessions S 1 = Some s \<and> sock_step sample_sockets S S' \<and>
     so_sessions S' 1 = Some s' \<and> se_service s = Some h \<and> se_sent_up s' = [[7], [9]] \<and> se_up s' = [] \<and>
     out_bytes (so_outs S' h) = out_bytes (so_outs S h) @ frame [7]"
proof -
  obtain S s h where S: "(sock_step sample_sockets)\<^sup>*\<^sup>* sample_gateways S" "so_sessions S 1 = Some s" "so_whole S"
      "se_ssgw s \<in> so_alive S" "se_service s = Some h" "se_sent_up s = [[7], [9]]" "se_read_up s = 0"
      "se_up s = frame (session_enc [7]) @ frame (session_enc [9])"
    using sample_two_messages by blast
  have "length (session_enc [7]) \<le> 100" "length (session_enc [9]) \<le> 100"
    by code_simp+
  then have "length (se_up s) \<le> defaultBufSize"
    using S(8) by (simp add: defaultBufSize_def)
  then obtain S' s' where "sock_step sample_sockets S S'" "so_sessions S' 1 = Some s'" "se_sent_up s' = se_sent_up s" "se_up s' = []"
      "out_bytes (so_outs S' h) = out_bytes (so_outs S h) @ frame [7]"
    using joined_messages_lost [OF S(1) sample_gateways_start sample_sockets_ok S(2-5)] S(6,7) by auto
  then show ?thesis
    using S(1,2,5,6) by (intro exI [of _ S] exI [of _ S']) auto
qed

end
