(* ===== verification/Socket_Refinement.thy ===== *)
theory Socket_Refinement
  imports Socket_Delivery
begin






section \<open>Steps\<close>







section \<open>Property\<close>



end
