(* ===== verification/Test_Network.thy ===== *)
theory Test_Network
  imports Gateway
begin

text \<open>
  The network the integration tests build, \<open>src/test/test_utils.go\<close>: bootstrap nodes, then client
  nodes that join the DHT through them, with consecutive ports; registration of a service at one of
  them; the WebSocket service the tests talk to. \<open>hostAddrs\<close> are the listening addresses of a host.
\<close>

record test_node =
  tn_node :: Node
  tn_handlers :: "string \<rightharpoonup> stream_handler"
  tn_kdht :: kdht
  tn_tasks :: "gateway_task list"

definition test_config :: "AddrList \<Rightarrow> int \<Rightarrow> NodeConfig" where
  "test_config peers port =
     zero_config\<lparr>BootstrapPeers := peers, InternalPort := port, MgmtAddr := ''localhost:'' @ decimal (port + 1),
       ForwardServiceAddr := ''localhost:'' @ decimal (port + 2)\<rparr>"

text \<open>The body of both loops up to the place where a bootstrap node's address is noted, and from there on.\<close>

definition new_test_node :: "gateway_env \<Rightarrow> NodeConfig \<Rightarrow> go_stop + Node" where
  "new_test_node env config =
     bindP (must (NewNode (genv_newMultiaddr env) (genv_libp2p_New env) config)) (\<lambda>node.
       SetupServiceBroadcastListener (genv_NewGossipSub env) (genv_Join env) (genv_Subscribe env) node)"

definition run_test_node :: "gateway_env \<Rightarrow> AddrList \<Rightarrow> Node \<Rightarrow> go_stop + test_node" where
  "run_test_node env peers node =
     bindP (NewKDHT (genv_dht_New env) (genv_dht_Bootstrap env) (genv_addrInfo env) (genv_connect env) peers) (\<lambda>r.
     bindP (must r) (\<lambda>kd.
       Inr \<lparr>tn_node = node, tn_handlers = SetProxyStreamHandlers, tn_kdht = kd,
         tn_tasks = [ListenServiceBroadcast, DiscoverTask ''foobar'', MgmtApiServer (MgmtAddr (node_Config node)),
           ForwardService (ForwardServiceAddr (node_Config node))]\<rparr>))"

fun build_bootstrap ::
  "gateway_env \<Rightarrow> (peer_id \<Rightarrow> string list) \<Rightarrow> nat \<Rightarrow> int \<Rightarrow> AddrList \<Rightarrow> go_stop + (test_node list \<times> int \<times> AddrList)" where
  "build_bootstrap env hostAddrs 0 port bsPeers = Inr ([], port, bsPeers)"
| "build_bootstrap env hostAddrs (Suc k) port bsPeers =
     bindP (new_test_node env (test_config [] port)) (\<lambda>node.
     bindP (NodeAddrStr (hostAddrs (node_Host node)) node) (\<lambda>addr.
       let bsPeers' = (case AddrList_Set (genv_newMultiaddr env) addr bsPeers of Inl err \<Rightarrow> bsPeers | Inr al \<Rightarrow> al) in
     bindP (run_test_node env [] node) (\<lambda>t.
     bindP (build_bootstrap env hostAddrs k (port + 3) bsPeers') (\<lambda>(ts, p, al). Inr (t # ts, p, al)))))"

fun build_clients :: "gateway_env \<Rightarrow> nat \<Rightarrow> int \<Rightarrow> AddrList \<Rightarrow> go_stop + test_node list" where
  "build_clients env 0 port bsPeers = Inr []"
| "build_clients env (Suc k) port bsPeers =
     bindP (new_test_node env (test_config bsPeers port)) (\<lambda>node.
     bindP (run_test_node env bsPeers node) (\<lambda>t.
     bindP (build_clients env k (port + 3) bsPeers) (\<lambda>ts. Inr (t # ts))))"

definition BuildKdhtNetwork ::
  "gateway_env \<Rightarrow> (peer_id \<Rightarrow> string list) \<Rightarrow> nat \<Rightarrow> nat \<Rightarrow> go_stop + (test_node list \<times> test_node list)" where
  "BuildKdhtNetwork env hostAddrs bsNodeCount clientCount =
     bindP (build_bootstrap env hostAddrs bsNodeCount 12345 []) (\<lambda>(bsNodes, port, bsPeers).
     bindP (build_clients env clientCount port bsPeers) (\<lambda>clientNodes. Inr (bsNodes, clientNodes)))"

definition RegisterService ::
  "ApronService marshaller \<Rightarrow> (bytes \<Rightarrow> go_error option) \<Rightarrow> Node \<Rightarrow> ApronService \<Rightarrow> bool \<Rightarrow> go_stop + Node" where
  "RegisterService mar publish node service registerServiceAsRemoteService =
     (if registerServiceAsRemoteService then RegisterRemoteService (node_Host node) service node
      else bindP (RegisterLocalService mar publish service node) (\<lambda>(_, n'). Inr n'))"

text \<open>
  The two goroutines of \<open>StartDemoWebsocketServer\<close>: what they write, given the clock, and given the
  messages read. Errors of the echo's own writes are ignored.
\<close>

fun demo_stream :: "(nat \<Rightarrow> int) \<Rightarrow> nat \<Rightarrow> go_error option list \<Rightarrow> loop_state \<times> ws_message list" where
  "demo_stream now 0 outcomes = (Running, [])"
| "demo_stream now (Suc k) outcomes =
     (case outcomes of
        Some err # _ \<Rightarrow> (Panicked (PanicErr err), [])
      | _ \<Rightarrow> (case demo_stream now k (tl outcomes) of
          (st, ms) \<Rightarrow> (st, (TextMessage, bytes_of_string (decimal (now k))) # ms)))"

fun demo_echo :: "(go_error + ws_message) list \<Rightarrow> loop_state \<times> ws_message list" where
  "demo_echo [] = (Running, [])"
| "demo_echo (Inl err # rs) = (Panicked (PanicErr err), [])"
| "demo_echo (Inr (_, msgBytes) # rs) =
     (case demo_echo rs of (st, ms) \<Rightarrow> (st, (TextMessage, bytes_of_string ''ECHO: '' @ msgBytes) # ms))"

section \<open>Building\<close>

definition test_env_ok :: "gateway_env \<Rightarrow> (peer_id \<Rightarrow> string list) \<Rightarrow> bool" where
  "test_env_ok env hostAddrs \<longleftrightarrow>
     (\<forall>addr key. \<exists>h. genv_libp2p_New env addr key = Inr h) \<and> genv_NewGossipSub env = None \<and> genv_Join env = None \<and>
     genv_Subscribe env = None \<and> (\<forall>m. genv_dht_New env m = None) \<and> genv_dht_Bootstrap env = None \<and>
     (\<forall>h. \<exists>a as. hostAddrs h = a # as \<and>
        genv_newMultiaddr env (a @ ''/p2p/'' @ h) = Inr (a @ ''/p2p/'' @ h) \<and> genv_addrInfo env (a @ ''/p2p/'' @ h) = Some h) \<and>
     (\<forall>p. genv_connect env p = None)"

text \<open>A node of the network: ready, with its own ports, connected to the given peers.\<close>

definition test_node_ok :: "AddrList \<Rightarrow> peer_id list \<Rightarrow> int \<Rightarrow> test_node \<Rightarrow> bool" where
  "test_node_ok peers connected port t \<longleftrightarrow>
     node_ready (tn_node t) \<and> node_Config (tn_node t) = test_config peers port \<and>
     tn_handlers t = SetProxyStreamHandlers \<and> tn_kdht t = \<lparr>kd_ModeServer = (peers = []), kd_connected = connected\<rparr>"

lemma new_test_node_ok:
  assumes "test_env_ok env hostAddrs"
  shows "\<exists>n. new_test_node env config = Inr n \<and> node_ready n \<and> node_Config n = config"
proof -
  obtain h where "genv_libp2p_New env (case genv_newMultiaddr env (listen_addr (InternalPort config)) of Inl _ \<Rightarrow> None | Inr a \<Rightarrow> Some a)
      (key_source_of (SecretKey config)) = Inr h"
    using assms unfolding test_env_ok_def by blast
  then obtain n0 where n0: "NewNode (genv_newMultiaddr env) (genv_libp2p_New env) config = Inr n0"
    by (simp add: NewNode_def)
  let ?n = "n0\<lparr>broadcastServiceTopic := True, selfID := node_Host n0\<rparr>"
  have n1: "SetupServiceBroadcastListener None None None n0 = Inr ?n"
    by (simp add: SetupServiceBroadcastListener_def)
  then have "node_ready ?n"
    unfolding node_ready_def using n0 by blast
  then show ?thesis
    using NewNode_InrD(3) [OF n0] n0 n1 assms by (auto simp: new_test_node_def test_env_ok_def)
qed

lemma run_test_node_ok:
  assumes "test_env_ok env hostAddrs" and "map (genv_addrInfo env) peers = map Some ps" and "node_ready n"
    and "node_Config n = test_config peers port"
  shows "\<exists>t. run_test_node env peers n = Inr t \<and> tn_node t = n \<and> test_node_ok peers ps port t"
proof -
  have "\<forall>a \<in> set peers. genv_addrInfo env a \<noteq> None"
    using arg_cong [OF assms(2), of set] by force
  moreover have "map (the \<circ> genv_addrInfo env) peers = ps"
    using arg_cong [OF assms(2), of "map the"] by (simp add: comp_def)
  ultimately show ?thesis
    using assms connect_all_ok [of peers "genv_addrInfo env" "genv_connect env"]
    by (simp add: run_test_node_def NewKDHT_def test_env_ok_def test_node_ok_def)
qed

text \<open>The address under which a node is noted as a bootstrap peer.\<close>

definition bootstrap_addr :: "(peer_id \<Rightarrow> string list) \<Rightarrow> test_node \<Rightarrow> multiaddr" where
  "bootstrap_addr hostAddrs t = hd (hostAddrs (node_Host (tn_node t))) @ ''/p2p/'' @ node_Host (tn_node t)"

lemma bootstrap_addr_info:
  "test_env_ok env hostAddrs \<Longrightarrow> genv_addrInfo env (bootstrap_addr hostAddrs t) = Some (node_Host (tn_node t))"
  unfolding test_env_ok_def bootstrap_addr_def by (metis list.sel(1))

lemma build_bootstrap_ok:
  assumes env: "test_env_ok env hostAddrs"
  shows "\<exists>ts. build_bootstrap env hostAddrs k port al = Inr (ts, port + 3 * int k, al @ map (bootstrap_addr hostAddrs) ts) \<and>
    length ts = k \<and> (\<forall>i < k. test_node_ok [] [] (port + 3 * int i) (ts ! i))"
proof (induction k arbitrary: port al)
  case 0
  then show ?case by simp
next
  case (Suc k)
  obtain n where n: "new_test_node env (test_config [] port) = Inr n" "node_ready n" "node_Config n = test_config [] port"
    using new_test_node_ok [OF env] by blast
  obtain t where t: "run_test_node env [] n = Inr t" "tn_node t = n" "test_node_ok [] [] port t"
    using run_test_node_ok [OF env _ n(2,3), of "[]"] by auto
  obtain a as where "hostAddrs (node_Host n) = a # as" "genv_newMultiaddr env (a @ ''/p2p/'' @ node_Host n) = Inr (a @ ''/p2p/'' @ node_Host n)"
    using env unfolding test_env_ok_def by blast
  then have "NodeAddrStr (hostAddrs (node_Host n)) n = Inr (bootstrap_addr hostAddrs t)"
    "genv_newMultiaddr env (bootstrap_addr hostAddrs t) = Inr (bootstrap_addr hostAddrs t)"
    using t(2) by (simp_all add: bootstrap_addr_def NodeAddrStr_def)
  moreover obtain ts where ts: "build_bootstrap env hostAddrs k (port + 3) (al @ [bootstrap_addr hostAddrs t]) =
        Inr (ts, port + 3 + 3 * int k, (al @ [bootstrap_addr hostAddrs t]) @ map (bootstrap_addr hostAddrs) ts)"
      "length ts = k" "\<forall>i < k. test_node_ok [] [] (port + 3 + 3 * int i) (ts ! i)"
    using Suc.IH by blast
  ultimately have "build_bootstrap env hostAddrs (Suc k) port al =
      Inr (t # ts, port + 3 * int (Suc k), al @ map (bootstrap_addr hostAddrs) (t # ts))"
    using n(1) t(1) by (simp add: AddrList_Set_def)
  moreover have "\<forall>i < Suc k. test_node_ok [] [] (port + 3 * int i) ((t # ts) ! i)"
    using t(3) ts(3) by (auto simp: nth_Cons algebra_simps split: nat.split)
  ultimately show ?case
    using ts(2) by (metis length_Cons)
qed

lemma build_clients_ok:
  assumes env: "test_env_ok env hostAddrs" and ps: "map (genv_addrInfo env) al = map Some ps"
  shows "\<exists>ts. build_clients env k port al = Inr ts \<and> length ts = k \<and>
    (\<forall>i < k. test_node_ok al ps (port + 3 * int i) (ts ! i))"
proof (induction k arbitrary: port)
  case 0
  then show ?case by simp
next
  case (Suc k)
  obtain n where n: "new_test_node env (test_config al port) = Inr n" "node_ready n" "node_Config n = test_config al port"
    using new_test_node_ok [OF env] by blast
  obtain t where t: "run_test_node env al n = Inr t" "test_node_ok al ps port t"
    using run_test_node_ok [OF env ps n(2,3)] by blast
  obtain ts where ts: "build_clients env k (port + 3) al = Inr ts" "length ts = k"
      "\<forall>i < k. test_node_ok al ps (port + 3 + 3 * int i) (ts ! i)"
    using Suc.IH by blast
  have "\<forall>i < Suc k. test_node_ok al ps (port + 3 * int i) ((t # ts) ! i)"
    using t(2) ts(3) by (auto simp: nth_Cons algebra_simps split: nat.split)
  then show ?case
    using n(1) t(1) ts(1,2) by simp
qed

section \<open>Properties\<close>

text \<open>
  The tests run on the network they ask for. When libp2p's calls succeed, \<open>BuildKdhtNetwork\<close>
  returns the requested numbers of nodes; every node is ready, with all stream handlers installed,
  and has three ports of its own, none used by another node; the bootstrap nodes run the DHT as
  servers, and every client node knows the addresses of all bootstrap nodes, in order, and is connected
  to all of them.
\<close>

theorem test_network_built:
  assumes "test_env_ok env hostAddrs"
  shows "\<exists>bs cs. BuildKdhtNetwork env hostAddrs m k = Inr (bs, cs) \<and> length bs = m \<and> length cs = k \<and>
    (\<forall>i < m. test_node_ok [] [] (12345 + 3 * int i) (bs ! i)) \<and>
    (\<forall>i < k. test_node_ok (map (bootstrap_addr hostAddrs) bs) (map (node_Host \<circ> tn_node) bs)
       (12345 + 3 * int (m + i)) (cs ! i))"
proof -
  obtain bs where bs: "build_bootstrap env hostAddrs m 12345 [] =
        Inr (bs, 12345 + 3 * int m, map (bootstrap_addr hostAddrs) bs)"
      "length bs = m" "\<forall>i < m. test_node_ok [] [] (12345 + 3 * int i) (bs ! i)"
    using build_bootstrap_ok [OF assms, of m 12345 "[]"] by auto
  have "map (genv_addrInfo env) (map (bootstrap_addr hostAddrs) bs) = map Some (map (node_Host \<circ> tn_node) bs)"
    using bootstrap_addr_info [OF assms] by simp
  then obtain cs where cs: "build_clients env k (12345 + 3 * int m) (map (bootstrap_addr hostAddrs) bs) = Inr cs" "length cs = k"
      "\<forall>i < k. test_node_ok (map (bootstrap_addr hostAddrs) bs) (map (node_Host \<circ> tn_node) bs)
        (12345 + 3 * int m + 3 * int i) (cs ! i)"
    using build_clients_ok [OF assms] by blast
  then show ?thesis
    using bs by (simp add: BuildKdhtNetwork_def algebra_simps)
qed

definition test_env :: gateway_env where
  "test_env = \<lparr>genv_newMultiaddr = Inr, genv_libp2p_New = (\<lambda>_ _. Inr ''h''),
     genv_NewGossipSub = None, genv_Join = None, genv_Subscribe = None, genv_dht_New = (\<lambda>_. None), genv_dht_Bootstrap = None,
     genv_addrInfo = (\<lambda>a. Some (drop 7 a)), genv_connect = (\<lambda>_. None)\<rparr>"

theorem test_network_built_witness:
  "\<exists>bs cs. BuildKdhtNetwork test_env (\<lambda>_. [''/a'']) 1 1 = Inr ([bs], [cs]) \<and>
     InternalPort (node_Config (tn_node cs)) = 12348 \<and> kd_connected (tn_kdht cs) = [node_Host (tn_node bs)]"
proof -
  have "test_env_ok test_env (\<lambda>_. [''/a''])"
    by (auto simp: test_env_ok_def test_env_def)
  from test_network_built [OF this, of 1 1] show ?thesis
    by (auto simp: length_Suc_conv test_node_ok_def test_config_def)
qed

lemma demo_echo_answers:
  "demo_echo (map Inr ms) = (Running, map (\<lambda>m. (TextMessage, bytes_of_string ''ECHO: '' @ snd m)) ms)"
  by (induction ms) auto

end
